(* ===== verification/Prelude.thy ===== *)
theory Prelude
  imports Main "HOL-Library.Word"
begin

text \<open>
  Shared ground of the development: the machine integers of the sources, the failure values
  (assertion failures, wild accesses, self-deadlocks), the state-and-failure monad in which every
  operation is written, the C array and string primitives, and the rewriting rules that execute
  monadic code symbolically.

  A value of type \<open>('a, 's) m\<close> is a computation over the state \<open>'s\<close>. It either returns a value
  and a new state (\<open>Inr (x, s')\<close>) or stops the process (\<open>Inl e\<close>). Error codes that the sources
  return to their callers (\<open>-1\<close>, \<open>-ENOENT\<close>, null pointers) are ordinary values.
\<close>

unbundle bit_operations_syntax

named_theorems run_simps "symbolic execution of monadic code"

section \<open>Machine integers and byte arrays\<close>

type_synonym byte = "8 word"
type_synonym u16 = "16 word"
type_synonym u32 = "32 word"

text \<open>
  A C array of bytes is a function from indices; only the indices below the size of the array
  are meaningful. A C string is the list of the bytes of its buffer from the pointer on.
\<close>

type_synonym bytes = "nat \<Rightarrow> byte"

definition cstr :: "string \<Rightarrow> byte list" where
  "cstr xs = map of_char xs"

section \<open>Failures and the monad\<close>

datatype error =
    Assert string      \<comment> \<open>a failed \<open>assert\<close>, with its message\<close>
  | Segfault           \<comment> \<open>an access outside the mapped image\<close>
  | Deadlock           \<comment> \<open>the thread waits for a lock or an event that never comes\<close>
  | Use_after_free     \<comment> \<open>a dereference of a deleted object\<close>
  | Null_deref         \<comment> \<open>a dereference of the null pointer\<close>
  | Out_of_bounds      \<comment> \<open>an access outside an array\<close>
  | Abort              \<comment> \<open>\<open>std::abort\<close>\<close>
  | Exit nat           \<comment> \<open>\<open>exit\<close> with a failure status\<close>

type_synonym ('a, 's) m = "'s \<Rightarrow> error + ('a \<times> 's)"

definition ret :: "'a \<Rightarrow> ('a, 's) m" where
  "ret x = (\<lambda>s. Inr (x, s))"

definition fail :: "error \<Rightarrow> ('a, 's) m" where
  "fail e = (\<lambda>s. Inl e)"

definition bnd :: "('a, 's) m \<Rightarrow> ('a \<Rightarrow> ('b, 's) m) \<Rightarrow> ('b, 's) m" where
  "bnd c f = (\<lambda>s. case c s of Inl e \<Rightarrow> Inl e | Inr (x, t) \<Rightarrow> f x t)"

definition gets :: "('s \<Rightarrow> 'a) \<Rightarrow> ('a, 's) m" where
  "gets f = (\<lambda>s. Inr (f s, s))"

definition modify :: "('s \<Rightarrow> 's) \<Rightarrow> (unit, 's) m" where
  "modify f = (\<lambda>s. Inr ((), f s))"

definition assert_that :: "string \<Rightarrow> bool \<Rightarrow> (unit, 's) m" where
  "assert_that msg b = (if b then ret () else fail (Assert msg))"

definition check :: "error \<Rightarrow> bool \<Rightarrow> (unit, 's) m" where
  "check e b = (if b then ret () else fail e)"

definition when_do :: "bool \<Rightarrow> (unit, 's) m \<Rightarrow> (unit, 's) m" where
  "when_do b c = (if b then c else ret ())"

text \<open>A counting loop without early exit, over the list of its index values.\<close>

primrec for_each :: "'b list \<Rightarrow> ('b \<Rightarrow> (unit, 's) m) \<Rightarrow> (unit, 's) m" where
  "for_each [] f = ret ()"
| "for_each (x # xs) f = bnd (f x) (\<lambda>_. for_each xs f)"

section \<open>C strings\<close>

text \<open>
  \<open>strcmp\<close> compares byte by byte until the bytes differ or a terminator is met; running off the
  end of either buffer is an access outside the array. Only the outcome \<open>== 0\<close> is used.
\<close>

fun strcmp_eq :: "byte list \<Rightarrow> byte list \<Rightarrow> bool option" where
  "strcmp_eq (a # as) (b # bs) =
     (if a \<noteq> b then Some False else if a = 0 then Some True else strcmp_eq as bs)"
| "strcmp_eq _ _ = None"

text \<open>
  \<open>strncpy(dst, src, n)\<close> copies at most \<open>n\<close> bytes up to the terminator and fills the rest of
  \<open>dst\<close> with zeros. The source buffer must hold a terminator or at least \<open>n\<close> bytes.
\<close>

definition strncpy :: "byte list \<Rightarrow> nat \<Rightarrow> byte list option" where
  "strncpy src n =
     (let t = takeWhile (\<lambda>c. c \<noteq> 0) (take n src)
      in if length t = n \<or> length t < length src
         then Some (t @ replicate (n - length t) 0) else None)"

section \<open>Rules for symbolic execution\<close>

lemma ret_run [simp, run_simps]: "ret x s = Inr (x, s)"
  by (simp add: ret_def)

lemma fail_run [simp, run_simps]: "fail e s = Inl e"
  by (simp add: fail_def)

lemma gets_run [simp, run_simps]: "gets f s = Inr (f s, s)"
  by (simp add: gets_def)

lemma modify_run [simp, run_simps]: "modify f s = Inr ((), f s)"
  by (simp add: modify_def)

lemma assert_that_run [simp, run_simps]:
  "assert_that msg b s = (if b then Inr ((), s) else Inl (Assert msg))"
  by (simp add: assert_that_def)

lemma check_run [simp, run_simps]: "check e b s = (if b then Inr ((), s) else Inl e)"
  by (simp add: check_def)

lemma when_do_run [simp, run_simps]: "when_do b c s = (if b then c s else Inr ((), s))"
  by (simp add: when_do_def)

lemma bnd_run [run_simps]: "c s = Inr (x, t) \<Longrightarrow> bnd c f s = f x t"
  by (simp add: bnd_def)

lemma bnd_stop [run_simps]: "c s = Inl e \<Longrightarrow> bnd c f s = Inl e"
  by (simp add: bnd_def)

lemma bnd_returns:
  "bnd c f s = Inr r \<longleftrightarrow> (\<exists>x t. c s = Inr (x, t) \<and> f x t = Inr r)"
  by (auto simp: bnd_def split: sum.splits)

lemma bnd_ret_left [simp]: "bnd (ret x) f = f x"
  by (simp add: bnd_def ret_def)

lemma bnd_ret_right [simp]: "bnd c ret = c"
  by (auto simp: bnd_def fun_eq_iff split: sum.splits)

lemma bnd_assoc: "bnd (bnd c f) g = bnd c (\<lambda>x. bnd (f x) g)"
  by (auto simp: bnd_def fun_eq_iff split: sum.splits)

lemma bnd_gets [simp]: "bnd (gets g) f s = f (g s) s"
  by (simp add: bnd_def)

lemma bnd_modify [simp]: "bnd (modify g) f s = f () (g s)"
  by (simp add: bnd_def)

lemma for_each_append:
  "for_each (xs @ ys) f = bnd (for_each xs f) (\<lambda>_. for_each ys f)"
  by (induction xs) (simp_all only: append.simps for_each.simps bnd_ret_left bnd_assoc)

text \<open>A counting loop, given the state before each turn.\<close>

lemma for_each_upto:
  assumes "\<And>i. i < n \<Longrightarrow> f i (st i) = Inr ((), st (Suc i))"
  shows "for_each [0..<n] f (st 0) = Inr ((), st n)"
  using assms
proof (induction n)
  case (Suc n)
  then show ?case by (simp add: for_each_append bnd_run)
qed simp

section \<open>Generic facts\<close>

lemma strcmp_eq_terminated:
  assumes "0 \<notin> set a" "0 \<notin> set b"
  shows "strcmp_eq (a @ 0 # a') (b @ 0 # b') = Some (a = b)"
  using assms
proof (induction a arbitrary: b)
  case Nil
  then show ?case by (cases b) auto
next
  case (Cons x a)
  then show ?case by (cases b) auto
qed

lemma strncpy_terminated:
  assumes "0 \<notin> set a"
  shows "strncpy (a @ 0 # a') n = Some (take n a @ replicate (n - length a) 0)"
proof -
  have t: "takeWhile (\<lambda>c. c \<noteq> 0) (take n (a @ 0 # a')) = take n a"
  proof (cases "length a < n")
    case True
    then have "take n (a @ 0 # a') = a @ 0 # take (n - length a - 1) a'"
      by (cases "n - length a") auto
    moreover have "\<forall>c \<in> set a. c \<noteq> 0" using assms by metis
    ultimately show ?thesis
      using True by simp
  next
    case False
    moreover have "\<forall>c \<in> set (take n a). c \<noteq> 0"
      using assms set_take_subset[of n a] by auto
    ultimately show ?thesis by simp
  qed
  show ?thesis
    unfolding strncpy_def Let_def t by (cases "length a < n") simp_all
qed

end
