(* ===== verification/Codec.thy ===== *)
theory Codec
  imports Prelude
begin

text \<open>
  The on-disk format: the constants of \<open>inc/common.h\<close> and the C structures that the sources lay
  over a block by a pointer cast (\<open>DiskINode\<close>, \<open>DirEntry\<close>, \<open>LogHeader\<close>). Integers are little
  endian, as on the machines the program runs on. Each structure is a pair of a reader and a
  writer at a byte offset of a block; the locale \<open>field_codec\<close> states what a client may rely on
  (a written field reads back, nothing outside it changes) and derives the array laws once.
\<close>

section \<open>Constants\<close>

abbreviation BSIZE :: nat where "BSIZE \<equiv> 1024"
abbreviation FSSIZE :: nat where "FSSIZE \<equiv> 1000"
abbreviation MAX_OP_BLOCKS :: nat where "MAX_OP_BLOCKS \<equiv> 10"
abbreviation LOG_SIZE :: nat where "LOG_SIZE \<equiv> 30"
abbreviation NDIRECT :: nat where "NDIRECT \<equiv> 12"
abbreviation NINDIRECT :: nat where "NINDIRECT \<equiv> 256"
abbreviation MAX_FILE :: nat where "MAX_FILE \<equiv> 268"
abbreviation DIRSIZ :: nat where "DIRSIZ \<equiv> 14"
abbreviation ROOTINO :: u32 where "ROOTINO \<equiv> 1"
abbreviation INODE_PER_BLOCK :: nat where "INODE_PER_BLOCK \<equiv> 16"
abbreviation NINODES :: nat where "NINODES \<equiv> 200"
abbreviation FS_MAGIC :: u32 where "FS_MAGIC \<equiv> 0x10203040"
abbreviation BIT_PER_BLOCK :: nat where "BIT_PER_BLOCK \<equiv> 8192"
abbreviation ROOTDEV :: u32 where "ROOTDEV \<equiv> 1"

abbreviation sizeof_DiskINode :: nat where "sizeof_DiskINode \<equiv> 64"
abbreviation sizeof_DirEntry :: nat where "sizeof_DirEntry \<equiv> 16"
abbreviation sizeof_LogHeader :: nat where "sizeof_LogHeader \<equiv> 124"

section \<open>Integers in a byte array\<close>

definition get_u16 :: "bytes \<Rightarrow> nat \<Rightarrow> u16" where
  "get_u16 d p = ucast (d p) OR push_bit 8 (ucast (d (p + 1)))"

definition put_u16 :: "bytes \<Rightarrow> nat \<Rightarrow> u16 \<Rightarrow> bytes" where
  "put_u16 d p v = d(p := ucast v, p + 1 := ucast (drop_bit 8 v))"

definition get_u32 :: "bytes \<Rightarrow> nat \<Rightarrow> u32" where
  "get_u32 d p = ucast (d p) OR push_bit 8 (ucast (d (p + 1)))
     OR push_bit 16 (ucast (d (p + 2))) OR push_bit 24 (ucast (d (p + 3)))"

definition put_u32 :: "bytes \<Rightarrow> nat \<Rightarrow> u32 \<Rightarrow> bytes" where
  "put_u32 d p v = d(p := ucast v, p + 1 := ucast (drop_bit 8 v),
     p + 2 := ucast (drop_bit 16 v), p + 3 := ucast (drop_bit 24 v))"

text \<open>Arrays of \<open>uint32_t\<close> and of \<open>char\<close>.\<close>

definition get_u32s :: "nat \<Rightarrow> bytes \<Rightarrow> nat \<Rightarrow> u32 list" where
  "get_u32s n d p = map (\<lambda>i. get_u32 d (p + 4 * i)) [0..<n]"

primrec put_u32s :: "bytes \<Rightarrow> nat \<Rightarrow> u32 list \<Rightarrow> bytes" where
  "put_u32s d p [] = d"
| "put_u32s d p (x # xs) = put_u32s (put_u32 d p x) (p + 4) xs"

definition get_bytes :: "nat \<Rightarrow> bytes \<Rightarrow> nat \<Rightarrow> byte list" where
  "get_bytes n d p = map (\<lambda>i. d (p + i)) [0..<n]"

definition put_bytes :: "bytes \<Rightarrow> nat \<Rightarrow> byte list \<Rightarrow> bytes" where
  "put_bytes d p xs = (\<lambda>i. if p \<le> i \<and> i < p + length xs then xs ! (i - p) else d i)"

section \<open>Structures\<close>

text \<open>\<open>DiskINode::FileType\<close> is an enumeration over \<open>uint16_t\<close>; a block may hold any value.\<close>

type_synonym FileType = u16

abbreviation FT_Invalid :: FileType where "FT_Invalid \<equiv> 0"
abbreviation T_DIR :: FileType where "T_DIR \<equiv> 1"
abbreviation T_FILE :: FileType where "T_FILE \<equiv> 2"
abbreviation T_DEVICE :: FileType where "T_DEVICE \<equiv> 3"

record DiskINode =
  di_type :: FileType
  di_major :: u16
  di_minor :: u16
  di_nlink :: u16
  di_size :: u32
  di_addrs :: "u32 list"

definition dinode_wf :: "DiskINode \<Rightarrow> bool" where
  "dinode_wf di \<longleftrightarrow> length (di_addrs di) = NDIRECT + 1"

definition zero_dinode :: DiskINode where
  "zero_dinode = \<lparr>di_type = FT_Invalid, di_major = 0, di_minor = 0, di_nlink = 0,
     di_size = 0, di_addrs = replicate (NDIRECT + 1) 0\<rparr>"

definition get_dinode :: "bytes \<Rightarrow> nat \<Rightarrow> DiskINode" where
  "get_dinode d p =
     \<lparr>di_type = get_u16 d p, di_major = get_u16 d (p + 2), di_minor = get_u16 d (p + 4),
      di_nlink = get_u16 d (p + 6), di_size = get_u32 d (p + 8),
      di_addrs = get_u32s (NDIRECT + 1) d (p + 12)\<rparr>"

definition put_dinode :: "bytes \<Rightarrow> nat \<Rightarrow> DiskINode \<Rightarrow> bytes" where
  "put_dinode d p di =
     (let d1 = put_u16 d p (di_type di);
          d2 = put_u16 d1 (p + 2) (di_major di);
          d3 = put_u16 d2 (p + 4) (di_minor di);
          d4 = put_u16 d3 (p + 6) (di_nlink di);
          d5 = put_u32 d4 (p + 8) (di_size di)
      in put_u32s d5 (p + 12) (di_addrs di))"

record DirEntry =
  de_inum :: u16
  de_name :: "byte list"

definition dirent_wf :: "DirEntry \<Rightarrow> bool" where
  "dirent_wf de \<longleftrightarrow> length (de_name de) = DIRSIZ"

definition zero_dirent :: DirEntry where
  "zero_dirent = \<lparr>de_inum = 0, de_name = replicate DIRSIZ 0\<rparr>"

definition get_dirent :: "bytes \<Rightarrow> nat \<Rightarrow> DirEntry" where
  "get_dirent d p = \<lparr>de_inum = get_u16 d p, de_name = get_bytes DIRSIZ d (p + 2)\<rparr>"

definition put_dirent :: "bytes \<Rightarrow> nat \<Rightarrow> DirEntry \<Rightarrow> bytes" where
  "put_dirent d p de = put_bytes (put_u16 d p (de_inum de)) (p + 2) (de_name de)"

text \<open>\<open>LogHeader\<close>, in memory: the count and the array of \<open>LOG_SIZE\<close> block numbers.\<close>

record LogHeader =
  lh_n :: u32
  lh_block :: "u32 list"

section \<open>What a field of a block promises\<close>

locale field_codec =
  fixes get :: "bytes \<Rightarrow> nat \<Rightarrow> 'v"
    and put :: "bytes \<Rightarrow> nat \<Rightarrow> 'v \<Rightarrow> bytes"
    and width :: nat
    and wf :: "'v \<Rightarrow> bool"
  assumes get_put: "wf v \<Longrightarrow> get (put d p v) p = v"
    and put_frame: "wf v \<Longrightarrow> i < p \<or> p + width \<le> i \<Longrightarrow> put d p v i = d i"
    and get_local: "(\<And>i. p \<le> i \<Longrightarrow> i < p + width \<Longrightarrow> d i = d' i) \<Longrightarrow> get d p = get d' p"
    and wf_get: "wf (get d p)"
begin

lemma get_put_apart:
  assumes "wf v" "p + width \<le> q \<or> q + width \<le> p"
  shows "get (put d p v) q = get d q"
  by (rule get_local) (use assms in \<open>auto intro: put_frame\<close>)

lemma get_frame:
  assumes "\<And>i. p \<le> i \<Longrightarrow> i < p + width \<Longrightarrow> d' i = d i"
  shows "get d' p = get d p"
  by (rule get_local) (use assms in auto)

text \<open>A block as an array of such fields: reading slot \<open>j\<close> after writing slot \<open>i\<close>.\<close>

lemma get_put_slot:
  assumes "wf v"
  shows "get (put d (b + width * i) v) (b + width * j) = (if i = j then v else get d (b + width * j))"
proof (cases "i = j")
  case True
  with assms show ?thesis by (simp add: get_put)
next
  case False
  then consider "Suc i \<le> j" | "Suc j \<le> i" by linarith
  then have "b + width * i + width \<le> b + width * j \<or> b + width * j + width \<le> b + width * i"
    by cases (auto dest: mult_le_mono2[of _ _ width])
  with assms False show ?thesis by (simp add: get_put_apart)
qed

lemma put_slot_outside:
  assumes "wf v" "i < k" "b + width * k \<le> j"
  shows "put d (b + width * i) v j = d j"
proof (rule put_frame)
  have "width * Suc i \<le> width * k" using assms(2) by (intro mult_le_mono2) simp
  with assms(3) show "j < b + width * i \<or> b + width * i + width \<le> j" by simp
qed (fact assms)

end

section \<open>The structures keep the promise\<close>

interpretation u16c: field_codec get_u16 put_u16 2 "\<lambda>_. True"
proof
  show "get_u16 (put_u16 d p v) p = v" for d p v
    unfolding get_u16_def put_u16_def
    by (rule bit_word_eqI) (auto simp: bit_simps)
  show "put_u16 d p v i = d i" if "i < p \<or> p + 2 \<le> i" for d p v i
    using that by (auto simp: put_u16_def)
  show "get_u16 d p = get_u16 d' p"
    if "\<And>i. p \<le> i \<Longrightarrow> i < p + 2 \<Longrightarrow> d i = d' i" for p and d d' :: bytes
    by (simp add: get_u16_def that)
qed simp

interpretation u32c: field_codec get_u32 put_u32 4 "\<lambda>_. True"
proof
  show "get_u32 (put_u32 d p v) p = v" for d p v
  proof (rule bit_word_eqI)
    fix n assume "n < LENGTH(32)"
    then consider "n < 8" | "8 \<le> n" "n < 16" | "16 \<le> n" "n < 24" | "24 \<le> n" "n < 32"
      by fastforce
    then show "bit (get_u32 (put_u32 d p v) p) n = bit v n"
      by cases (auto simp: get_u32_def put_u32_def bit_simps)
  qed
  show "put_u32 d p v i = d i" if "i < p \<or> p + 4 \<le> i" for d p v i
    using that by (auto simp: put_u32_def)
  show "get_u32 d p = get_u32 d' p"
    if "\<And>i. p \<le> i \<Longrightarrow> i < p + 4 \<Longrightarrow> d i = d' i" for p and d d' :: bytes
    by (simp add: get_u32_def that)
qed simp

lemma length_get_u32s [simp]: "length (get_u32s n d p) = n"
  by (simp add: get_u32s_def)

lemma get_u32s_nth [simp]: "i < n \<Longrightarrow> get_u32s n d p ! i = get_u32 d (p + 4 * i)"
  by (simp add: get_u32s_def)

lemma put_u32s_frame: "i < p \<or> p + 4 * length xs \<le> i \<Longrightarrow> put_u32s d p xs i = d i"
  by (induction xs arbitrary: d p) (auto simp: u32c.put_frame)

lemma get_put_u32s: "j < length xs \<Longrightarrow> get_u32 (put_u32s d p xs) (p + 4 * j) = xs ! j"
proof (induction xs arbitrary: d p j)
  case (Cons x xs)
  show ?case
  proof (cases j)
    case 0
    have "get_u32 (put_u32s (put_u32 d p x) (p + 4) xs) p = get_u32 (put_u32 d p x) p"
      by (rule u32c.get_frame) (simp add: put_u32s_frame)
    with 0 show ?thesis by (simp add: u32c.get_put)
  next
    case (Suc k)
    with Cons.prems Cons.IH[of k "put_u32 d p x" "p + 4"] show ?thesis
      by (simp add: algebra_simps)
  qed
qed simp

interpretation u32sc: field_codec "get_u32s n" put_u32s "4 * n" "\<lambda>xs. length xs = n" for n
proof
  show "get_u32s n (put_u32s d p v) p = v" if "length v = n" for d p v
    by (rule nth_equalityI) (simp_all add: that get_put_u32s)
  show "put_u32s d p v i = d i" if "length v = n" "i < p \<or> p + 4 * n \<le> i" for d p v i
    using that by (simp add: put_u32s_frame)
  show "get_u32s n d p = get_u32s n d' p"
    if "\<And>i. p \<le> i \<Longrightarrow> i < p + 4 * n \<Longrightarrow> d i = d' i" for p and d d' :: bytes
    by (rule nth_equalityI) (auto intro!: u32c.get_local simp: that)
qed simp

lemma length_get_bytes [simp]: "length (get_bytes n d p) = n"
  by (simp add: get_bytes_def)

lemma get_bytes_nth [simp]: "i < n \<Longrightarrow> get_bytes n d p ! i = d (p + i)"
  by (simp add: get_bytes_def)

interpretation bytesc: field_codec "get_bytes n" put_bytes n "\<lambda>xs. length xs = n" for n
proof
  show "get_bytes n (put_bytes d p v) p = v" if "length v = n" for d p v
    by (rule nth_equalityI) (simp_all add: that put_bytes_def)
  show "put_bytes d p v i = d i" if "length v = n" "i < p \<or> p + n \<le> i" for d p v i
    using that by (auto simp: put_bytes_def)
  show "get_bytes n d p = get_bytes n d' p"
    if "\<And>i. p \<le> i \<Longrightarrow> i < p + n \<Longrightarrow> d i = d' i" for p and d d' :: bytes
    by (rule nth_equalityI) (auto simp: that)
qed simp

lemmas field_apart = u16c.get_put_apart u32c.get_put_apart u16c.get_put u32c.get_put

lemma get_u16_put_u32_apart [simp]:
  "p + 4 \<le> q \<or> q + 2 \<le> p \<Longrightarrow> get_u16 (put_u32 d p v) q = get_u16 d q"
  by (rule u16c.get_frame) (auto simp: u32c.put_frame)

lemma get_u32_put_u16_apart [simp]:
  "p + 2 \<le> q \<or> q + 4 \<le> p \<Longrightarrow> get_u32 (put_u16 d p v) q = get_u32 d q"
  by (rule u32c.get_frame) (auto simp: u16c.put_frame)

lemma get_u16_put_u32s_before [simp]: "q + 2 \<le> p \<Longrightarrow> get_u16 (put_u32s d p v) q = get_u16 d q"
  by (rule u16c.get_frame) (auto simp: put_u32s_frame)

lemma get_u32_put_u32s_before [simp]: "q + 4 \<le> p \<Longrightarrow> get_u32 (put_u32s d p v) q = get_u32 d q"
  by (rule u32c.get_frame) (auto simp: put_u32s_frame)

lemma get_u16_put_bytes_before [simp]: "q + 2 \<le> p \<Longrightarrow> get_u16 (put_bytes d p v) q = get_u16 d q"
  by (rule u16c.get_frame) (auto simp: put_bytes_def)

interpretation dinodec: field_codec get_dinode put_dinode sizeof_DiskINode dinode_wf
proof
  show "get_dinode (put_dinode d p v) p = v" if "dinode_wf v" for d p v
    using that by (simp add: get_dinode_def put_dinode_def Let_def field_apart dinode_wf_def
        u32sc.get_put)
  show "put_dinode d p v i = d i" if "dinode_wf v" "i < p \<or> p + 64 \<le> i" for d p v i
    using that by (auto simp: put_dinode_def Let_def dinode_wf_def put_u32s_frame
        u16c.put_frame u32c.put_frame)
  show "get_dinode d p = get_dinode d' p"
    if same: "\<And>i. p \<le> i \<Longrightarrow> i < p + 64 \<Longrightarrow> d i = d' i" for p and d d' :: bytes
  proof -
    have "get_u16 d q = get_u16 d' q" if "p \<le> q" "q + 2 \<le> p + 64" for q
      by (rule u16c.get_local) (use that in \<open>auto intro: same\<close>)
    moreover have "get_u32 d q = get_u32 d' q" if "p \<le> q" "q + 4 \<le> p + 64" for q
      by (rule u32c.get_local) (use that in \<open>auto intro: same\<close>)
    ultimately show ?thesis by (simp add: get_dinode_def get_u32s_def)
  qed
  show "dinode_wf (get_dinode d p)" for d p
    by (simp add: get_dinode_def dinode_wf_def)
qed

interpretation direntc: field_codec get_dirent put_dirent sizeof_DirEntry dirent_wf
proof
  show "get_dirent (put_dirent d p v) p = v" if "dirent_wf v" for d p v
    using that by (simp add: get_dirent_def put_dirent_def field_apart dirent_wf_def bytesc.get_put)
  show "put_dirent d p v i = d i" if "dirent_wf v" "i < p \<or> p + 16 \<le> i" for d p v i
    using that by (auto simp: put_dirent_def dirent_wf_def put_bytes_def u16c.put_frame)
  show "get_dirent d p = get_dirent d' p"
    if same: "\<And>i. p \<le> i \<Longrightarrow> i < p + 16 \<Longrightarrow> d i = d' i" for p and d d' :: bytes
  proof -
    have "get_u16 d p = get_u16 d' p"
      by (rule u16c.get_local) (auto intro: same)
    moreover have "get_bytes 14 d (p + 2) = get_bytes 14 d' (p + 2)"
      by (rule bytesc.get_local) (auto intro: same)
    ultimately show ?thesis by (simp add: get_dirent_def)
  qed
  show "dirent_wf (get_dirent d p)" for d p
    by (simp add: get_dirent_def dirent_wf_def)
qed

lemma dinode_wf_zero [simp]: "dinode_wf zero_dinode"
  by (simp add: dinode_wf_def zero_dinode_def)

lemma dinode_wf_get [simp]: "dinode_wf (get_dinode d p)"
  by (rule dinodec.wf_get)

lemma dirent_wf_zero [simp]: "dirent_wf zero_dirent"
  by (simp add: dirent_wf_def zero_dirent_def)

text \<open>A zeroed area reads as a free inode, a free directory slot and zero block numbers.\<close>

lemma get_zeros [simp]:
  "get_u16 (\<lambda>_. 0) p = 0" "get_u32 (\<lambda>_. 0) p = 0"
  "get_u32s n (\<lambda>_. 0) p = replicate n 0"
  "get_dinode (\<lambda>_. 0) p = zero_dinode" "get_dirent (\<lambda>_. 0) p = zero_dirent"
  by (simp_all add: get_u16_def get_u32_def get_u32s_def get_dinode_def zero_dinode_def
      get_dirent_def zero_dirent_def get_bytes_def map_replicate_const)

end
