(* ===== verification/Posix_Env.thy ===== *)
theory Posix_Env
  imports Codec
begin

text \<open>
  \<open>inc/PosixEnv.h\<close>: the memory-mapped image file and the two block transfers on it. The image is
  indexed by blocks: entry \<open>k\<close> holds the bytes \<open>k * BSIZE\<close> to \<open>(k + 1) * BSIZE - 1\<close>. The field
  \<open>wtrace\<close> is a ghost: the block transfers to the image in program order. The images a killed
  process may leave behind are the ones after a prefix of that trace.

  The locale \<open>block_store\<close> is what every block-indexed storage of the program promises (a block
  reads back what was last written to it, other blocks are untouched); replaying a list of writes
  is analysed in it once.
\<close>

section \<open>The image\<close>

type_synonym image = "nat \<Rightarrow> bytes"

record posix_env =
  mmap_base :: image
  st_size :: nat
  wtrace :: "(nat \<times> bytes) list"

text \<open>
  \<open>size_t offset = blk->blockno * BSIZE\<close> multiplies a \<open>uint32_t\<close> by an \<open>int\<close>: the product is
  computed modulo \<open>2^32\<close> before it is widened.
\<close>

definition image_offset :: "u32 \<Rightarrow> nat" where
  "image_offset blockno = unat (blockno * of_nat BSIZE)"

definition image_index :: "u32 \<Rightarrow> nat" where
  "image_index blockno = image_offset blockno div BSIZE"

definition PosixEnv_read :: "u32 \<Rightarrow> (bytes, 'a posix_env_scheme) m" where
  "PosixEnv_read blockno =
     bnd (gets st_size) (\<lambda>sz.
     bnd (check Segfault (image_offset blockno + BSIZE \<le> sz)) (\<lambda>_.
     gets (\<lambda>s. mmap_base s (image_index blockno))))"

definition image_put :: "nat \<Rightarrow> bytes \<Rightarrow> 'a posix_env_scheme \<Rightarrow> 'a posix_env_scheme" where
  "image_put k d s = s\<lparr>mmap_base := (mmap_base s)(k := d), wtrace := wtrace s @ [(k, d)]\<rparr>"

definition disk_write :: "u32 \<Rightarrow> bytes \<Rightarrow> 'a posix_env_scheme \<Rightarrow> 'a posix_env_scheme" where
  "disk_write blockno d s = image_put (image_index blockno) d s"

definition PosixEnv_write :: "u32 \<Rightarrow> bytes \<Rightarrow> (unit, 'a posix_env_scheme) m" where
  "PosixEnv_write blockno d =
     bnd (gets st_size) (\<lambda>sz.
     bnd (check Segfault (image_offset blockno + BSIZE \<le> sz)) (\<lambda>_.
     modify (disk_write blockno d)))"

text \<open>A block number whose transfer stays inside the mapping and does not wrap around.\<close>

definition in_image :: "'a posix_env_scheme \<Rightarrow> u32 \<Rightarrow> bool" where
  "in_image s b \<longleftrightarrow> unat b < 2 ^ 22 \<and> unat b * BSIZE + BSIZE \<le> st_size s"

section \<open>Block stores\<close>

locale block_store =
  fixes rd :: "'s \<Rightarrow> 'k \<Rightarrow> 'v"
    and wr :: "'k \<Rightarrow> 'v \<Rightarrow> 's \<Rightarrow> 's"
    and ok :: "'s \<Rightarrow> bool"
  assumes rd_wr: "ok s \<Longrightarrow> rd (wr k v s) = (rd s)(k := v)"
    and ok_wr: "ok s \<Longrightarrow> ok (wr k v s)"
begin

lemma ok_replay: "ok s \<Longrightarrow> ok (fold (\<lambda>(k, v). wr k v) ws s)"
  by (induction ws arbitrary: s) (auto simp: ok_wr)

lemma rd_replay:
  "ok s \<Longrightarrow> rd (fold (\<lambda>(k, v). wr k v) ws s) =
     (\<lambda>k. case map_of (rev ws) k of None \<Rightarrow> rd s k | Some v \<Rightarrow> v)"
proof (induction ws arbitrary: s)
  case (Cons w ws)
  obtain k v where w: "w = (k, v)" by (cases w)
  from Cons show ?case
    by (auto simp: w ok_wr rd_wr fun_eq_iff map_add_def split: option.splits)
qed simp

text \<open>Writes that come before a replay of all of them leave no trace.\<close>

lemma replay_absorbs_prefix:
  assumes "ok s" "fst ` set ps \<subseteq> fst ` set ws"
  shows "rd (fold (\<lambda>(k, v). wr k v) ws (fold (\<lambda>(k, v). wr k v) ps s)) =
    rd (fold (\<lambda>(k, v). wr k v) ws s)"
proof -
  have "map_of (rev ps) k = None" if "map_of (rev ws) k = None" for k
    using that assms(2) by (auto simp: map_of_eq_None_iff)
  with assms(1) show ?thesis
    by (auto simp: rd_replay ok_replay fun_eq_iff split: option.splits)
qed

lemma rd_replay_other:
  "ok s \<Longrightarrow> k \<notin> fst ` set ws \<Longrightarrow> rd (fold (\<lambda>(k, v). wr k v) ws s) k = rd s k"
  by (simp add: rd_replay map_of_eq_None_iff[THEN iffD2] split: option.splits)

lemma rd_replay_nth:
  assumes "ok s" "distinct (map fst ws)" "i < length ws"
  shows "rd (fold (\<lambda>(k, v). wr k v) ws s) (fst (ws ! i)) = snd (ws ! i)"
proof -
  have "(fst (ws ! i), snd (ws ! i)) \<in> set (rev ws)" using assms(3) by simp
  moreover have "distinct (map fst (rev ws))"
    using assms(2) by (simp add: rev_map[symmetric])
  ultimately have "map_of (rev ws) (fst (ws ! i)) = Some (snd (ws ! i))"
    by (rule map_of_is_SomeI[rotated])
  with assms(1) show ?thesis by (simp add: rd_replay)
qed

end

text \<open>The image as a block store, at the level of images and at the level of the process state.\<close>

definition image_write :: "nat \<Rightarrow> bytes \<Rightarrow> image \<Rightarrow> image" where
  "image_write k d m = m(k := d)"

interpretation img: block_store "\<lambda>m. m" image_write "\<lambda>_. True"
  by unfold_locales (auto simp: image_write_def)

definition apply_writes :: "(nat \<times> bytes) list \<Rightarrow> image \<Rightarrow> image" where
  "apply_writes ws m = fold (\<lambda>(k, d). image_write k d) ws m"

lemma apply_writes_simps [simp]:
  "apply_writes [] m = m"
  "apply_writes ((k, d) # ws) m = apply_writes ws (m(k := d))"
  "apply_writes (us @ vs) m = apply_writes vs (apply_writes us m)"
  by (simp_all add: apply_writes_def image_write_def)

section \<open>Transfers\<close>

lemma image_index_in [simp]:
  assumes "in_image s b"
  shows "image_index b = unat b" "image_offset b = unat b * BSIZE"
proof -
  have "unat b * 1024 < 2 ^ 32" using assms by (simp add: in_image_def)
  then have "unat (b * 1024) = unat b * 1024"
    by (simp add: unat_mult_lem[THEN iffD1])
  then show "image_offset b = unat b * BSIZE" by (simp add: image_offset_def)
  then show "image_index b = unat b" by (simp add: image_index_def)
qed

lemma PosixEnv_read_in [simp]:
  "in_image s b \<Longrightarrow> PosixEnv_read b s = Inr (mmap_base s (unat b), s)"
  by (simp add: PosixEnv_read_def bnd_def) (simp add: in_image_def)

lemma PosixEnv_write_in [simp]:
  "in_image s b \<Longrightarrow> PosixEnv_write b d s = Inr ((), disk_write b d s)"
  by (simp add: PosixEnv_write_def bnd_def) (simp add: in_image_def)

lemma disk_write_fields [simp]:
  "in_image s b \<Longrightarrow> mmap_base (disk_write b d s) = (mmap_base s)(unat b := d)"
  "in_image s b \<Longrightarrow> wtrace (disk_write b d s) = wtrace s @ [(unat b, d)]"
  "st_size (disk_write b d s) = st_size s"
  "in_image (disk_write b d s) = in_image s"
  by (simp_all add: disk_write_def image_put_def) (simp add: in_image_def fun_eq_iff)

text \<open>The process state as a block store, indexed by positions of the image.\<close>

interpretation disk: block_store mmap_base image_put "\<lambda>_. True"
  by unfold_locales (simp_all add: image_put_def)

end
