(* ===== verification/Block_Cache.thy ===== *)
theory Block_Cache
  imports Posix_Env
begin

text \<open>
  \<open>src/BlockCache.cxx\<close> and \<open>inc/Block.h\<close>: the write-back cache of disk blocks with reference
  counts and a lock per block. A \<open>Block *\<close> is the key of the block in the map \<open>blocks\<close>: the map
  holds at most one object per key, and a dereference of a deleted block is an error. The mutex
  of a block is the flag \<open>b_locked\<close>: locking a locked block stops the (only) thread for ever. The
  mutex of the cache itself is taken and dropped inside each operation.

  The lemmas replace the operations by two state functions: \<open>holdd k d s\<close> is \<open>s\<close> with block \<open>k\<close>
  held, its data being \<open>d\<close>; \<open>view s k\<close> is what a reader of block \<open>k\<close> sees. Between operations the
  cache is described by \<open>cache_inv P H\<close>, where \<open>P\<close> are the pinned and \<open>H\<close> the held blocks.
\<close>

section \<open>State\<close>

type_synonym BlockKey = "u32 \<times> u32"

record Block =
  b_valid :: bool
  b_locked :: bool
  b_refcnt :: u32
  b_data :: bytes

record block_cache = posix_env +
  blocks :: "BlockKey \<rightharpoonup> Block"

text \<open>The order of the keys in the \<open>std::map\<close>.\<close>

definition BlockKey_less :: "BlockKey \<Rightarrow> BlockKey \<Rightarrow> bool" where
  "BlockKey_less k other =
     (if fst k \<noteq> fst other then fst k < fst other else snd k < snd other)"

section \<open>Operations\<close>

definition deref_block :: "BlockKey \<Rightarrow> (Block, 'a block_cache_scheme) m" where
  "deref_block b = (\<lambda>s. case blocks s b of None \<Rightarrow> Inl Use_after_free | Some blk \<Rightarrow> Inr (blk, s))"

definition set_block :: "BlockKey \<Rightarrow> Block \<Rightarrow> (unit, 'a block_cache_scheme) m" where
  "set_block b blk = modify (\<lambda>s. s\<lparr>blocks := (blocks s)(b \<mapsto> blk)\<rparr>)"

definition block_data :: "BlockKey \<Rightarrow> (bytes, 'a block_cache_scheme) m" where
  "block_data b = bnd (deref_block b) (\<lambda>blk. ret (b_data blk))"

definition set_block_data :: "BlockKey \<Rightarrow> bytes \<Rightarrow> (unit, 'a block_cache_scheme) m" where
  "set_block_data b d = bnd (deref_block b) (\<lambda>blk. set_block b (blk\<lparr>b_data := d\<rparr>))"

definition block_lock :: "BlockKey \<Rightarrow> (unit, 'a block_cache_scheme) m" where
  "block_lock b =
     bnd (deref_block b) (\<lambda>blk.
     bnd (check Deadlock (\<not> b_locked blk)) (\<lambda>_.
     set_block b (blk\<lparr>b_locked := True\<rparr>)))"

definition block_get :: "u32 \<Rightarrow> u32 \<Rightarrow> (BlockKey, 'a block_cache_scheme) m" where
  "block_get dev blockno =
     (let b = (dev, blockno) in
      bnd (gets (\<lambda>s. blocks s b)) (\<lambda>it. case it of
        Some blk \<Rightarrow>
          bnd (set_block b (blk\<lparr>b_refcnt := b_refcnt blk + 1\<rparr>)) (\<lambda>_.
          bnd (block_lock b) (\<lambda>_.
          ret b))
      | None \<Rightarrow>
          bnd (set_block b \<lparr>b_valid = False, b_locked = False, b_refcnt = 1, b_data = \<lambda>_. 0\<rparr>) (\<lambda>_.
          bnd (block_lock b) (\<lambda>_.
          ret b))))"

text \<open>\<open>assert(b->mtx.try_lock() == false)\<close>: the assertion fails when the mutex is free.\<close>

definition assert_locked :: "string \<Rightarrow> BlockKey \<Rightarrow> (unit, 'a block_cache_scheme) m" where
  "assert_locked msg b = bnd (deref_block b) (\<lambda>blk. assert_that msg (b_locked blk))"

definition block_read :: "u32 \<Rightarrow> u32 \<Rightarrow> (BlockKey, 'a block_cache_scheme) m" where
  "block_read dev blockno =
     bnd (block_get dev blockno) (\<lambda>b.
     bnd (deref_block b) (\<lambda>blk.
     bnd (when_do (\<not> b_valid blk)
       (bnd (PosixEnv_read (snd b)) (\<lambda>d.
        set_block b (blk\<lparr>b_data := d, b_valid := True\<rparr>)))) (\<lambda>_.
     bnd (assert_locked ''return locked block'' b) (\<lambda>_.
     ret b))))"

definition block_write :: "BlockKey \<Rightarrow> (unit, 'a block_cache_scheme) m" where
  "block_write b =
     bnd (assert_locked ''block is already locked'' b) (\<lambda>_.
     bnd (block_data b) (\<lambda>d.
     PosixEnv_write (snd b) d))"

definition block_release :: "BlockKey \<Rightarrow> (unit, 'a block_cache_scheme) m" where
  "block_release b =
     bnd (assert_locked ''block is not locked'' b) (\<lambda>_.
     bnd (deref_block b) (\<lambda>blk.
     let blk' = blk\<lparr>b_locked := False, b_refcnt := b_refcnt blk - 1\<rparr> in
     if b_refcnt blk' = 0
     then modify (\<lambda>s. s\<lparr>blocks := (blocks s)(b := None)\<rparr>)
     else set_block b blk'))"

definition block_pin :: "BlockKey \<Rightarrow> (unit, 'a block_cache_scheme) m" where
  "block_pin b = bnd (deref_block b) (\<lambda>blk. set_block b (blk\<lparr>b_refcnt := b_refcnt blk + 1\<rparr>))"

definition block_unpin :: "BlockKey \<Rightarrow> (unit, 'a block_cache_scheme) m" where
  "block_unpin b = bnd (deref_block b) (\<lambda>blk. set_block b (blk\<lparr>b_refcnt := b_refcnt blk - 1\<rparr>))"

section \<open>What readers see, and the cache invariant\<close>

definition view :: "'a block_cache_scheme \<Rightarrow> BlockKey \<Rightarrow> bytes" where
  "view s k = (case blocks s k of
       Some blk \<Rightarrow> if b_valid blk then b_data blk else mmap_base s (image_index (snd k))
     | None \<Rightarrow> mmap_base s (image_index (snd k)))"

definition refcnt_of :: "'a block_cache_scheme \<Rightarrow> BlockKey \<Rightarrow> u32" where
  "refcnt_of s k = (case blocks s k of None \<Rightarrow> 0 | Some blk \<Rightarrow> b_refcnt blk)"

definition holdd :: "BlockKey \<Rightarrow> bytes \<Rightarrow> 'a block_cache_scheme \<Rightarrow> 'a block_cache_scheme" where
  "holdd k d s = s\<lparr>blocks := (blocks s)(k \<mapsto>
     \<lparr>b_valid = True, b_locked = True, b_refcnt = refcnt_of s k + 1, b_data = d\<rparr>)\<rparr>"

definition setd :: "BlockKey \<Rightarrow> bytes \<Rightarrow> 'a block_cache_scheme \<Rightarrow> 'a block_cache_scheme" where
  "setd k d s = s\<lparr>blocks := (blocks s)(k \<mapsto>
     \<lparr>b_valid = True, b_locked = False, b_refcnt = 1, b_data = d\<rparr>)\<rparr>"

text \<open>One slot of the map, given whether its block is pinned and whether it is held.\<close>

fun slot_ok :: "bool \<Rightarrow> bool \<Rightarrow> Block option \<Rightarrow> bool" where
  "slot_ok p h None = (\<not> p \<and> \<not> h)"
| "slot_ok p h (Some blk) = ((p \<or> h) \<and> b_valid blk \<and> b_locked blk = h \<and>
     b_refcnt blk = of_bool p + of_bool h)"

definition cache_inv :: "BlockKey set \<Rightarrow> BlockKey set \<Rightarrow> 'a block_cache_scheme \<Rightarrow> bool" where
  "cache_inv P H s \<longleftrightarrow> (\<forall>k. slot_ok (k \<in> P) (k \<in> H) (blocks s k))"

section \<open>The operations under the invariant\<close>

declare split_paired_All [simp del]

lemma cache_inv_absent: "cache_inv P H s \<Longrightarrow> k \<notin> P \<Longrightarrow> k \<notin> H \<Longrightarrow> blocks s k = None"
  unfolding cache_inv_def by (drule spec[of _ k]) (cases "blocks s k", auto)

lemma cache_inv_pinned:
  assumes "cache_inv P H s" "k \<in> P" "k \<notin> H"
  obtains d where "blocks s k = Some \<lparr>b_valid = True, b_locked = False, b_refcnt = 1, b_data = d\<rparr>"
proof -
  from assms have "slot_ok True False (blocks s k)"
    by (auto simp: cache_inv_def dest: spec[of _ k])
  then obtain blk where "blocks s k = Some blk" "b_valid blk" "\<not> b_locked blk" "b_refcnt blk = 1"
    by (cases "blocks s k") auto
  with that[of "b_data blk"] show thesis by (cases blk) auto
qed

lemma cache_inv_holdd:
  assumes "cache_inv P H s" "k \<notin> H"
  shows "cache_inv P (insert k H) (holdd k d s)"
proof -
  have "refcnt_of s k = of_bool (k \<in> P)"
    using assms by (cases "k \<in> P")
      (auto simp: refcnt_of_def cache_inv_absent elim: cache_inv_pinned[of P H s k])
  then show ?thesis
    using assms by (simp add: cache_inv_def holdd_def)
qed

lemma view_absent: "cache_inv P H s \<Longrightarrow> k \<notin> P \<Longrightarrow> k \<notin> H \<Longrightarrow> view s k = mmap_base s (image_index (snd k))"
  by (simp add: view_def cache_inv_absent)

lemma view_holdd: "view (holdd k d s) = (view s)(k := d)"
  by (rule ext) (simp add: view_def holdd_def split: option.splits)

lemma view_setd: "view (setd k d s) = (view s)(k := d)"
  by (rule ext) (simp add: view_def setd_def split: option.splits)

lemma view_holdd_idem [simp]: "view (holdd k (view s k) s) = view s"
  by (simp add: view_holdd)

lemma holdd_fields [simp]:
  "in_image (holdd k d s) = in_image s" "mmap_base (holdd k d s) = mmap_base s"
  "wtrace (holdd k d s) = wtrace s" "st_size (holdd k d s) = st_size s"
  by (simp_all add: holdd_def in_image_def fun_eq_iff)

lemma setd_fields [simp]:
  "in_image (setd k d s) = in_image s" "mmap_base (setd k d s) = mmap_base s"
  "wtrace (setd k d s) = wtrace s" "st_size (setd k d s) = st_size s"
  by (simp_all add: setd_def in_image_def fun_eq_iff)

lemma deref_holdd [simp]:
  "deref_block k (holdd k d s) = Inr (\<lparr>b_valid = True, b_locked = True,
     b_refcnt = refcnt_of s k + 1, b_data = d\<rparr>, holdd k d s)"
  by (simp add: deref_block_def holdd_def)

lemma block_data_holdd [simp, run_simps]: "block_data k (holdd k d s) = Inr (d, holdd k d s)"
  by (simp add: block_data_def bnd_run)

lemma set_block_data_holdd [simp, run_simps]:
  "set_block_data k d' (holdd k d s) = Inr ((), holdd k d' s)"
  by (simp add: set_block_data_def bnd_run set_block_def) (simp add: holdd_def)

lemma block_read_hold [run_simps]:
  assumes "cache_inv P H s" "(dev, b) \<notin> H" "in_image s b"
  shows "block_read dev b s = Inr ((dev, b), holdd (dev, b) (view s (dev, b)) s)"
proof (cases "(dev, b) \<in> P")
  case True
  with assms obtain d where
    "blocks s (dev, b) = Some \<lparr>b_valid = True, b_locked = False, b_refcnt = 1, b_data = d\<rparr>"
    by (auto elim: cache_inv_pinned)
  then show ?thesis
    by (simp add: block_read_def block_get_def block_lock_def deref_block_def set_block_def
        assert_locked_def Let_def bnd_def holdd_def refcnt_of_def view_def)
next
  case False
  with assms have a: "blocks s (dev, b) = None" by (simp add: cache_inv_absent)
  have "in_image (s\<lparr>blocks := x\<rparr>) b" for x using assms(3) by (simp add: in_image_def)
  with a assms(3) show ?thesis
    by (simp add: block_read_def block_get_def block_lock_def deref_block_def set_block_def
        assert_locked_def Let_def bnd_def holdd_def refcnt_of_def view_def)
qed

text \<open>Reading a block and releasing it leaves the state as it was.\<close>

lemma block_release_unchanged [run_simps]:
  assumes "cache_inv P H s" "k \<notin> H" "d = view s k"
  shows "block_release k (holdd k d s) = Inr ((), s)"
proof (cases "k \<in> P")
  case True
  with assms(1,2) obtain d' where
    "blocks s k = Some \<lparr>b_valid = True, b_locked = False, b_refcnt = 1, b_data = d'\<rparr>"
    by (auto elim: cache_inv_pinned)
  then show ?thesis using assms(3)
    by (simp add: block_release_def assert_locked_def bnd_run set_block_def refcnt_of_def view_def)
       (simp add: holdd_def fun_upd_idem)
next
  case False
  with assms have a: "blocks s k = None" by (simp add: cache_inv_absent)
  then show ?thesis
    by (simp add: block_release_def assert_locked_def bnd_run refcnt_of_def)
       (simp add: holdd_def fun_upd_idem)
qed

text \<open>Releasing an unpinned block drops its cached contents.\<close>

lemma block_release_unpinned [run_simps]:
  assumes "cache_inv P H s" "k \<notin> H" "k \<notin> P"
  shows "block_release k (holdd k d s) = Inr ((), s)"
proof -
  have "blocks s k = None" using assms by (simp add: cache_inv_absent)
  then show ?thesis
    by (simp add: block_release_def assert_locked_def bnd_run refcnt_of_def)
       (simp add: holdd_def fun_upd_idem)
qed

text \<open>Releasing a pinned block keeps its contents in the cache.\<close>

lemma block_release_pinned [run_simps]:
  assumes "cache_inv P H s" "k \<notin> H" "k \<in> P"
  shows "block_release k (holdd k d s) = Inr ((), setd k d s)"
proof -
  from assms obtain d' where
    "blocks s k = Some \<lparr>b_valid = True, b_locked = False, b_refcnt = 1, b_data = d'\<rparr>"
    by (auto elim: cache_inv_pinned)
  then show ?thesis
    by (simp add: block_release_def assert_locked_def bnd_run set_block_def refcnt_of_def)
       (simp add: holdd_def setd_def)
qed

lemma block_write_holdd [run_simps]:
  assumes "in_image s (snd k)"
  shows "block_write k (holdd k d s) = Inr ((), holdd k d (disk_write (snd k) d s))"
proof -
  have "disk_write (snd k) d (holdd k d s) = holdd k d (disk_write (snd k) d s)"
    by (simp add: disk_write_def image_put_def holdd_def refcnt_of_def)
  with assms show ?thesis
    by (simp add: block_write_def assert_locked_def bnd_run)
qed

lemma disk_write_cache [simp]:
  "blocks (disk_write b d s) = blocks s" "refcnt_of (disk_write b d s) = refcnt_of s"
  "cache_inv P H (disk_write b d s) = cache_inv P H s"
  by (simp_all add: disk_write_def image_put_def refcnt_of_def cache_inv_def fun_eq_iff)

lemma holdd_twist: "k \<noteq> k' \<Longrightarrow> holdd k d (holdd k' d' s) = holdd k' d' (holdd k d s)"
  by (simp add: holdd_def refcnt_of_def fun_upd_twist)

lemma holdd_setd: "k \<noteq> k' \<Longrightarrow> holdd k d (setd k' d' s) = setd k' d' (holdd k d s)"
  by (simp add: holdd_def setd_def refcnt_of_def fun_upd_twist)

lemma cache_inv_setd:
  "cache_inv P H s \<Longrightarrow> k \<in> P \<Longrightarrow> k \<notin> H \<Longrightarrow> cache_inv P H (setd k d s)"
  by (simp add: cache_inv_def setd_def)

text \<open>A pinned block that is read, unpinned and released leaves the cache.\<close>

definition evict :: "BlockKey \<Rightarrow> 'a block_cache_scheme \<Rightarrow> 'a block_cache_scheme" where
  "evict k s = s\<lparr>blocks := (blocks s)(k := None)\<rparr>"

lemma block_unpin_holdd [run_simps]:
  assumes "cache_inv P H s" "k \<notin> H" "k \<in> P"
  shows "block_unpin k (holdd k d s) = Inr ((), holdd k d (evict k s))"
proof -
  from assms obtain d' where
    "blocks s k = Some \<lparr>b_valid = True, b_locked = False, b_refcnt = 1, b_data = d'\<rparr>"
    by (auto elim: cache_inv_pinned)
  then show ?thesis
    by (simp add: block_unpin_def bnd_run set_block_def refcnt_of_def)
       (simp add: holdd_def evict_def refcnt_of_def)
qed

lemma cache_inv_evict: "cache_inv P H s \<Longrightarrow> k \<notin> H \<Longrightarrow> cache_inv (P - {k}) H (evict k s)"
  by (simp add: cache_inv_def evict_def)

lemma evict_fields [simp]:
  "in_image (evict k s) = in_image s" "mmap_base (evict k s) = mmap_base s"
  "wtrace (evict k s) = wtrace s" "st_size (evict k s) = st_size s"
  by (simp_all add: evict_def in_image_def fun_eq_iff)

text \<open>The same operations on a block that is held below another one.\<close>

lemma block_data_under [run_simps]:
  "k \<noteq> k' \<Longrightarrow> block_data k (holdd k' d' (holdd k d s)) = Inr (d, holdd k' d' (holdd k d s))"
  by (metis holdd_twist block_data_holdd)

lemma set_block_data_under [run_simps]:
  "k \<noteq> k' \<Longrightarrow> set_block_data k d1 (holdd k' d' (holdd k d s)) = Inr ((), holdd k' d' (holdd k d1 s))"
  by (metis holdd_twist set_block_data_holdd)

lemma disk_write_holdd: "disk_write b d (holdd k d' s) = holdd k d' (disk_write b d s)"
  by (simp add: disk_write_def image_put_def holdd_def refcnt_of_def)

lemma block_write_under [run_simps]:
  assumes "k \<noteq> k'" "in_image s (snd k)"
  shows "block_write k (holdd k' d' (holdd k d s)) =
    Inr ((), holdd k' d' (holdd k d (disk_write (snd k) d s)))"
proof -
  have "block_write k (holdd k d (holdd k' d' s)) =
      Inr ((), holdd k d (disk_write (snd k) d (holdd k' d' s)))"
    using assms(2) by (intro block_write_holdd) simp
  then show ?thesis unfolding disk_write_holdd holdd_twist[OF assms(1)] .
qed

lemma block_release_under [run_simps]:
  assumes "cache_inv P H s" "k \<notin> H" "k \<notin> P" "k \<noteq> k'" "k' \<notin> H"
  shows "block_release k (holdd k' d' (holdd k d s)) = Inr ((), holdd k' d' s)"
proof -
  have "cache_inv P (insert k' H) (holdd k' d' s)" using assms by (intro cache_inv_holdd)
  from block_release_unpinned[OF this, of k d]
  have "block_release k (holdd k d (holdd k' d' s)) = Inr ((), holdd k' d' s)"
    using assms by auto
  then show ?thesis unfolding holdd_twist[OF assms(4)] .
qed

end
