(* ===== verification/Journal.thy ===== *)
theory Journal
  imports Block_Cache
begin

text \<open>
  \<open>src/Log.cxx\<close> and \<open>src/SuperBlock.cxx\<close>: the write-ahead log. A file system call modifies cached
  blocks only; \<open>log_write\<close> records the block number in the in-memory header and pins the block;
  the last \<open>end_op\<close> commits. \<open>commit\<close> copies the modified blocks to the log region, writes the
  header (the commit point), installs the blocks at home and clears the header.
  \<open>recover_from_log\<close> replays a committed log at start-up.

  This theory runs one thread. A wait on the condition variable that nobody can end is the error
  \<open>Deadlock\<close>; the interleaving of several threads is in \<open>Log_Protocol\<close>.
\<close>

section \<open>State\<close>

record super_block = block_cache +
  sb_magic :: u32
  sb_size :: u32
  sb_nblocks :: u32
  sb_ninodes :: u32
  sb_nlog :: u32
  sb_logstart :: u32
  sb_inodestart :: u32
  sb_bmapstart :: u32

record log_state = super_block +
  log_start :: u32
  log_size :: u32
  outstanding :: u32
  committing :: bool
  log_dev :: u32
  log_hdr :: LogHeader

section \<open>Operations\<close>

definition read_head :: "(unit, 'a log_state_scheme) m" where
  "read_head =
     bnd (gets log_dev) (\<lambda>dev.
     bnd (gets log_start) (\<lambda>start.
     bnd (block_read dev start) (\<lambda>blk.
     bnd (block_data blk) (\<lambda>hdr.
     let n = get_u32 hdr 0 in
     bnd (check Out_of_bounds (unat n \<le> LOG_SIZE)) (\<lambda>_.
     bnd (modify (\<lambda>s. s\<lparr>log_hdr := \<lparr>lh_n = n,
       lh_block = get_u32s (unat n) hdr 4 @ drop (unat n) (lh_block (log_hdr s))\<rparr>\<rparr>)) (\<lambda>_.
     block_release blk))))))"

definition write_head :: "(unit, 'a log_state_scheme) m" where
  "write_head =
     bnd (gets log_dev) (\<lambda>dev.
     bnd (gets log_start) (\<lambda>start.
     bnd (block_read dev start) (\<lambda>blk.
     bnd (gets log_hdr) (\<lambda>h.
     bnd (block_data blk) (\<lambda>d.
     bnd (check Out_of_bounds (unat (lh_n h) \<le> LOG_SIZE)) (\<lambda>_.
     bnd (set_block_data blk
       (put_u32s (put_u32 d 0 (lh_n h)) 4 (take (unat (lh_n h)) (lh_block h)))) (\<lambda>_.
     bnd (block_write blk) (\<lambda>_.
     block_release blk))))))))"

text \<open>One turn of the loop of \<open>recover_from_log\<close>.\<close>

definition recover_step :: "nat \<Rightarrow> (unit, 'a log_state_scheme) m" where
  "recover_step tail =
     bnd (gets log_dev) (\<lambda>dev.
     bnd (gets log_start) (\<lambda>start.
     bnd (gets (\<lambda>s. lh_block (log_hdr s) ! tail)) (\<lambda>home.
     bnd (block_read dev (start + of_nat tail + 1)) (\<lambda>log_blk.
     bnd (block_read dev home) (\<lambda>dst_blk.
     bnd (block_data log_blk) (\<lambda>d.
     bnd (set_block_data dst_blk d) (\<lambda>_.
     bnd (block_write dst_blk) (\<lambda>_.
     bnd (block_release log_blk) (\<lambda>_.
     block_release dst_blk)))))))))"

definition recover_from_log :: "(unit, 'a log_state_scheme) m" where
  "recover_from_log =
     bnd read_head (\<lambda>_.
     bnd (gets (\<lambda>s. lh_n (log_hdr s))) (\<lambda>n.
     bnd (for_each [0..<unat n] recover_step) (\<lambda>_.
     bnd (modify (\<lambda>s. s\<lparr>log_hdr := (log_hdr s)\<lparr>lh_n := 0\<rparr>\<rparr>)) (\<lambda>_.
     write_head))))"

definition write_log_step :: "nat \<Rightarrow> (unit, 'a log_state_scheme) m" where
  "write_log_step tail =
     bnd (gets log_dev) (\<lambda>dev.
     bnd (gets log_start) (\<lambda>start.
     bnd (gets (\<lambda>s. lh_block (log_hdr s) ! tail)) (\<lambda>home.
     bnd (block_read dev (start + of_nat tail + 1)) (\<lambda>dst_blk.
     bnd (block_read dev home) (\<lambda>src_blk.
     bnd (block_data src_blk) (\<lambda>d.
     bnd (set_block_data dst_blk d) (\<lambda>_.
     bnd (block_write dst_blk) (\<lambda>_.
     bnd (block_release src_blk) (\<lambda>_.
     block_release dst_blk)))))))))"

definition write_log :: "(unit, 'a log_state_scheme) m" where
  "write_log =
     bnd (gets (\<lambda>s. lh_n (log_hdr s))) (\<lambda>n.
     for_each [0..<unat n] write_log_step)"

text \<open>One turn of the loop of \<open>commit\<close>: as in recovery, and the home block is unpinned.\<close>

definition install_step :: "nat \<Rightarrow> (unit, 'a log_state_scheme) m" where
  "install_step tail =
     bnd (gets log_dev) (\<lambda>dev.
     bnd (gets log_start) (\<lambda>start.
     bnd (gets (\<lambda>s. lh_block (log_hdr s) ! tail)) (\<lambda>home.
     bnd (block_read dev (start + of_nat tail + 1)) (\<lambda>log_blk.
     bnd (block_read dev home) (\<lambda>dst_blk.
     bnd (block_data log_blk) (\<lambda>d.
     bnd (set_block_data dst_blk d) (\<lambda>_.
     bnd (block_write dst_blk) (\<lambda>_.
     bnd (block_unpin dst_blk) (\<lambda>_.
     bnd (block_release log_blk) (\<lambda>_.
     block_release dst_blk))))))))))"

definition commit :: "(unit, 'a log_state_scheme) m" where
  "commit =
     bnd (gets (\<lambda>s. lh_n (log_hdr s))) (\<lambda>n.
     when_do (n > 0)
       (bnd write_log (\<lambda>_.
        bnd write_head (\<lambda>_.
        bnd (for_each [0..<unat n] install_step) (\<lambda>_.
        bnd (modify (\<lambda>s. s\<lparr>log_hdr := (log_hdr s)\<lparr>lh_n := 0\<rparr>\<rparr>)) (\<lambda>_.
        write_head))))))"

definition Log_init :: "u32 \<Rightarrow> (unit, 'a log_state_scheme) m" where
  "Log_init dev =
     bnd (assert_that ''LogHeader too big'' (sizeof_LogHeader < BSIZE)) (\<lambda>_.
     bnd (modify (\<lambda>s. s\<lparr>log_start := sb_logstart s, log_size := sb_nlog s, log_dev := dev\<rparr>)) (\<lambda>_.
     recover_from_log))"

definition begin_op :: "(unit, 'a log_state_scheme) m" where
  "begin_op =
     bnd (gets (\<lambda>s. committing s \<or>
       lh_n (log_hdr s) + (outstanding s + 1) * of_nat MAX_OP_BLOCKS > of_nat LOG_SIZE)) (\<lambda>blocked.
     bnd (check Deadlock (\<not> blocked)) (\<lambda>_.
     modify (\<lambda>s. s\<lparr>outstanding := outstanding s + 1\<rparr>)))"

definition end_op :: "(unit, 'a log_state_scheme) m" where
  "end_op =
     bnd (modify (\<lambda>s. s\<lparr>outstanding := outstanding s - 1\<rparr>)) (\<lambda>_.
     bnd (gets committing) (\<lambda>c.
     bnd (assert_that ''committing'' (\<not> c)) (\<lambda>_.
     bnd (gets outstanding) (\<lambda>out.
     when_do (out = 0)
       (bnd (modify (\<lambda>s. s\<lparr>committing := True\<rparr>)) (\<lambda>_.
        bnd commit (\<lambda>_.
        modify (\<lambda>s. s\<lparr>committing := False\<rparr>))))))))"

text \<open>The index of a block number in the header, or the count when it is not there.\<close>

definition log_find :: "LogHeader \<Rightarrow> u32 \<Rightarrow> nat" where
  "log_find h b = length (takeWhile (\<lambda>x. x \<noteq> b) (take (unat (lh_n h)) (lh_block h)))"

definition log_write :: "BlockKey \<Rightarrow> (unit, 'a log_state_scheme) m" where
  "log_write b =
     bnd (gets log_hdr) (\<lambda>h.
     bnd (gets log_size) (\<lambda>size.
     bnd (assert_that ''too big a transaction''
       (lh_n h < of_nat LOG_SIZE \<and> lh_n h < size - 1)) (\<lambda>_.
     bnd (gets outstanding) (\<lambda>out.
     bnd (assert_that ''log_write outside of trans'' (out \<ge> 1)) (\<lambda>_.
     let i = log_find h (snd b) in
     bnd (modify (\<lambda>s. s\<lparr>log_hdr := h\<lparr>lh_block := (lh_block h)[i := snd b]\<rparr>\<rparr>)) (\<lambda>_.
     when_do (i = unat (lh_n h))
       (bnd (block_pin b) (\<lambda>_.
        modify (\<lambda>s. s\<lparr>log_hdr := (log_hdr s)\<lparr>lh_n := lh_n h + 1\<rparr>\<rparr>)))))))))"

definition SuperBlock_init :: "u32 \<Rightarrow> (unit, 'a log_state_scheme) m" where
  "SuperBlock_init dev =
     bnd (block_read dev 1) (\<lambda>bp.
     bnd (block_data bp) (\<lambda>d.
     bnd (modify (\<lambda>s. s\<lparr>sb_magic := get_u32 d 0, sb_size := get_u32 d 4,
       sb_nblocks := get_u32 d 8, sb_ninodes := get_u32 d 12, sb_nlog := get_u32 d 16,
       sb_logstart := get_u32 d 20, sb_inodestart := get_u32 d 24,
       sb_bmapstart := get_u32 d 28\<rparr>)) (\<lambda>_.
     bnd (block_release bp) (\<lambda>_.
     bnd (gets sb_magic) (\<lambda>magic.
     bnd (assert_that ''invalid file system'' (magic = FS_MAGIC)) (\<lambda>_.
     Log_init dev))))))"

section \<open>The transaction under construction\<close>

definition logged :: "'a log_state_scheme \<Rightarrow> u32 list" where
  "logged s = take (unat (lh_n (log_hdr s))) (lh_block (log_hdr s))"

definition pins :: "'a log_state_scheme \<Rightarrow> BlockKey set" where
  "pins s = Pair (log_dev s) ` set (logged s)"

definition in_log :: "'a log_state_scheme \<Rightarrow> u32 \<Rightarrow> bool" where
  "in_log s b \<longleftrightarrow> unat (log_start s) \<le> unat b \<and> unat b < unat (log_start s) + unat (log_size s)"

text \<open>Blocks of the file system proper: on the image and outside the log region.\<close>

definition home_block :: "'a log_state_scheme \<Rightarrow> u32 \<Rightarrow> bool" where
  "home_block s b \<longleftrightarrow> in_image s b \<and> \<not> in_log s b"

definition log_geom :: "'a log_state_scheme \<Rightarrow> bool" where
  "log_geom s \<longleftrightarrow> 0 < unat (log_size s) \<and> unat (log_start s) + unat (log_size s) \<le> 2 ^ 22 \<and>
     (unat (log_start s) + unat (log_size s)) * BSIZE \<le> st_size s"

definition log_wf :: "'a log_state_scheme \<Rightarrow> bool" where
  "log_wf s \<longleftrightarrow> length (lh_block (log_hdr s)) = LOG_SIZE \<and> unat (lh_n (log_hdr s)) \<le> LOG_SIZE \<and>
     unat (lh_n (log_hdr s)) < unat (log_size s) \<and> distinct (logged s) \<and>
     (\<forall>b \<in> set (logged s). home_block s b)"

definition jinv :: "BlockKey set \<Rightarrow> 'a log_state_scheme \<Rightarrow> bool" where
  "jinv H s \<longleftrightarrow> log_geom s \<and> log_wf s \<and> cache_inv (pins s) H s"

text \<open>Space for one more block, inside a transaction.\<close>

definition log_room :: "'a log_state_scheme \<Rightarrow> bool" where
  "log_room s \<longleftrightarrow> lh_n (log_hdr s) < of_nat LOG_SIZE \<and> lh_n (log_hdr s) < log_size s - 1 \<and>
     outstanding s \<ge> 1"

text \<open>The effect of a logged write: the block is pinned with new contents and recorded once.\<close>

definition add_log :: "u32 \<Rightarrow> 'a log_state_scheme \<Rightarrow> 'a log_state_scheme" where
  "add_log b s = (if b \<in> set (logged s) then s else
     s\<lparr>log_hdr := \<lparr>lh_n = lh_n (log_hdr s) + 1,
       lh_block = (lh_block (log_hdr s))[unat (lh_n (log_hdr s)) := b]\<rparr>\<rparr>)"

definition logd :: "u32 \<Rightarrow> bytes \<Rightarrow> 'a log_state_scheme \<Rightarrow> 'a log_state_scheme" where
  "logd b d s = setd (log_dev s, b) d (add_log b s)"

end
