(* ===== verification/Journal_Steps.thy ===== *)
theory Journal_Steps
  imports Journal
begin

text \<open>
  Symbolic execution of the journal: what each of its loops and calls does to a state that
  satisfies the journal invariant \<open>jinv\<close>. The result of every step is a closed expression over
  \<open>logd\<close> (a logged write), \<open>disk_write\<close> (a transfer to the image) and \<open>evict\<close>.
\<close>

section \<open>Fields\<close>

lemma holdd_log_fields [simp]:
  "log_hdr (holdd k d s) = log_hdr s" "log_start (holdd k d s) = log_start s"
  "log_size (holdd k d s) = log_size s" "outstanding (holdd k d s) = outstanding s"
  "committing (holdd k d s) = committing s" "log_dev (holdd k d s) = log_dev s"
  by (simp_all add: holdd_def)

lemma setd_log_fields [simp]:
  "log_hdr (setd k d s) = log_hdr s" "log_start (setd k d s) = log_start s"
  "log_size (setd k d s) = log_size s" "outstanding (setd k d s) = outstanding s"
  "committing (setd k d s) = committing s" "log_dev (setd k d s) = log_dev s"
  by (simp_all add: setd_def)

lemma evict_log_fields [simp]:
  "log_hdr (evict k s) = log_hdr s" "log_start (evict k s) = log_start s"
  "log_size (evict k s) = log_size s" "outstanding (evict k s) = outstanding s"
  "committing (evict k s) = committing s" "log_dev (evict k s) = log_dev s"
  by (simp_all add: evict_def)

lemma disk_write_log_fields [simp]:
  "log_hdr (disk_write b d s) = log_hdr s" "log_start (disk_write b d s) = log_start s"
  "log_size (disk_write b d s) = log_size s" "outstanding (disk_write b d s) = outstanding s"
  "committing (disk_write b d s) = committing s" "log_dev (disk_write b d s) = log_dev s"
  by (simp_all add: disk_write_def image_put_def)

lemma add_log_fields [simp]:
  "log_start (add_log b s) = log_start s" "log_size (add_log b s) = log_size s"
  "outstanding (add_log b s) = outstanding s" "committing (add_log b s) = committing s"
  "log_dev (add_log b s) = log_dev s" "blocks (add_log b s) = blocks s"
  "mmap_base (add_log b s) = mmap_base s" "st_size (add_log b s) = st_size s"
  "wtrace (add_log b s) = wtrace s"
  by (simp_all add: add_log_def)

lemma logd_fields [simp]:
  "log_start (logd b d s) = log_start s" "log_size (logd b d s) = log_size s"
  "outstanding (logd b d s) = outstanding s" "committing (logd b d s) = committing s"
  "log_dev (logd b d s) = log_dev s" "mmap_base (logd b d s) = mmap_base s"
  "st_size (logd b d s) = st_size s" "wtrace (logd b d s) = wtrace s"
  by (simp_all add: logd_def)

lemma logged_cong [simp]:
  "logged (holdd k d s) = logged s" "logged (setd k d s) = logged s"
  "logged (evict k s) = logged s" "logged (disk_write b d s) = logged s"
  by (simp_all add: logged_def)

lemma in_image_log [simp]: "in_image (add_log b s) = in_image s" "in_image (logd b d s) = in_image s"
  by (simp_all add: in_image_def fun_eq_iff)

lemma geometry_cong [simp]:
  "in_log (holdd k d s) = in_log s" "in_log (logd b d s) = in_log s"
  "in_log (disk_write b d s) = in_log s" "in_log (evict k s) = in_log s"
  "home_block (holdd k d s) = home_block s" "home_block (logd b d s) = home_block s"
  "home_block (disk_write b d s) = home_block s" "home_block (evict k s) = home_block s"
  "log_geom (holdd k d s) = log_geom s" "log_geom (logd b d s) = log_geom s"
  "log_geom (disk_write b d s) = log_geom s" "log_geom (evict k s) = log_geom s"
  by (simp_all add: in_log_def home_block_def log_geom_def fun_eq_iff)

lemma pins_cong [simp]:
  "pins (holdd k d s) = pins s" "pins (disk_write b d s) = pins s"
  by (simp_all add: pins_def)

lemma jinvD:
  assumes "jinv H s"
  shows "log_geom s" "log_wf s" "cache_inv (pins s) H s"
  using assms by (simp_all add: jinv_def)

lemma jinv_hold: "jinv H s \<Longrightarrow> k \<notin> H \<Longrightarrow> jinv (insert k H) (holdd k d s)"
  by (auto simp: jinv_def cache_inv_holdd log_wf_def)

section \<open>The log region\<close>

lemma log_geom_image:
  assumes "log_geom s" "i < unat (log_size s)"
  shows "unat (log_start s + of_nat i) = unat (log_start s) + i"
    "in_image s (log_start s + of_nat i)" "in_log s (log_start s + of_nat i)"
proof -
  have bound: "unat (log_start s) + i < 2 ^ 22"
    using assms by (simp add: log_geom_def)
  then have "unat (of_nat i :: u32) = i" by (simp add: unat_of_nat)
  moreover from this have "unat (log_start s) + unat (of_nat i :: u32) < 2 ^ LENGTH(32)"
    using bound by simp
  ultimately show u: "unat (log_start s + of_nat i) = unat (log_start s) + i"
    by (simp add: unat_add_lem[THEN iffD1])
  have "(unat (log_start s) + i + 1) * 1024 \<le> (unat (log_start s) + unat (log_size s)) * 1024"
    using assms(2) by (intro mult_right_mono) auto
  with bound u assms(1) show "in_image s (log_start s + of_nat i)"
    by (simp add: in_image_def log_geom_def)
  from u assms(2) show "in_log s (log_start s + of_nat i)"
    by (simp add: in_log_def)
qed

lemma log_geom_slot:
  assumes "log_geom s" "Suc i < unat (log_size s)"
  shows "unat (log_start s + of_nat i + 1) = unat (log_start s) + i + 1"
    "in_image s (log_start s + of_nat i + 1)" "in_log s (log_start s + of_nat i + 1)"
  using log_geom_image[OF assms] by (simp_all add: algebra_simps)

lemma log_geom_head:
  assumes "log_geom s"
  shows "in_image s (log_start s)" "in_log s (log_start s)"
  using log_geom_image[OF assms, of 0] assms by (simp_all add: log_geom_def)

lemma in_log_not_pinned: "log_wf s \<Longrightarrow> in_log s b \<Longrightarrow> (dev, b) \<notin> pins s"
  by (auto simp: log_wf_def pins_def home_block_def)

section \<open>Logged writes\<close>

lemma log_find_in:
  assumes "b \<in> set (take (unat (lh_n h)) (lh_block h))" "unat (lh_n h) \<le> length (lh_block h)"
  shows "log_find h b < unat (lh_n h)" "lh_block h ! log_find h b = b"
proof -
  let ?xs = "take (unat (lh_n h)) (lh_block h)"
  let ?t = "takeWhile (\<lambda>x. x \<noteq> b) ?xs"
  have lt: "length ?t < length ?xs"
  proof (rule ccontr)
    assume "\<not> length ?t < length ?xs"
    then have "?t = ?xs" using takeWhile_eq_take[of "\<lambda>x. x \<noteq> b" ?xs] by (metis not_less take_all)
    with assms(1) show False using set_takeWhileD[of b "\<lambda>x. x \<noteq> b" ?xs] by auto
  qed
  then show i: "log_find h b < unat (lh_n h)" by (simp add: log_find_def)
  have "?xs ! length ?t = b" using nth_length_takeWhile[OF lt] by simp
  with i show "lh_block h ! log_find h b = b" by (simp add: log_find_def)
qed

lemma log_find_out:
  assumes "b \<notin> set (take (unat (lh_n h)) (lh_block h))" "unat (lh_n h) \<le> length (lh_block h)"
  shows "log_find h b = unat (lh_n h)"
proof -
  have "takeWhile (\<lambda>x. x \<noteq> b) (take (unat (lh_n h)) (lh_block h)) = take (unat (lh_n h)) (lh_block h)"
    using assms(1) by (auto simp: takeWhile_eq_all_conv)
  then show ?thesis using assms(2) unfolding log_find_def by (simp only: length_take min_absorb2)
qed

lemma log_room_sizes:
  assumes "log_room s" "log_geom s"
  shows "unat (lh_n (log_hdr s)) < LOG_SIZE" "Suc (unat (lh_n (log_hdr s))) < unat (log_size s)"
    "unat (lh_n (log_hdr s) + 1) = Suc (unat (lh_n (log_hdr s)))"
proof -
  show lt: "unat (lh_n (log_hdr s)) < LOG_SIZE"
    using assms(1) by (simp add: log_room_def word_less_nat_alt)
  then show "unat (lh_n (log_hdr s) + 1) = Suc (unat (lh_n (log_hdr s)))"
    by (simp add: unat_word_ariths)
  have "unat (log_size s - 1) = unat (log_size s) - 1"
    using assms(2) by (intro unat_minus_one) (auto simp: log_geom_def)
  moreover have "unat (lh_n (log_hdr s)) < unat (log_size s - 1)"
    using assms(1) by (simp only: log_room_def word_less_nat_alt)
  ultimately show "Suc (unat (lh_n (log_hdr s))) < unat (log_size s)" by linarith
qed

lemma log_write_hold [run_simps]:
  assumes j: "jinv H s" and k: "k = (log_dev s, b)" "k \<notin> H" and r: "log_room s"
  shows "log_write k (holdd k d s) = Inr ((), holdd k d (logd b d s))"
proof -
  let ?h = "log_hdr s"
  from j have len: "unat (lh_n ?h) \<le> length (lh_block ?h)"
    and ci: "cache_inv (pins s) H s"
    by (auto simp: jinv_def log_wf_def)
  show ?thesis
  proof (cases "b \<in> set (logged s)")
    case True
    then have i: "log_find ?h b < unat (lh_n ?h)" "lh_block ?h ! log_find ?h b = b"
      using len by (auto simp: logged_def log_find_in)
    from True ci k obtain d' where
      "blocks s k = Some \<lparr>b_valid = True, b_locked = False, b_refcnt = 1, b_data = d'\<rparr>"
      by (auto simp: pins_def elim: cache_inv_pinned)
    moreover have "(lh_block ?h)[log_find ?h b := b] = lh_block ?h"
      using i(2) by (metis list_update_id)
    ultimately show ?thesis using True i(1) r k
      by (simp add: log_write_def bnd_def log_room_def Let_def logd_def add_log_def)
         (simp add: holdd_def setd_def refcnt_of_def)
  next
    case False
    then have i: "log_find ?h b = unat (lh_n ?h)"
      using len by (simp add: logged_def log_find_out)
    have "blocks s k = None"
      by (rule cache_inv_absent[OF ci]) (use False k in \<open>auto simp: pins_def\<close>)
    with False i r k show ?thesis
      by (simp add: log_write_def bnd_def log_room_def Let_def logd_def add_log_def block_pin_def)
         (simp add: deref_block_def set_block_def holdd_def setd_def refcnt_of_def)
  qed
qed

lemma view_logd: "view (logd b d s) = (view s)((log_dev s, b) := d)"
proof -
  have "view (add_log b s) = view s"
    by (rule ext) (simp add: view_def split: option.splits)
  then show ?thesis by (simp add: logd_def view_setd)
qed

lemma logged_add_log:
  assumes "log_wf s" "log_room s" "log_geom s"
  shows "logged (add_log b s) = (if b \<in> set (logged s) then logged s else logged s @ [b])"
  using assms log_room_sizes[OF assms(2,3)]
  by (auto simp: add_log_def logged_def log_wf_def take_Suc_conv_app_nth)

lemma logged_logd:
  assumes "log_wf s" "log_room s" "log_geom s"
  shows "logged (logd b d s) = (if b \<in> set (logged s) then logged s else logged s @ [b])"
  using logged_add_log[OF assms] by (simp add: logd_def)

lemma log_wf_logd:
  assumes "log_wf s" "log_room s" "log_geom s" "home_block s b"
  shows "log_wf (logd b d s)"
proof -
  have "length (lh_block (log_hdr (logd b d s))) = LOG_SIZE"
    "unat (lh_n (log_hdr (logd b d s))) \<le> LOG_SIZE"
    "unat (lh_n (log_hdr (logd b d s))) < unat (log_size s)"
    using assms(1) log_room_sizes[OF assms(2,3)]
    by (auto simp: log_wf_def logd_def add_log_def)
  moreover have "distinct (logged (logd b d s))" "\<forall>b' \<in> set (logged (logd b d s)). home_block s b'"
    using assms by (auto simp: log_wf_def logged_logd)
  ultimately show ?thesis by (simp add: log_wf_def)
qed

lemma jinv_logd:
  assumes "jinv H s" "log_room s" "home_block s b" "(log_dev s, b) \<notin> H"
  shows "jinv H (logd b d s)"
proof -
  from assms(1) have g: "log_geom s" and w: "log_wf s" and c: "cache_inv (pins s) H s"
    by (simp_all add: jinv_def)
  have p: "pins (logd b d s) = insert (log_dev s, b) (pins s)"
    by (auto simp: pins_def logged_logd[OF w assms(2) g])
  have "cache_inv (insert (log_dev s, b) (pins s)) H (logd b d s)"
    using c assms(4) by (simp add: cache_inv_def logd_def setd_def)
  with p g log_wf_logd[OF w assms(2) g assms(3)] show ?thesis
    by (simp add: jinv_def)
qed

text \<open>
  The three idioms in which the layers above use a block: look at it, and modify it through the
  log. Together with \<open>view_logd\<close> they are all that those layers know of the cache.
\<close>

lemma block_read_j [run_simps]:
  assumes "jinv H s" "(dev, b) \<notin> H" "in_image s b"
  shows "block_read dev b s = Inr ((dev, b), holdd (dev, b) (view s (dev, b)) s)"
  using assms by (auto simp: jinv_def intro: block_read_hold)

lemma block_release_j [run_simps]:
  assumes "jinv H s" "k \<notin> H" "d = view s k"
  shows "block_release k (holdd k d s) = Inr ((), s)"
  using assms by (auto simp: jinv_def intro: block_release_unchanged)

lemma log_write_release [run_simps]:
  assumes "jinv H s" "k = (log_dev s, b)" "k \<notin> H" "log_room s" "home_block s b"
  shows "block_release k (holdd k d (logd b d s)) = Inr ((), logd b d s)"
  using assms by (intro block_release_j[where H = H]) (auto simp: jinv_logd view_logd)

text \<open>The journal as a block store.\<close>

interpretation txn: block_store "\<lambda>s b. view s (log_dev s, b)" logd "\<lambda>_. True"
  by unfold_locales (auto simp: view_logd fun_eq_iff)

end
