(* ===== verification/Crash_Safety.thy ===== *)
theory Crash_Safety
  imports Journal_Steps
begin

text \<open>
  Commit and recovery. The lemmas of the first part run \<open>commit\<close> and \<open>recover_from_log\<close> to the
  end and give the exact list of image writes they make. The second part cuts these lists at an
  arbitrary point: whatever image the process leaves behind when it is killed, the next start-up
  recovers either the state before the transaction or the state after it.
\<close>

section \<open>Definitions\<close>

text \<open>The header block as \<open>write_head\<close> leaves it, for the block numbers \<open>bs\<close>.\<close>

definition head_block :: "u32 list \<Rightarrow> bytes \<Rightarrow> bytes" where
  "head_block bs d = put_u32s (put_u32 d 0 (of_nat (length bs))) 4 bs"

text \<open>Copies of the modified blocks in the log region, and the same contents at home.\<close>

definition slot_writes :: "'a log_state_scheme \<Rightarrow> nat \<Rightarrow> (nat \<times> bytes) list" where
  "slot_writes s n =
     map (\<lambda>i. (unat (log_start s) + i + 1, view s (log_dev s, logged s ! i))) [0..<n]"

definition home_writes :: "'a log_state_scheme \<Rightarrow> nat \<Rightarrow> (nat \<times> bytes) list" where
  "home_writes s n = map (\<lambda>i. (unat (logged s ! i), view s (log_dev s, logged s ! i))) [0..<n]"

definition new_head :: "'a log_state_scheme \<Rightarrow> bytes" where
  "new_head s = head_block (logged s) (mmap_base s (unat (log_start s)))"

text \<open>The four phases of a commit, as writes to the image.\<close>

definition commit_trace :: "'a log_state_scheme \<Rightarrow> (nat \<times> bytes) list" where
  "commit_trace s =
     (let start = unat (log_start s); n = length (logged s)
      in slot_writes s n @ [(start, new_head s)] @ home_writes s n @
         [(start, head_block [] (new_head s))])"

text \<open>The state after a list of image writes, and without some cached blocks.\<close>

definition img_writes :: "(nat \<times> bytes) list \<Rightarrow> 'a log_state_scheme \<Rightarrow> 'a log_state_scheme" where
  "img_writes ws s = s\<lparr>mmap_base := apply_writes ws (mmap_base s), wtrace := wtrace s @ ws\<rparr>"

definition evict_all :: "BlockKey set \<Rightarrow> 'a log_state_scheme \<Rightarrow> 'a log_state_scheme" where
  "evict_all K s = s\<lparr>blocks := blocks s |` (- K)\<rparr>"

definition clear_hdr :: "'a log_state_scheme \<Rightarrow> 'a log_state_scheme" where
  "clear_hdr s = s\<lparr>log_hdr := (log_hdr s)\<lparr>lh_n := 0\<rparr>\<rparr>"

text \<open>
  A new process on an image: nothing cached, no transaction, the geometry of the super block.
\<close>

definition restart :: "image \<Rightarrow> 'a log_state_scheme \<Rightarrow> 'a log_state_scheme" where
  "restart im s = s\<lparr>mmap_base := im, wtrace := [], blocks := Map.empty,
     sb_logstart := log_start s, sb_nlog := log_size s,
     outstanding := 0, committing := False,
     log_hdr := \<lparr>lh_n = 0, lh_block = replicate LOG_SIZE 0\<rparr>\<rparr>"

text \<open>The block numbers and contents that recovery finds in a committed log.\<close>

definition disk_log :: "nat \<Rightarrow> image \<Rightarrow> (nat \<times> bytes) list" where
  "disk_log start im =
     map (\<lambda>i. (unat (get_u32 (im start) (4 + 4 * i)), im (start + i + 1)))
       [0..<unat (get_u32 (im start) 0)]"

definition recovery_trace :: "nat \<Rightarrow> image \<Rightarrow> (nat \<times> bytes) list" where
  "recovery_trace start im = disk_log start im @ [(start, head_block [] (im start))]"

text \<open>A log header that recovery can follow: no overrun, all blocks at home.\<close>

definition head_ok :: "'a log_state_scheme \<Rightarrow> image \<Rightarrow> bool" where
  "head_ok s im \<longleftrightarrow>
     (let hd = im (unat (log_start s)); n = unat (get_u32 hd 0)
      in n \<le> LOG_SIZE \<and> n < unat (log_size s) \<and> (\<forall>b \<in> set (get_u32s n hd 4). home_block s b))"

section \<open>Running the loops\<close>

lemma jinv_disk_write [simp]: "jinv H (disk_write b d s) = jinv H s"
  by (simp add: jinv_def log_wf_def)

lemma view_pinned:
  assumes "jinv H s" "b \<in> set (logged s)" "(log_dev s, b) \<notin> H"
  shows "view (disk_write b' d s) (log_dev s, b) = view s (log_dev s, b)"
proof -
  from assms obtain d' where "blocks s (log_dev s, b) =
      Some \<lparr>b_valid = True, b_locked = False, b_refcnt = 1, b_data = d'\<rparr>"
    by (auto simp: jinv_def pins_def elim!: cache_inv_pinned[of _ H s "(log_dev s, b)"])
  then show ?thesis by (simp add: view_def)
qed

lemma logged_nth:
  assumes "log_wf s" "i < unat (lh_n (log_hdr s))"
  shows "lh_block (log_hdr s) ! i = logged s ! i" "logged s ! i \<in> set (logged s)"
    "home_block s (logged s ! i)"
proof -
  have len: "length (logged s) = unat (lh_n (log_hdr s))"
    using assms(1) by (simp add: logged_def log_wf_def)
  show "lh_block (log_hdr s) ! i = logged s ! i" using assms(2) by (simp add: logged_def)
  show "logged s ! i \<in> set (logged s)" using assms(2) len by simp
  with assms(1) show "home_block s (logged s ! i)" by (simp add: log_wf_def)
qed

lemma length_logged: "log_wf s \<Longrightarrow> length (logged s) = unat (lh_n (log_hdr s))"
  by (simp add: logged_def log_wf_def)

lemma write_log_step_run:
  assumes j: "jinv {} s" and i: "i < unat (lh_n (log_hdr s))"
  shows "write_log_step i s =
    Inr ((), disk_write (log_start s + of_nat i + 1) (view s (log_dev s, logged s ! i)) s)"
proof -
  let ?l = "log_start s + of_nat i + 1" and ?h = "logged s ! i"
  from j have g: "log_geom s" and w: "log_wf s" and c: "cache_inv (pins s) {} s"
    by (simp_all add: jinv_def)
  from w i have "Suc i < unat (log_size s)" by (simp add: log_wf_def)
  note sl = log_geom_slot[OF g this] and hb = logged_nth[OF w i]
  from hb(3) have ne: "?h \<noteq> ?l" and im: "in_image s ?h" using sl(3) by (auto simp: home_block_def)
  have np: "(log_dev s, ?l) \<notin> pins s" using w sl(3) by (rule in_log_not_pinned)
  let ?kl = "(log_dev s, ?l)" and ?kh = "(log_dev s, ?h)"
  let ?s1 = "holdd ?kl (view s ?kl) s"
  have r1: "block_read (log_dev s) ?l s = Inr (?kl, ?s1)"
    using j sl(2) by (intro block_read_j) auto
  have c1: "cache_inv (pins s) {?kl} (holdd ?kl d s)" for d
    using cache_inv_holdd[OF c, of ?kl] by simp
  have r2: "block_read (log_dev s) ?h ?s1 = Inr (?kh, holdd ?kh (view s ?kh) ?s1)"
    using block_read_hold[OF c1, of "log_dev s" ?h] ne im by simp
  let ?t = "disk_write ?l (view s ?kh) s"
  have c2: "cache_inv (pins s) {?kl} (holdd ?kl (view s ?kh) ?t)"
    using cache_inv_holdd[of "pins s" "{}" ?t ?kl] c by simp
  have v: "view s ?kh = view (holdd ?kl (view s ?kh) ?t) ?kh"
    using ne view_pinned[OF j hb(2)] by (simp add: view_holdd)
  have r3: "block_release ?kh (holdd ?kh (view s ?kh) (holdd ?kl (view s ?kh) ?t)) =
      Inr ((), holdd ?kl (view s ?kh) ?t)"
    by (rule block_release_unchanged[OF c2 _ v]) (use ne in auto)
  have r4: "block_release ?kl (holdd ?kl (view s ?kh) ?t) = Inr ((), ?t)"
    by (rule block_release_unpinned[where H = "{}", of "pins s"]) (use c np in auto)
  show ?thesis
    using r1 r2 r3 r4 ne sl(2) hb(1)
    by (simp add: write_log_step_def bnd_def set_block_data_under block_write_under)
qed

lemma recover_step_run:
  assumes c: "cache_inv {} {} s" and l: "in_image s (log_start s + of_nat i + 1)"
    and h: "in_image s (lh_block (log_hdr s) ! i)"
    and ne: "lh_block (log_hdr s) ! i \<noteq> log_start s + of_nat i + 1"
  shows "recover_step i s = Inr ((), disk_write (lh_block (log_hdr s) ! i)
    (mmap_base s (unat (log_start s + of_nat i + 1))) s)"
proof -
  let ?l = "log_start s + of_nat i + 1" and ?h = "lh_block (log_hdr s) ! i"
  let ?kl = "(log_dev s, ?l)" and ?kh = "(log_dev s, ?h)"
  let ?d = "mmap_base s (unat ?l)"
  let ?s1 = "holdd ?kl ?d s" and ?t = "disk_write ?h ?d s"
  have "view s ?kl = ?d" using view_absent[OF c, of ?kl] l by simp
  then have r1: "block_read (log_dev s) ?l s = Inr (?kl, ?s1)"
    using block_read_hold[OF c _ l, of "log_dev s"] by simp
  have c1: "cache_inv {} {?kl} ?s1" using cache_inv_holdd[OF c, of ?kl] by simp
  have r2: "block_read (log_dev s) ?h ?s1 = Inr (?kh, holdd ?kh (view ?s1 ?kh) ?s1)"
    by (rule block_read_hold[OF c1]) (use ne h in auto)
  have w: "block_write ?kh (holdd ?kh ?d ?s1) = Inr ((), holdd ?kh ?d (holdd ?kl ?d ?t))"
    using block_write_holdd[of ?s1 ?kh ?d] h by (simp add: disk_write_holdd)
  have r3: "block_release ?kl (holdd ?kh ?d (holdd ?kl ?d ?t)) = Inr ((), holdd ?kh ?d ?t)"
    by (rule block_release_under[where H = "{}" and P = "{}"]) (use c ne in auto)
  have r4: "block_release ?kh (holdd ?kh ?d ?t) = Inr ((), ?t)"
    by (rule block_release_unpinned[where H = "{}" and P = "{}"]) (use c in auto)
  show ?thesis
    using r1 r2 r3 r4 w ne by (simp add: recover_step_def bnd_def block_data_under)
qed

lemma install_step_run:
  assumes c: "cache_inv P {} s" and l: "in_image s (log_start s + of_nat i + 1)"
    and np: "(log_dev s, log_start s + of_nat i + 1) \<notin> P"
    and h: "in_image s (lh_block (log_hdr s) ! i)" and hp: "(log_dev s, lh_block (log_hdr s) ! i) \<in> P"
  shows "install_step i s = Inr ((), evict (log_dev s, lh_block (log_hdr s) ! i)
    (disk_write (lh_block (log_hdr s) ! i) (mmap_base s (unat (log_start s + of_nat i + 1))) s))"
proof -
  let ?l = "log_start s + of_nat i + 1" and ?h = "lh_block (log_hdr s) ! i"
  let ?kl = "(log_dev s, ?l)" and ?kh = "(log_dev s, ?h)"
  let ?d = "mmap_base s (unat ?l)"
  let ?s1 = "holdd ?kl ?d s" and ?t = "disk_write ?h ?d s"
  from np hp have ne: "?h \<noteq> ?l" by auto
  have "view s ?kl = ?d" using view_absent[OF c np] l by simp
  then have r1: "block_read (log_dev s) ?l s = Inr (?kl, ?s1)"
    using block_read_hold[OF c _ l, of "log_dev s"] by simp
  have c1: "cache_inv P {?kl} ?s1" using cache_inv_holdd[OF c, of ?kl] by simp
  have r2: "block_read (log_dev s) ?h ?s1 = Inr (?kh, holdd ?kh (view ?s1 ?kh) ?s1)"
    by (rule block_read_hold[OF c1]) (use ne h in auto)
  have w: "block_write ?kh (holdd ?kh ?d ?s1) = Inr ((), holdd ?kh ?d (holdd ?kl ?d ?t))"
    using block_write_holdd[of ?s1 ?kh ?d] h by (simp add: disk_write_holdd)
  have c2: "cache_inv P {?kl} (holdd ?kl ?d ?t)"
    using cache_inv_holdd[of P "{}" ?t ?kl] c by simp
  have u: "block_unpin ?kh (holdd ?kh ?d (holdd ?kl ?d ?t)) =
      Inr ((), holdd ?kh ?d (evict ?kh (holdd ?kl ?d ?t)))"
    by (rule block_unpin_holdd[OF c2]) (use ne hp in auto)
  have e: "evict ?kh (holdd ?kl ?d ?t) = holdd ?kl ?d (evict ?kh ?t)"
    using ne by (simp add: evict_def holdd_def refcnt_of_def fun_upd_twist)
  have c3: "cache_inv (P - {?kh}) {} (evict ?kh ?t)" using c by (intro cache_inv_evict) auto
  have r3: "block_release ?kl (holdd ?kh ?d (holdd ?kl ?d (evict ?kh ?t))) =
      Inr ((), holdd ?kh ?d (evict ?kh ?t))"
    by (rule block_release_under[OF c3]) (use ne np in auto)
  have r4: "block_release ?kh (holdd ?kh ?d (evict ?kh ?t)) = Inr ((), evict ?kh ?t)"
    by (rule block_release_unpinned[OF c3]) auto
  show ?thesis
    using r1 r2 r3 r4 w u e ne by (simp add: install_step_def bnd_def block_data_under)
qed

lemma write_head_run:
  assumes g: "log_geom s" and c: "cache_inv P {} s" and np: "(log_dev s, log_start s) \<notin> P"
    and n: "unat (lh_n (log_hdr s)) \<le> LOG_SIZE" and len: "length (lh_block (log_hdr s)) = LOG_SIZE"
  shows "write_head s = Inr ((), disk_write (log_start s)
    (head_block (logged s) (mmap_base s (unat (log_start s)))) s)"
proof -
  let ?k = "(log_dev s, log_start s)"
  have im: "in_image s (log_start s)" using log_geom_head[OF g] by simp
  have "view s ?k = mmap_base s (unat (log_start s))"
    using view_absent[OF c np] im by simp
  then have r1: "block_read (log_dev s) (log_start s) s =
      Inr (?k, holdd ?k (mmap_base s (unat (log_start s))) s)"
    using block_read_hold[OF c _ im, of "log_dev s"] by simp
  have r2: "block_release ?k (holdd ?k d (disk_write (log_start s) d s)) =
      Inr ((), disk_write (log_start s) d s)" for d
    by (rule block_release_unpinned[where H = "{}" and P = P]) (use c np in auto)
  have "of_nat (length (logged s)) = lh_n (log_hdr s)"
    using n len by (simp add: logged_def)
  then show ?thesis
    using r1 r2 n im by (simp add: write_head_def bnd_def head_block_def logged_def block_write_holdd)
qed

section \<open>Whole runs\<close>

lemma img_writes_fields [simp]:
  "log_hdr (img_writes ws s) = log_hdr s" "log_start (img_writes ws s) = log_start s"
  "log_size (img_writes ws s) = log_size s" "log_dev (img_writes ws s) = log_dev s"
  "blocks (img_writes ws s) = blocks s" "st_size (img_writes ws s) = st_size s"
  "mmap_base (img_writes ws s) = apply_writes ws (mmap_base s)"
  "logged (img_writes ws s) = logged s" "in_image (img_writes ws s) = in_image s"
  by (simp_all add: img_writes_def logged_def in_image_def fun_eq_iff)

lemma img_writes_inv [simp]:
  "pins (img_writes ws s) = pins s" "cache_inv P H (img_writes ws s) = cache_inv P H s"
  "log_geom (img_writes ws s) = log_geom s" "home_block (img_writes ws s) = home_block s"
  by (simp_all add: pins_def cache_inv_def log_geom_def home_block_def in_log_def fun_eq_iff)

lemma jinv_img_writes [simp]: "jinv H (img_writes ws s) = jinv H s"
  by (simp add: jinv_def log_wf_def)

lemma img_writes_snoc:
  "in_image s b \<Longrightarrow> disk_write b d (img_writes ws s) = img_writes (ws @ [(unat b, d)]) s"
  by (simp add: disk_write_def image_put_def img_writes_def image_write_def)

lemma img_writes_append: "img_writes vs (img_writes ws s) = img_writes (ws @ vs) s"
  by (simp add: img_writes_def)

lemma img_writes_Nil [simp]: "img_writes [] s = s"
  by (simp add: img_writes_def)

lemma evict_all_fields [simp]:
  "log_hdr (evict_all K s) = log_hdr s" "log_start (evict_all K s) = log_start s"
  "log_size (evict_all K s) = log_size s" "log_dev (evict_all K s) = log_dev s"
  "mmap_base (evict_all K s) = mmap_base s" "st_size (evict_all K s) = st_size s"
  "logged (evict_all K s) = logged s" "in_image (evict_all K s) = in_image s"
  "log_geom (evict_all K s) = log_geom s"
  by (simp_all add: evict_all_def logged_def in_image_def log_geom_def fun_eq_iff)

lemma restrict_drop: "(f |` (- K))(k := None) = f |` (- insert k K)"
  by (rule ext) (simp add: restrict_map_def)

lemma evict_all_empty: "evict_all {} s = s"
  by (simp add: evict_all_def restrict_map_def)

lemma evict_all_step:
  "in_image s b \<Longrightarrow> evict k (disk_write b d (evict_all K (img_writes ws s))) =
     evict_all (insert k K) (img_writes (ws @ [(unat b, d)]) s)"
  by (simp add: evict_def evict_all_def disk_write_def image_put_def img_writes_def image_write_def
      restrict_drop del: fun_upd_None_restrict)

lemma cache_inv_evict_all: "cache_inv P H s \<Longrightarrow> K \<inter> H = {} \<Longrightarrow> cache_inv (P - K) H (evict_all K s)"
  unfolding cache_inv_def evict_all_def
  by (auto simp: restrict_map_def split: if_splits)

lemma view_img_writes:
  assumes "jinv H s" "b \<in> set (logged s)" "(log_dev s, b) \<notin> H"
  shows "view (img_writes ws s) (log_dev s, b) = view s (log_dev s, b)"
proof -
  from assms obtain d' where "blocks s (log_dev s, b) =
      Some \<lparr>b_valid = True, b_locked = False, b_refcnt = 1, b_data = d'\<rparr>"
    by (auto simp: jinv_def pins_def elim!: cache_inv_pinned[of _ H s "(log_dev s, b)"])
  then show ?thesis by (simp add: view_def)
qed

lemma write_log_run:
  assumes "jinv {} s"
  shows "write_log s = Inr ((), img_writes (slot_writes s (length (logged s))) s)"
proof -
  from assms have g: "log_geom s" and w: "log_wf s" by (simp_all add: jinv_def)
  let ?n = "unat (lh_n (log_hdr s))"
  have "for_each [0..<?n] write_log_step (img_writes (slot_writes s 0) s) =
      Inr ((), img_writes (slot_writes s ?n) s)"
  proof (rule for_each_upto)
    fix i assume i: "i < ?n"
    then have "Suc i < unat (log_size s)" using w by (simp add: log_wf_def)
    note sl = log_geom_slot[OF g this]
    show "write_log_step i (img_writes (slot_writes s i) s) =
        Inr ((), img_writes (slot_writes s (Suc i)) s)"
      using write_log_step_run[of "img_writes (slot_writes s i) s" i] assms i sl
        view_img_writes[OF assms logged_nth(2)[OF w i]]
      by (simp add: img_writes_snoc slot_writes_def)
  qed
  then show ?thesis by (simp add: write_log_def length_logged[OF w] slot_writes_def)
qed

section \<open>Commit\<close>

lemma apply_writes_other: "k \<notin> fst ` set ws \<Longrightarrow> apply_writes ws im k = im k"
  unfolding apply_writes_def by (rule img.rd_replay_other) simp_all

lemma slot_writes_read:
  assumes "i < n"
  shows "apply_writes (slot_writes s n) im (unat (log_start s) + i + 1) = view s (log_dev s, logged s ! i)"
proof -
  have "distinct (map fst (slot_writes s n))"
    by (auto simp: slot_writes_def comp_def distinct_map inj_on_def)
  moreover have "i < length (slot_writes s n)" using assms by (simp add: slot_writes_def)
  ultimately show ?thesis
    using img.rd_replay_nth[of "slot_writes s n" i im] assms
    by (simp add: apply_writes_def slot_writes_def)
qed

lemma slot_keys: "fst ` set (slot_writes s n) = (\<lambda>i. unat (log_start s) + i + 1) ` {0..<n}"
  by (simp add: slot_writes_def image_image)

lemma home_writes_take:
  "n \<le> length (logged s) \<Longrightarrow>
     home_writes s n = map (\<lambda>b. (unat b, view s (log_dev s, b))) (take n (logged s))"
  by (rule nth_equalityI) (simp_all add: home_writes_def)

lemma home_keys: "n \<le> length (logged s) \<Longrightarrow> fst ` set (home_writes s n) = unat ` set (take n (logged s))"
  by (simp only: home_writes_take) (simp add: image_image)

lemma home_keys_outside:
  assumes "log_wf s" "n \<le> length (logged s)" "unat (log_start s) \<le> k"
    "k < unat (log_start s) + unat (log_size s)"
  shows "k \<notin> fst ` set (home_writes s n)"
proof
  assume "k \<in> fst ` set (home_writes s n)"
  then obtain b where "b \<in> set (logged s)" "k = unat b"
    unfolding home_keys[OF assms(2)] by (blast dest: in_set_takeD)
  with assms show False by (auto simp: log_wf_def home_block_def in_log_def)
qed

abbreviation logged_part :: "'a log_state_scheme \<Rightarrow> nat \<Rightarrow> BlockKey set" where
  "logged_part s i \<equiv> Pair (log_dev s) ` set (take i (logged s))"

lemma logged_part_Suc:
  "i < length (logged s) \<Longrightarrow> logged_part s (Suc i) = insert (log_dev s, logged s ! i) (logged_part s i)"
  by (auto simp: take_Suc_conv_app_nth)

lemma logged_part_next:
  "distinct (logged s) \<Longrightarrow> i < length (logged s) \<Longrightarrow> (log_dev s, logged s ! i) \<notin> logged_part s i"
  by (auto simp: in_set_conv_nth nth_eq_iff_index_eq)

definition log_phase :: "'a log_state_scheme \<Rightarrow> (nat \<times> bytes) list" where
  "log_phase s = slot_writes s (length (logged s)) @ [(unat (log_start s), new_head s)]"

lemma log_phase_slot:
  assumes "log_wf s" "i < length (logged s)" "m \<le> length (logged s)"
  shows "apply_writes (log_phase s @ home_writes s m) im (unat (log_start s) + i + 1) =
    view s (log_dev s, logged s ! i)"
proof -
  have "i + 1 < unat (log_size s)" using assms(1,2) by (simp add: length_logged log_wf_def)
  then have "unat (log_start s) + i + 1 \<notin> fst ` set (home_writes s m)"
    using assms by (intro home_keys_outside) auto
  then show ?thesis
    using slot_writes_read[OF assms(2)] by (simp add: apply_writes_other log_phase_def)
qed

lemma log_phase_head:
  assumes "log_wf s" "m \<le> length (logged s)"
  shows "apply_writes (log_phase s @ home_writes s m) im (unat (log_start s)) = new_head s"
proof -
  have "unat (log_start s) \<notin> fst ` set (home_writes s m)"
    using assms by (intro home_keys_outside) (auto simp: log_wf_def)
  then show ?thesis by (simp add: apply_writes_other log_phase_def)
qed

lemma install_run:
  assumes j: "jinv {} s" and n: "n = length (logged s)"
  shows "for_each [0..<n] install_step (img_writes (log_phase s) s) =
    Inr ((), evict_all (logged_part s n) (img_writes (log_phase s @ home_writes s n) s))"
proof -
  let ?st = "\<lambda>i. evict_all (logged_part s i) (img_writes (log_phase s @ home_writes s i) s)"
  from j have g: "log_geom s" and w: "log_wf s" and c: "cache_inv (pins s) {} s"
    by (simp_all add: jinv_def)
  have "for_each [0..<n] install_step (?st 0) = Inr ((), ?st n)"
  proof (rule for_each_upto)
    fix i assume "i < n"
    then have i: "i < length (logged s)" "i < unat (lh_n (log_hdr s))"
      using n by (simp_all add: length_logged[OF w])
    then have "Suc i < unat (log_size s)" using w by (simp add: log_wf_def)
    note sl = log_geom_slot[OF g this] and hb = logged_nth[OF w i(2)]
    have "cache_inv (pins s - logged_part s i) {} (?st i)"
      using c by (intro cache_inv_evict_all) simp_all
    moreover have "(log_dev s, log_start s + of_nat i + 1) \<notin> pins s"
      using w sl(3) by (rule in_log_not_pinned)
    moreover have "(log_dev s, logged s ! i) \<in> pins s - logged_part s i"
      using w i hb(2) logged_part_next[of s i] by (auto simp: log_wf_def pins_def)
    ultimately have "install_step i (?st i) = Inr ((), evict (log_dev s, logged s ! i)
        (disk_write (logged s ! i) (view s (log_dev s, logged s ! i)) (?st i)))"
      using install_step_run[of "pins s - logged_part s i" "?st i" i] sl hb i
        log_phase_slot[OF w i(1), of i]
      by (simp add: home_block_def del: apply_writes_simps)
    also have "\<dots> = Inr ((), ?st (Suc i))"
      using hb i by (simp add: evict_all_step home_block_def logged_part_Suc home_writes_def)
    finally show "install_step i (?st i) = Inr ((), ?st (Suc i))" .
  qed
  then show ?thesis by (simp add: home_writes_def evict_all_empty)
qed

definition commit_result :: "'a log_state_scheme \<Rightarrow> 'a log_state_scheme" where
  "commit_result s = s\<lparr>mmap_base := apply_writes (commit_trace s) (mmap_base s),
     wtrace := wtrace s @ commit_trace s, blocks := Map.empty,
     log_hdr := (log_hdr s)\<lparr>lh_n := 0\<rparr>\<rparr>"

lemma commit_trace_eq:
  "commit_trace s = log_phase s @ home_writes s (length (logged s)) @
     [(unat (log_start s), head_block [] (new_head s))]"
  by (simp add: commit_trace_def log_phase_def Let_def)

lemma evict_pins: "cache_inv (pins s) {} s \<Longrightarrow> blocks s |` (- pins s) = Map.empty"
  by (rule ext) (simp add: restrict_map_def cache_inv_absent)

lemma commit_run:
  assumes j: "jinv {} s" and ne: "logged s \<noteq> []"
  shows "commit s = Inr ((), commit_result s)"
proof -
  from j have g: "log_geom s" and w: "log_wf s" and c: "cache_inv (pins s) {} s"
    by (simp_all add: jinv_def)
  let ?n = "length (logged s)" and ?st = "unat (log_start s)"
  have n: "unat (lh_n (log_hdr s)) = ?n" using length_logged[OF w] by simp
  with ne have pos: "lh_n (log_hdr s) > 0" by (auto simp: word_gt_0)
  have np: "(log_dev s, log_start s) \<notin> pins s"
    using w log_geom_head(2)[OF g] by (rule in_log_not_pinned)
  have head: "in_image s (log_start s)" using log_geom_head[OF g] by simp
  have "?st \<notin> fst ` set (slot_writes s ?n)" unfolding slot_keys by auto
  then have w1: "write_head (img_writes (slot_writes s ?n) s) = Inr ((), img_writes (log_phase s) s)"
    using write_head_run[of "img_writes (slot_writes s ?n) s" "pins s"] g c np w head
    by (simp add: log_wf_def apply_writes_other img_writes_snoc log_phase_def new_head_def)
  let ?t = "clear_hdr (evict_all (pins s) (img_writes (log_phase s @ home_writes s ?n) s))"
  have all: "Pair (log_dev s) ` set (logged s) = pins s" by (simp add: pins_def)
  have "cache_inv {} {} (evict_all (pins s) (img_writes (log_phase s @ home_writes s ?n) s))"
    using cache_inv_evict_all[of "pins s" "{}" "img_writes (log_phase s @ home_writes s ?n) s" "pins s"] c
    by simp
  then have c2: "cache_inv {} {} ?t" by (simp add: clear_hdr_def cache_inv_def)
  have g2: "log_geom ?t" using g by (simp add: clear_hdr_def log_geom_def)
  have w2: "write_head ?t = Inr ((), disk_write (log_start s) (head_block [] (new_head s)) ?t)"
    using write_head_run[OF g2 c2] w log_phase_head[OF w, of ?n]
    by (simp add: clear_hdr_def logged_def log_wf_def)
  have "disk_write (log_start s) (head_block [] (new_head s)) ?t = commit_result s"
    using head evict_pins[OF c]
    by (simp add: commit_result_def clear_hdr_def evict_all_def img_writes_def disk_write_def
        image_put_def commit_trace_eq)
  with pos write_log_run[OF j] w1 install_run[OF j refl] w2 show ?thesis
    by (simp add: commit_def bnd_def n all clear_hdr_def)
qed

lemma commit_empty: "log_wf s \<Longrightarrow> logged s = [] \<Longrightarrow> commit s = Inr ((), s)"
  using length_logged[of s] by (simp add: commit_def bnd_def word_gt_0 unat_eq_zero)

section \<open>The header block\<close>

lemma head_block_count: "length bs < 2 ^ 32 \<Longrightarrow> unat (get_u32 (head_block bs d) 0) = length bs"
  by (simp add: head_block_def u32c.get_put unat_of_nat)

lemma head_block_entries: "get_u32s (length bs) (head_block bs d) 4 = bs"
  by (simp add: head_block_def u32sc.get_put)

lemma head_block_empty [simp]: "get_u32 (head_block [] d) 0 = 0"
  by (simp add: head_block_def u32c.get_put)

lemma read_head_run:
  assumes g: "log_geom s" and c: "cache_inv P {} s" and np: "(log_dev s, log_start s) \<notin> P"
    and n: "n = get_u32 (mmap_base s (unat (log_start s))) 0" "unat n \<le> LOG_SIZE"
  shows "read_head s = Inr ((), s\<lparr>log_hdr := \<lparr>lh_n = n,
    lh_block = get_u32s (unat n) (mmap_base s (unat (log_start s))) 4 @
      drop (unat n) (lh_block (log_hdr s))\<rparr>\<rparr>)"
proof -
  let ?k = "(log_dev s, log_start s)" and ?d = "mmap_base s (unat (log_start s))"
  have im: "in_image s (log_start s)" using log_geom_head[OF g] by simp
  have "view s ?k = ?d" using view_absent[OF c np] im by simp
  then have r1: "block_read (log_dev s) (log_start s) s = Inr (?k, holdd ?k ?d s)"
    using block_read_hold[OF c _ im, of "log_dev s"] by simp
  have move: "(holdd ?k ?d s)\<lparr>log_hdr := x\<rparr> = holdd ?k ?d (s\<lparr>log_hdr := x\<rparr>)" for x
    by (simp add: holdd_def refcnt_of_def)
  have c1: "cache_inv P {} (s\<lparr>log_hdr := x\<rparr>)" for x using c by (simp add: cache_inv_def)
  have r2: "block_release ?k (holdd ?k ?d (s\<lparr>log_hdr := x\<rparr>)) = Inr ((), s\<lparr>log_hdr := x\<rparr>)" for x
    by (rule block_release_unpinned[OF c1]) (use np in auto)
  show ?thesis
    using r1 r2 n by (simp add: read_head_def bnd_def Let_def move)
qed

end
