(* ===== verification/Recovery.thy ===== *)
theory Recovery
  imports Crash_Safety
begin

text \<open>
  Start-up after a crash. \<open>recover_run\<close> executes \<open>recover_from_log\<close>; the lemmas that follow
  compute what recovery makes of an image that was cut off at any point of a commit or of a
  previous recovery.
\<close>

section \<open>Running recovery\<close>

lemma disk_log_keys:
  "fst ` set (disk_log start im) = unat ` set (get_u32s (unat (get_u32 (im start) 0)) (im start) 4)"
  by (simp add: disk_log_def get_u32s_def image_image)

lemma disk_log_outside:
  assumes "head_ok s im" "unat (log_start s) \<le> k" "k < unat (log_start s) + unat (log_size s)"
  shows "k \<notin> fst ` set (disk_log (unat (log_start s)) im)"
  unfolding disk_log_keys using assms
  by (auto simp: head_ok_def Let_def home_block_def in_log_def)

definition recover_result :: "'a log_state_scheme \<Rightarrow> 'a log_state_scheme" where
  "recover_result s =
     (let im = mmap_base s; start = unat (log_start s); n = unat (get_u32 (im start) 0)
      in s\<lparr>mmap_base := apply_writes (recovery_trace start im) im,
           wtrace := wtrace s @ recovery_trace start im,
           log_hdr := \<lparr>lh_n = 0,
             lh_block = get_u32s n (im start) 4 @ drop n (lh_block (log_hdr s))\<rparr>\<rparr>)"

lemma apply_writes_outside:
  "set vs \<subseteq> set ws \<Longrightarrow> k \<notin> fst ` set ws \<Longrightarrow> apply_writes vs im k = im k"
  by (rule apply_writes_other) auto

lemma recover_run:
  assumes g: "log_geom s" and c: "cache_inv {} {} s" and h: "head_ok s (mmap_base s)"
    and len: "length (lh_block (log_hdr s)) = LOG_SIZE"
  shows "recover_from_log s = Inr ((), recover_result s)"
proof -
  let ?im = "mmap_base s" and ?start = "unat (log_start s)"
  let ?L = "disk_log ?start ?im" and ?n = "get_u32 (?im ?start) 0"
  let ?hdr = "\<lparr>lh_n = ?n, lh_block = get_u32s (unat ?n) (?im ?start) 4 @
    drop (unat ?n) (lh_block (log_hdr s))\<rparr>"
  let ?s1 = "s\<lparr>log_hdr := ?hdr\<rparr>"
  from h have n: "unat ?n \<le> LOG_SIZE" "unat ?n < unat (log_size s)"
    and home: "\<And>i. i < unat ?n \<Longrightarrow> home_block s (get_u32 (?im ?start) (4 + 4 * i))"
    by (auto simp: head_ok_def Let_def get_u32s_def)
  have lenL: "length ?L = unat ?n" by (simp add: disk_log_def)
  have r1: "read_head s = Inr ((), ?s1)" using read_head_run[OF g c _ refl n(1)] by simp
  have cs: "cache_inv {} {} (img_writes ws ?s1)" for ws using c by (simp add: cache_inv_def)
  have im1: "in_image ?s1 = in_image s" by (simp add: in_image_def fun_eq_iff)
  have "for_each [0..<unat ?n] recover_step (img_writes (take 0 ?L) ?s1) =
      Inr ((), img_writes (take (unat ?n) ?L) ?s1)"
  proof (rule for_each_upto)
    fix i assume i: "i < unat ?n"
    then have "Suc i < unat (log_size s)" using n(2) by simp
    note sl = log_geom_slot[OF g this]
    let ?b = "get_u32 (?im ?start) (4 + 4 * i)"
    have hb: "in_image s ?b" "?b \<noteq> log_start s + of_nat i + 1"
      using home[OF i] sl(3) by (auto simp: home_block_def)
    have entry: "lh_block ?hdr ! i = ?b" using i by (simp add: nth_append)
    have "?start + i + 1 \<notin> fst ` set ?L" using h \<open>Suc i < _\<close> by (intro disk_log_outside) auto
    then have v: "apply_writes (take i ?L) ?im (?start + i + 1) = ?im (?start + i + 1)"
      by (rule apply_writes_outside[OF set_take_subset])
    have "recover_step i (img_writes (take i ?L) ?s1) =
        Inr ((), disk_write ?b (?im (?start + i + 1)) (img_writes (take i ?L) ?s1))"
      using recover_step_run[OF cs, of "take i ?L" i] sl hb entry v im1 by simp
    also have "\<dots> = Inr ((), img_writes (take i ?L @ [(unat ?b, ?im (?start + i + 1))]) ?s1)"
      using hb im1 by (simp add: img_writes_snoc)
    also have "take i ?L @ [(unat ?b, ?im (?start + i + 1))] = take (Suc i) ?L"
      using i lenL by (simp add: take_Suc_conv_app_nth) (simp add: disk_log_def)
    finally show "recover_step i (img_writes (take i ?L) ?s1) =
        Inr ((), img_writes (take (Suc i) ?L) ?s1)" .
  qed
  then have r2: "for_each [0..<unat ?n] recover_step ?s1 = Inr ((), img_writes ?L ?s1)"
    using lenL by simp
  let ?t = "clear_hdr (img_writes ?L ?s1)"
  have ct: "cache_inv {} {} ?t" using cs by (simp add: clear_hdr_def cache_inv_def)
  have gt: "log_geom ?t" using g by (simp add: clear_hdr_def log_geom_def)
  have "?start \<notin> fst ` set ?L" using h n by (intro disk_log_outside) auto
  then have "apply_writes ?L ?im ?start = ?im ?start" by (rule apply_writes_other)
  then have "write_head ?t = Inr ((), disk_write (log_start s) (head_block [] (?im ?start)) ?t)"
    using write_head_run[OF gt ct] n len by (simp add: clear_hdr_def logged_def)
  moreover have "disk_write (log_start s) (head_block [] (?im ?start)) ?t = recover_result s"
    using log_geom_head[OF g]
    by (simp add: recover_result_def clear_hdr_def img_writes_def disk_write_def image_put_def
        recovery_trace_def Let_def)
  ultimately show ?thesis
    using r1 r2 by (simp add: recover_from_log_def bnd_def clear_hdr_def)
qed

lemma Log_init_restart:
  assumes "log_geom s" "head_ok s im"
  shows "Log_init (log_dev s) (restart im s) = Inr ((), recover_result (restart im s))"
proof -
  have g: "log_geom (restart im s)" "head_ok (restart im s) im"
    using assms by (simp_all add: restart_def log_geom_def head_ok_def home_block_def in_image_def
        in_log_def Let_def)
  have c: "cache_inv {} {} (restart im s)" by (simp add: restart_def cache_inv_def)
  have l: "length (lh_block (log_hdr (restart im s))) = LOG_SIZE" "mmap_base (restart im s) = im"
    by (simp_all add: restart_def)
  have "(restart im s)\<lparr>log_start := sb_logstart (restart im s), log_size := sb_nlog (restart im s),
      log_dev := log_dev s\<rparr> = restart im s"
    by (simp add: restart_def)
  with recover_run[of "restart im s"] g c l show ?thesis
    by (simp add: Log_init_def bnd_def)
qed

lemma recovered_image:
  "mmap_base (recover_result (restart im s)) =
     apply_writes (recovery_trace (unat (log_start s)) im) im"
  "logged (recover_result (restart im s)) = []"
  "blocks (recover_result (restart im s)) = Map.empty"
  by (simp_all add: recover_result_def restart_def Let_def logged_def)

section \<open>Images cut off during a commit\<close>

definition header_clear :: "'a log_state_scheme \<Rightarrow> bool" where
  "header_clear s \<longleftrightarrow> get_u32 (mmap_base s (unat (log_start s))) 0 = 0"

text \<open>What recovery makes of block \<open>k\<close> of an image.\<close>

definition recovered :: "'a log_state_scheme \<Rightarrow> image \<Rightarrow> nat \<Rightarrow> bytes" where
  "recovered s im k = apply_writes (recovery_trace (unat (log_start s)) im) im k"

lemma recovered_home:
  assumes "k \<noteq> unat (log_start s)"
  shows "recovered s im k = apply_writes (disk_log (unat (log_start s)) im) im k"
  using assms by (simp add: recovered_def recovery_trace_def)

lemma recovered_empty_log:
  assumes "get_u32 (im (unat (log_start s))) 0 = 0" "k \<noteq> unat (log_start s)"
  shows "recovered s im k = im k"
  using assms by (simp add: recovered_home disk_log_def)

lemma head_ok_empty: "log_geom s \<Longrightarrow> get_u32 (im (unat (log_start s))) 0 = 0 \<Longrightarrow> head_ok s im"
  by (simp add: head_ok_def log_geom_def Let_def get_u32s_def)

lemma new_head_count:
  assumes "log_wf s"
  shows "unat (get_u32 (new_head s) 0) = length (logged s)"
proof -
  have "length (logged s) < 2 ^ 32" using assms by (simp add: log_wf_def length_logged)
  then show ?thesis by (simp add: new_head_def head_block_count)
qed

lemma head_ok_new:
  assumes "log_wf s" "im (unat (log_start s)) = new_head s"
  shows "head_ok s im"
proof -
  have "get_u32s (unat (get_u32 (new_head s) 0)) (new_head s) 4 = logged s"
    unfolding new_head_count[OF assms(1)] by (simp add: new_head_def head_block_entries)
  moreover have "unat (get_u32 (new_head s) 0) = unat (lh_n (log_hdr s))"
    using assms(1) by (simp add: new_head_count length_logged)
  ultimately show ?thesis
    using assms by (simp add: head_ok_def Let_def log_wf_def)
qed

text \<open>Once the header is on the image, the log holds exactly the writes of the transaction.\<close>

lemma disk_log_committed:
  assumes w: "log_wf s" and m: "m \<le> length (logged s)"
    and im: "im = apply_writes (log_phase s @ home_writes s m) im0"
  shows "disk_log (unat (log_start s)) im = home_writes s (length (logged s))"
proof -
  let ?start = "unat (log_start s)" and ?n = "length (logged s)"
  have hd: "im ?start = new_head s" unfolding im using w m by (rule log_phase_head)
  have n: "unat (get_u32 (im ?start) 0) = ?n" using hd new_head_count[OF w] by simp
  have "get_u32 (im ?start) (4 + 4 * i) = logged s ! i" if "i < ?n" for i
    using that arg_cong[OF head_block_entries[of "logged s"], of "\<lambda>xs. xs ! i"]
    by (simp add: hd new_head_def)
  moreover have "im (?start + i + 1) = view s (log_dev s, logged s ! i)" if "i < ?n" for i
    unfolding im using w that m by (rule log_phase_slot)
  ultimately show ?thesis
    unfolding disk_log_def home_writes_def n by (intro map_cong) auto
qed

lemma home_writes_sub: "m \<le> n \<Longrightarrow> set (home_writes s m) \<subseteq> set (home_writes s n)"
  by (auto simp: home_writes_def)

text \<open>The home writes of the transaction turn the old contents into the cached contents.\<close>

lemma home_writes_view:
  assumes j: "jinv {} s" and b: "home_block s b"
  shows "apply_writes (home_writes s (length (logged s))) (mmap_base s) (unat b) =
    view s (log_dev s, b)"
proof (cases "b \<in> set (logged s)")
  case True
  then obtain i where i: "i < length (logged s)" "b = logged s ! i" by (auto simp: in_set_conv_nth)
  let ?ws = "home_writes s (length (logged s))"
  have "distinct (logged s)" using j by (simp add: jinv_def log_wf_def)
  then have "distinct (map fst ?ws)"
    by (simp add: home_writes_take comp_def distinct_map inj_on_def unsigned_word_eqI)
  moreover have "i < length ?ws" using i by (simp add: home_writes_def)
  ultimately show ?thesis
    using img.rd_replay_nth[of ?ws i "mmap_base s"] i
    by (simp add: apply_writes_def home_writes_def)
next
  case False
  then have "unat b \<notin> fst ` set (home_writes s (length (logged s)))"
    by (auto simp: home_keys dest!: unsigned_word_eqI)
  moreover have "(log_dev s, b) \<notin> pins s" using False by (auto simp: pins_def)
  then have "view s (log_dev s, b) = mmap_base s (unat b)"
    using view_absent[of "pins s" "{}" s "(log_dev s, b)"] j b by (simp add: jinv_def home_block_def image_index_in[of s b])
  ultimately show ?thesis by (simp add: apply_writes_other)
qed

lemma log_phase_outside:
  assumes "log_wf s" "home_block s b"
  shows "unat b \<notin> fst ` set (log_phase s)"
proof -
  have "length (logged s) < unat (log_size s)" using assms(1) by (simp add: log_wf_def length_logged)
  with assms(2) show ?thesis
    by (auto simp: log_phase_def slot_keys home_block_def in_log_def)
qed

lemma home_not_start: "log_geom s \<Longrightarrow> home_block s b \<Longrightarrow> unat b \<noteq> unat (log_start s)"
  by (auto simp: home_block_def in_log_def log_geom_def)

lemma img_prefix_absorbed:
  assumes "set us \<subseteq> set ws"
  shows "apply_writes ws (apply_writes us im) = apply_writes ws im"
  unfolding apply_writes_def by (rule img.replay_absorbs_prefix) (use assms in auto)

lemma apply_writes_at_cong:
  assumes "im k = im' k"
  shows "apply_writes ws im k = apply_writes ws im' k"
  using assms by (simp add: apply_writes_def img.rd_replay split: option.splits)

text \<open>A cut before the header is written recovers the old contents.\<close>

lemma cut_before_head:
  assumes "log_geom s" "header_clear s" "set us \<subseteq> set (slot_writes s n)"
  shows "get_u32 (apply_writes us (mmap_base s) (unat (log_start s))) 0 = 0"
    "head_ok s (apply_writes us (mmap_base s))"
proof -
  have "unat (log_start s) \<notin> fst ` set (slot_writes s n)"
    unfolding slot_keys by auto
  then show z: "get_u32 (apply_writes us (mmap_base s) (unat (log_start s))) 0 = 0"
    using assms(2) apply_writes_outside[OF assms(3)] by (simp add: header_clear_def)
  from assms(1) z show "head_ok s (apply_writes us (mmap_base s))" by (rule head_ok_empty)
qed

lemma cut_before_commit:
  assumes j: "jinv {} s" and e: "header_clear s"
    and us: "set us \<subseteq> set (slot_writes s (length (logged s)))" and b: "home_block s b"
  shows "recovered s (apply_writes us (mmap_base s)) (unat b) = mmap_base s (unat b)"
proof -
  from j have g: "log_geom s" and w: "log_wf s" by (simp_all add: jinv_def)
  have "unat b \<notin> fst ` set (slot_writes s (length (logged s)))"
    using log_phase_outside[OF w b] by (auto simp: log_phase_def)
  then show ?thesis
    using cut_before_head(1)[OF g e us] home_not_start[OF g b]
    by (simp add: recovered_empty_log apply_writes_outside[OF us])
qed

text \<open>A cut after the header is written recovers the new contents.\<close>

lemma cut_after_commit:
  assumes j: "jinv {} s" and m: "m \<le> length (logged s)" and b: "home_block s b"
    and im: "im = apply_writes (log_phase s @ home_writes s m) (mmap_base s)"
  shows "head_ok s im" "recovered s im (unat b) = view s (log_dev s, b)"
proof -
  from j have g: "log_geom s" and w: "log_wf s" by (simp_all add: jinv_def)
  have "im (unat (log_start s)) = new_head s" unfolding im using w m by (rule log_phase_head)
  with w show "head_ok s im" by (rule head_ok_new)
  let ?ws = "home_writes s (length (logged s))"
  have "recovered s im (unat b) = apply_writes ?ws im (unat b)"
    using recovered_home[OF home_not_start[OF g b]] disk_log_committed[OF w m im] by simp
  also have "\<dots> = apply_writes ?ws (apply_writes (log_phase s) (mmap_base s)) (unat b)"
    using img_prefix_absorbed[OF home_writes_sub[OF m], of s] by (simp add: im)
  also have "\<dots> = apply_writes ?ws (mmap_base s) (unat b)"
    using apply_writes_other[OF log_phase_outside[OF w b]] by (rule apply_writes_at_cong)
  also have "\<dots> = view s (log_dev s, b)" using j b by (rule home_writes_view)
  finally show "recovered s im (unat b) = view s (log_dev s, b)" .
qed

section \<open>Atomicity\<close>

text \<open>The images that a process killed between two states may leave behind.\<close>

definition crash_image :: "'a log_state_scheme \<Rightarrow> 'a log_state_scheme \<Rightarrow> image \<Rightarrow> bool" where
  "crash_image s s' im \<longleftrightarrow>
     (\<exists>k. im = apply_writes (take k (drop (length (wtrace s)) (wtrace s'))) (mmap_base s))"

lemma take_log_phase_home:
  assumes "length (logged s) < k"
  shows "\<exists>m \<le> length (logged s). take k (commit_trace s) = log_phase s @ home_writes s m \<or>
    take k (commit_trace s) = commit_trace s"
proof (cases "k \<le> 2 * length (logged s) + 1")
  case True
  let ?m = "k - Suc (length (logged s))"
  have l: "length (log_phase s) = Suc (length (logged s))"
    by (simp add: log_phase_def slot_writes_def)
  have "take ?m (home_writes s (length (logged s))) = home_writes s ?m"
    using True by (simp add: home_writes_def take_map take_upt)
  moreover have "length (home_writes s (length (logged s))) = length (logged s)"
    by (simp add: home_writes_def)
  ultimately have "take k (commit_trace s) = log_phase s @ home_writes s ?m"
    using True assms l by (simp add: commit_trace_eq)
  then show ?thesis using True by (intro exI[of _ ?m]) auto
next
  case False
  have "length (commit_trace s) = 2 * length (logged s) + 2"
    by (simp add: commit_trace_def slot_writes_def home_writes_def Let_def)
  with False show ?thesis by auto
qed

lemma commit_cut:
  assumes j: "jinv {} s" and e: "header_clear s"
    and im: "im = apply_writes (take k (commit_trace s)) (mmap_base s)"
  shows "head_ok s im \<and>
    ((\<forall>b. home_block s b \<longrightarrow> recovered s im (unat b) = mmap_base s (unat b)) \<or>
     (\<forall>b. home_block s b \<longrightarrow> recovered s im (unat b) = view s (log_dev s, b)))"
proof (cases "length (logged s) < k")
  case False
  let ?us = "take k (slot_writes s (length (logged s)))"
  have "length (slot_writes s (length (logged s))) = length (logged s)"
    by (simp add: slot_writes_def)
  with False have "take k (commit_trace s) = ?us" by (simp add: commit_trace_def Let_def)
  with im have im': "im = apply_writes ?us (mmap_base s)" by simp
  have sub: "set ?us \<subseteq> set (slot_writes s (length (logged s)))" by (rule set_take_subset)
  have "log_geom s" using j by (simp add: jinv_def)
  then show ?thesis
    unfolding im' using cut_before_head(2)[OF _ e sub] cut_before_commit[OF j e sub] by blast
next
  case True
  from take_log_phase_home[OF True] obtain m where m: "m \<le> length (logged s)" and
    cases: "take k (commit_trace s) = log_phase s @ home_writes s m \<or>
      take k (commit_trace s) = commit_trace s" by auto
  from j have g: "log_geom s" and w: "log_wf s" by (simp_all add: jinv_def)
  from cases show ?thesis
  proof
    assume t: "take k (commit_trace s) = log_phase s @ home_writes s m"
    have "im (unat (log_start s)) = new_head s" unfolding im t using w m by (rule log_phase_head)
    with w have "head_ok s im" by (rule head_ok_new)
    then show ?thesis using cut_after_commit(2)[OF j m] im t by auto
  next
    assume t: "take k (commit_trace s) = commit_trace s"
    let ?ws = "home_writes s (length (logged s))"
    have eq: "im = apply_writes (commit_trace s) (mmap_base s)" unfolding im t ..
    have z: "get_u32 (im (unat (log_start s))) 0 = 0" by (simp add: eq commit_trace_eq)
    have "recovered s im (unat b) = view s (log_dev s, b)" if b: "home_block s b" for b
    proof -
      have ne: "unat b \<noteq> unat (log_start s)" using g b by (rule home_not_start)
      have "recovered s im (unat b) =
          apply_writes ?ws (apply_writes (log_phase s) (mmap_base s)) (unat b)"
        using recovered_empty_log[of im s "unat b", OF z ne] ne by (simp add: eq commit_trace_eq)
      also have "\<dots> = apply_writes ?ws (mmap_base s) (unat b)"
        using apply_writes_other[OF log_phase_outside[OF w b]] by (rule apply_writes_at_cong)
      also have "\<dots> = view s (log_dev s, b)" using j b by (rule home_writes_view)
      finally show ?thesis .
    qed
    with head_ok_empty[of s im, OF g z] show ?thesis by blast
  qed
qed


text \<open>A concrete transaction: block 50 of a 1000-block image has been overwritten with sevens.\<close>

definition demo_txn :: log_state where
  "demo_txn = \<lparr>mmap_base = \<lambda>_ _. 0, st_size = 1024000, wtrace = [],
     blocks = [(1, 50) \<mapsto> \<lparr>b_valid = True, b_locked = False, b_refcnt = 1, b_data = \<lambda>_. 7\<rparr>],
     sb_magic = FS_MAGIC, sb_size = 1000, sb_nblocks = 954, sb_ninodes = 200, sb_nlog = 30,
     sb_logstart = 2, sb_inodestart = 32, sb_bmapstart = 45,
     log_start = 2, log_size = 30, outstanding = 1, committing = False, log_dev = 1,
     log_hdr = \<lparr>lh_n = 1, lh_block = 50 # replicate 29 0\<rparr>\<rparr>"

lemma demo_txn_facts [simp]:
  "log_geom demo_txn" "logged demo_txn = [50]" "log_dev demo_txn = 1" "log_start demo_txn = 2"
  "home_block demo_txn 50" "outstanding demo_txn = 1" "\<not> committing demo_txn" "header_clear demo_txn"
  by (simp_all add: demo_txn_def log_geom_def logged_def home_block_def in_image_def in_log_def
      header_clear_def)

lemma demo_txn_jinv [simp]: "jinv {} demo_txn"
proof -
  have "log_wf demo_txn"
    by (simp add: log_wf_def) (simp add: demo_txn_def)
  moreover have "cache_inv (pins demo_txn) {} demo_txn"
    by (simp add: cache_inv_def pins_def) (simp add: demo_txn_def)
  ultimately show ?thesis by (simp add: jinv_def)
qed


section \<open>Durability\<close>

lemma view_empty_cache: "blocks s = Map.empty \<Longrightarrow> in_image s b \<Longrightarrow> view s (dev, b) = mmap_base s (unat b)"
  by (simp add: view_def)

lemma commit_result_home:
  assumes j: "jinv {} s" and b: "home_block s b"
  shows "mmap_base (commit_result s) (unat b) = view s (log_dev s, b)"
proof -
  from j have g: "log_geom s" and w: "log_wf s" by (simp_all add: jinv_def)
  let ?ws = "home_writes s (length (logged s))"
  have "mmap_base (commit_result s) (unat b) =
      apply_writes ?ws (apply_writes (log_phase s) (mmap_base s)) (unat b)"
    using home_not_start[OF g b] by (simp add: commit_result_def commit_trace_eq)
  also have "\<dots> = apply_writes ?ws (mmap_base s) (unat b)"
    using apply_writes_other[OF log_phase_outside[OF w b]] by (rule apply_writes_at_cong)
  also have "\<dots> = view s (log_dev s, b)" using j b by (rule home_writes_view)
  finally show ?thesis .
qed

lemma commit_result_inv:
  assumes "jinv {} s"
  shows "jinv {} (commit_result s)" "logged (commit_result s) = []" "header_clear (commit_result s)"
proof -
  from assms have g: "log_geom s" and w: "log_wf s" by (simp_all add: jinv_def)
  show l: "logged (commit_result s) = []" by (simp add: commit_result_def logged_def)
  have "log_geom (commit_result s)" using g by (simp add: commit_result_def log_geom_def)
  moreover have "log_wf (commit_result s)"
    using w l by (simp add: log_wf_def) (simp add: commit_result_def)
  moreover have "cache_inv (pins (commit_result s)) {} (commit_result s)"
    by (simp add: pins_def l cache_inv_def) (simp add: commit_result_def)
  ultimately show "jinv {} (commit_result s)" by (simp add: jinv_def)
  show "header_clear (commit_result s)"
    by (simp add: header_clear_def commit_result_def commit_trace_eq)
qed

lemma view_eq_disk:
  assumes "jinv {} s" "logged s = []" "in_image s b"
  shows "view s (log_dev s, b) = mmap_base s (unat b)"
proof -
  have "pins s = {}" using assms(2) by (simp add: pins_def)
  then have "blocks s (log_dev s, b) = None"
    using assms(1) cache_inv_absent[of "{}" "{}" s] by (simp add: jinv_def)
  with assms(3) show ?thesis by (simp add: view_def)
qed

text \<open>What a commit may change of the process state.\<close>

definition settle :: "image \<Rightarrow> (nat \<times> bytes) list \<Rightarrow> (BlockKey \<rightharpoonup> Block) \<Rightarrow> LogHeader \<Rightarrow>
    'a log_state_scheme \<Rightarrow> 'a log_state_scheme" where
  "settle im tr bl h s = s\<lparr>mmap_base := im, wtrace := tr, blocks := bl, log_hdr := h,
     outstanding := 0, committing := False\<rparr>"

lemma end_op_settles:
  assumes j: "jinv {} s" and o: "outstanding s = 1" and nc: "\<not> committing s" and h: "header_clear s"
  shows "\<exists>s'. end_op s = Inr ((), s') \<and> jinv {} s' \<and> outstanding s' = 0 \<and> \<not> committing s' \<and>
    header_clear s' \<and> logged s' = [] \<and>
    (\<forall>b. home_block s b \<longrightarrow> mmap_base s' (unat b) = view s (log_dev s, b) \<and>
       view s' (log_dev s', b) = view s (log_dev s, b)) \<and>
    (\<exists>im tr bl h. s' = settle im tr bl h s)"
proof -
  let ?s1 = "s\<lparr>outstanding := 0, committing := True\<rparr>"
  have same: "logged ?s1 = logged s" "log_geom ?s1 = log_geom s" "home_block ?s1 = home_block s"
    "pins ?s1 = pins s" "view ?s1 = view s" "header_clear ?s1 = header_clear s" "log_wf ?s1 = log_wf s"
    by (simp_all add: logged_def log_geom_def home_block_def in_image_def in_log_def pins_def
        view_def header_clear_def log_wf_def fun_eq_iff split: option.splits)
  have j1: "jinv {} ?s1" using j by (simp add: jinv_def same) (simp add: cache_inv_def)
  obtain t where c: "commit ?s1 = Inr ((), t)" and t: "jinv {} t" "logged t = []" "header_clear t"
    "outstanding t = 0" "log_dev t = log_dev s" "in_image t = in_image s"
    "\<exists>im tr bl h. t\<lparr>committing := False\<rparr> = settle im tr bl h s"
    and home: "\<And>b. home_block s b \<Longrightarrow> mmap_base t (unat b) = view s (log_dev s, b)"
  proof (cases "logged s = []")
    case True
    show thesis
    proof (rule that[of ?s1])
      show "commit ?s1 = Inr ((), ?s1)"
        using j1 True by (intro commit_empty) (auto simp: jinv_def same)
      show "mmap_base ?s1 (unat b) = view s (log_dev s, b)" if "home_block s b" for b
        using view_eq_disk[OF j True, of b] that by (simp add: home_block_def)
      show "\<exists>im tr bl h. ?s1\<lparr>committing := False\<rparr> = settle im tr bl h s"
        by (intro exI[of _ "mmap_base s"] exI[of _ "wtrace s"] exI[of _ "blocks s"] exI[of _ "log_hdr s"])
           (simp add: settle_def)
    qed (use j1 True h in \<open>simp_all add: same in_image_def fun_eq_iff\<close>)
  next
    case False
    show thesis
    proof (rule that[of "commit_result ?s1"])
      show "commit ?s1 = Inr ((), commit_result ?s1)"
        using j1 False by (intro commit_run) (simp_all add: same)
      show "mmap_base (commit_result ?s1) (unat b) = view s (log_dev s, b)"
        if "home_block s b" for b
        using commit_result_home[OF j1, of b] that by (simp add: same)
      show "\<exists>im tr bl h. (commit_result ?s1)\<lparr>committing := False\<rparr> = settle im tr bl h s"
        by (intro exI[of _ "mmap_base (commit_result ?s1)"] exI[of _ "wtrace (commit_result ?s1)"]
            exI[of _ "blocks (commit_result ?s1)"] exI[of _ "log_hdr (commit_result ?s1)"])
           (simp add: settle_def commit_result_def)
    qed (use commit_result_inv[OF j1] in \<open>simp_all add: commit_result_def in_image_def fun_eq_iff\<close>)
  qed
  let ?s' = "t\<lparr>committing := False\<rparr>"
  have e: "end_op s = Inr ((), ?s')" using o nc c by (simp add: end_op_def bnd_def)
  have "logged ?s' = logged t" "pins ?s' = pins t" "log_geom ?s' = log_geom t" "log_wf ?s' = log_wf t"
    "header_clear ?s' = header_clear t" "view ?s' = view t" "in_image ?s' = in_image s"
    using t(6) by (simp_all add: logged_def log_geom_def home_block_def in_image_def in_log_def pins_def
        view_def header_clear_def log_wf_def fun_eq_iff split: option.splits)
  note same' = this
  have "jinv {} ?s'" using t(1) by (simp add: jinv_def same') (simp add: cache_inv_def)
  moreover have "view ?s' (log_dev ?s', b) = view s (log_dev s, b)" if "home_block s b" for b
    using view_eq_disk[OF t(1,2), of b] home[OF that] that t by (simp add: same' home_block_def)
  ultimately show ?thesis
    using e t home by (intro exI[of _ ?s']) (simp add: same')
qed

text \<open>
  C2. Durability. The \<open>end_op\<close> that closes the last open transaction always returns; afterwards
  every block of the file system is on the image with the contents it had in the cache, readers
  still see the same contents, the log is empty in memory and on the image, and the cache
  invariant holds again.
\<close>

theorem end_op_durable:
  assumes j: "jinv {} s" and o: "outstanding s = 1" and nc: "\<not> committing s" and h: "header_clear s"
  shows "\<exists>s'. end_op s = Inr ((), s') \<and> jinv {} s' \<and> outstanding s' = 0 \<and> \<not> committing s' \<and>
    header_clear s' \<and> logged s' = [] \<and>
    (\<forall>b. home_block s b \<longrightarrow> mmap_base s' (unat b) = view s (log_dev s, b) \<and>
       view s' (log_dev s', b) = view s (log_dev s, b))"
  using end_op_settles[OF assms] by blast

theorem end_op_durable_witness:
  "jinv {} demo_txn \<and> (\<exists>s'. end_op demo_txn = Inr ((), s') \<and> jinv {} s' \<and> outstanding s' = 0 \<and>
    \<not> committing s' \<and> header_clear s' \<and> logged s' = [] \<and>
    (\<forall>b. home_block demo_txn b \<longrightarrow>
       mmap_base s' (unat b) = view demo_txn (log_dev demo_txn, b) \<and>
       view s' (log_dev s', b) = view demo_txn (log_dev demo_txn, b)))"
  by (intro conjI end_op_durable) simp_all

section \<open>Crashes during recovery\<close>

lemma restart_trace:
  "wtrace (restart im s) = []" "mmap_base (restart im s) = im"
  "wtrace (recover_result (restart im s)) = recovery_trace (unat (log_start s)) im"
  by (simp_all add: restart_def recover_result_def Let_def)

text \<open>Replaying a prefix of the log leaves the log itself alone.\<close>

lemma disk_log_prefix:
  assumes "head_ok s im" "set us \<subseteq> set (disk_log (unat (log_start s)) im)"
  shows "apply_writes us im (unat (log_start s)) = im (unat (log_start s))"
    "disk_log (unat (log_start s)) (apply_writes us im) = disk_log (unat (log_start s)) im"
proof -
  let ?start = "unat (log_start s)"
  have out: "apply_writes us im k = im k"
    if "?start \<le> k" "k < ?start + unat (log_size s)" for k
    by (rule apply_writes_outside[OF assms(2) disk_log_outside[OF assms(1) that]])
  have n: "unat (get_u32 (im ?start) 0) < unat (log_size s)"
    using assms(1) by (simp add: head_ok_def Let_def)
  then show hd: "apply_writes us im ?start = im ?start" by (intro out) auto
  show "disk_log ?start (apply_writes us im) = disk_log ?start im"
    unfolding disk_log_def hd using n by (intro map_cong refl) (auto simp: out)
qed

lemma recovery_cut:
  assumes g: "log_geom s" and h: "head_ok s im" and b: "home_block s b"
    and im': "im' = apply_writes (take k (recovery_trace (unat (log_start s)) im)) im"
  shows "recovered s im' (unat b) = recovered s im (unat b)"
proof (cases "k \<le> length (disk_log (unat (log_start s)) im)")
  case True
  let ?L = "disk_log (unat (log_start s)) im"
  have t: "im' = apply_writes (take k ?L) im" using True im' by (simp add: recovery_trace_def)
  have "recovered s im' (unat b) = apply_writes ?L (apply_writes (take k ?L) im) (unat b)"
    using recovered_home[OF home_not_start[OF g b]] disk_log_prefix(2)[OF h set_take_subset]
    by (simp add: t)
  also have "\<dots> = apply_writes ?L im (unat b)"
    by (simp add: img_prefix_absorbed[OF set_take_subset])
  also have "\<dots> = recovered s im (unat b)"
    using recovered_home[OF home_not_start[OF g b]] by simp
  finally show ?thesis .
next
  case False
  then have "take k (recovery_trace (unat (log_start s)) im) = recovery_trace (unat (log_start s)) im"
    by (simp add: recovery_trace_def)
  then have eq: "im' = apply_writes (recovery_trace (unat (log_start s)) im) im" using im' by simp
  have "get_u32 (im' (unat (log_start s))) 0 = 0" by (simp add: eq recovery_trace_def)
  then show ?thesis
    using recovered_empty_log[of im' s "unat b"] home_not_start[OF g b]
    by (simp add: eq recovered_def)
qed

lemma recovery_cut_head:
  assumes g: "log_geom s" and h: "head_ok s im"
    and im': "im' = apply_writes (take k (recovery_trace (unat (log_start s)) im)) im"
  shows "head_ok s im'"
proof (cases "k \<le> length (disk_log (unat (log_start s)) im)")
  case True
  then have "im' (unat (log_start s)) = im (unat (log_start s))"
    using im' disk_log_prefix(1)[OF h set_take_subset] by (simp add: recovery_trace_def)
  with h show ?thesis by (simp add: head_ok_def)
next
  case False
  then have "im' = apply_writes (recovery_trace (unat (log_start s)) im) im"
    using im' by (simp add: recovery_trace_def)
  then have "get_u32 (im' (unat (log_start s))) 0 = 0" by (simp add: recovery_trace_def)
  with g show ?thesis by (rule head_ok_empty)
qed

text \<open>
  C3. Recovery can be interrupted. On every image whose log header is well formed the start-up
  code returns, and if the process is killed between two block transfers of the recovery, the
  start-up of the next process returns too and gives every block of the file system the contents
  that the uninterrupted recovery would have given it. (\<open>op_init\<close> runs the recovery twice; this
  is the case of an interruption after the last transfer.)
\<close>

theorem recovery_restartable:
  assumes "log_geom s" "head_ok s im"
  shows "\<exists>r. Log_init (log_dev s) (restart im s) = Inr ((), r) \<and> header_clear r \<and>
    (\<forall>im'. crash_image (restart im s) r im' \<longrightarrow>
      (\<exists>r'. Log_init (log_dev s) (restart im' s) = Inr ((), r') \<and> header_clear r' \<and>
        (\<forall>b. home_block s b \<longrightarrow> mmap_base r' (unat b) = mmap_base r (unat b))))"
proof -
  let ?r = "\<lambda>im. recover_result (restart im s)"
  have clear: "header_clear (?r im)" for im
    by (simp add: header_clear_def recover_result_def restart_def recovery_trace_def Let_def)
  have run: "Log_init (log_dev s) (restart im s) = Inr ((), ?r im)" if "head_ok s im" for im
    using assms(1) that by (rule Log_init_restart)
  have "Log_init (log_dev s) (restart im' s) = Inr ((), ?r im') \<and>
      (\<forall>b. home_block s b \<longrightarrow> mmap_base (?r im') (unat b) = mmap_base (?r im) (unat b))"
    if c: "crash_image (restart im s) (?r im) im'" for im'
  proof -
    from c obtain k where im': "im' = apply_writes (take k (recovery_trace (unat (log_start s)) im)) im"
      by (auto simp: crash_image_def restart_trace)
    show ?thesis
      using run[OF recovery_cut_head[OF assms im']] recovery_cut[OF assms _ im']
      by (simp add: recovered_image recovered_def)
  qed
  with run[OF assms(2)] clear show ?thesis by blast
qed

text \<open>An image with a committed log: its header names block 50.\<close>

definition demo_image :: image where
  "demo_image = (\<lambda>_ _. 0)(2 := head_block [50] (\<lambda>_. 0), 3 := (\<lambda>_. 9))"

lemma demo_image_ok: "head_ok demo_txn demo_image"
proof -
  have "unat (get_u32 (head_block [50] (\<lambda>_. 0)) 0) = 1"
    using head_block_count[of "[50]" "\<lambda>_. 0"] by simp
  moreover have "get_u32s 1 (head_block [50] (\<lambda>_. 0)) 4 = [50]"
    using head_block_entries[of "[50]" "\<lambda>_. 0"] by simp
  ultimately show ?thesis
    by (simp add: head_ok_def demo_image_def Let_def) (simp add: demo_txn_def)
qed

theorem recovery_restartable_witness:
  "log_geom demo_txn \<and> head_ok demo_txn demo_image \<and>
   (\<exists>r. Log_init (log_dev demo_txn) (restart demo_image demo_txn) = Inr ((), r) \<and> header_clear r \<and>
    (\<forall>im'. crash_image (restart demo_image demo_txn) r im' \<longrightarrow>
      (\<exists>r'. Log_init (log_dev demo_txn) (restart im' demo_txn) = Inr ((), r') \<and> header_clear r' \<and>
        (\<forall>b. home_block demo_txn b \<longrightarrow> mmap_base r' (unat b) = mmap_base r (unat b)))))"
  by (intro conjI recovery_restartable demo_image_ok) simp_all

end
