(* ===== verification/Log_Protocol.thy ===== *)
theory Log_Protocol
  imports Recovery
begin

text \<open>
  The log shared by several threads: \<open>begin_op\<close>, \<open>log_write\<close> and \<open>end_op\<close> of \<open>src/Log.cxx\<close> as steps of a
  transition system. Every critical section of \<open>Log::mtx\<close> is one step. A thread that finds no space
  sleeps on the condition variable until a \<open>notify_all\<close>; the thread that ends the last operation
  commits outside the mutex, while \<open>committing\<close> keeps the others out.

  The state keeps the recorded block numbers, the counters and, for every thread, where it is; a
  running operation carries the ghost set of the blocks it recorded, and \<open>K\<close> bounds its size. That
  the operations of \<open>Journal\<close> make these steps is shown first.
\<close>

section \<open>The transition system\<close>

datatype phase = Idle | Waiting | Woken | InOp "u32 set" | Committer

record prot =
  pr_log :: "u32 list"
  pr_out :: nat
  pr_committing :: bool
  pr_phase :: "nat \<Rightarrow> phase"

definition pr_blocked :: "prot \<Rightarrow> bool" where
  "pr_blocked s \<longleftrightarrow> pr_committing s \<or>
     length (pr_log s) + (pr_out s + 1) * MAX_OP_BLOCKS > LOG_SIZE"

definition wake :: "(nat \<Rightarrow> phase) \<Rightarrow> nat \<Rightarrow> phase" where
  "wake ph = (\<lambda>t. if ph t = Waiting then Woken else ph t)"

definition pr_begin :: "nat \<Rightarrow> prot \<Rightarrow> prot" where
  "pr_begin t s = (if pr_blocked s then s\<lparr>pr_phase := (pr_phase s)(t := Waiting)\<rparr>
     else s\<lparr>pr_out := pr_out s + 1, pr_phase := (pr_phase s)(t := InOp {})\<rparr>)"

text \<open>Recording a block, and the assertion that there is space for it in a log of \<open>sz\<close> blocks.\<close>

definition pr_room :: "nat \<Rightarrow> prot \<Rightarrow> bool" where
  "pr_room sz s \<longleftrightarrow> length (pr_log s) < LOG_SIZE \<and> length (pr_log s) < sz - 1"

definition add_block :: "u32 \<Rightarrow> u32 list \<Rightarrow> u32 list" where
  "add_block b bs = (if b \<in> set bs then bs else bs @ [b])"

definition pr_write :: "nat \<Rightarrow> u32 set \<Rightarrow> u32 \<Rightarrow> prot \<Rightarrow> prot" where
  "pr_write t B b s = s\<lparr>pr_log := add_block b (pr_log s),
     pr_phase := (pr_phase s)(t := InOp (insert b B))\<rparr>"

definition pr_end :: "nat \<Rightarrow> prot \<Rightarrow> prot" where
  "pr_end t s = (if pr_out s = 1
     then s\<lparr>pr_out := 0, pr_committing := True, pr_phase := (pr_phase s)(t := Committer)\<rparr>
     else s\<lparr>pr_out := pr_out s - 1, pr_phase := wake ((pr_phase s)(t := Idle))\<rparr>)"

definition pr_commit :: "nat \<Rightarrow> prot \<Rightarrow> prot" where
  "pr_commit t s = s\<lparr>pr_log := [], pr_committing := False,
     pr_phase := wake ((pr_phase s)(t := Idle))\<rparr>"

inductive log_step :: "nat \<Rightarrow> prot \<Rightarrow> prot \<Rightarrow> bool" for K where
  Begin: "pr_phase s t = Idle \<or> pr_phase s t = Woken \<Longrightarrow> log_step K s (pr_begin t s)"
| Write: "pr_phase s t = InOp B \<Longrightarrow> card (insert b B) \<le> K \<Longrightarrow> log_step K s (pr_write t B b s)"
| End: "pr_phase s t = InOp B \<Longrightarrow> log_step K s (pr_end t s)"
| Commit: "pr_phase s t = Committer \<Longrightarrow> log_step K s (pr_commit t s)"

definition prot_start :: prot where
  "prot_start = \<lparr>pr_log = [], pr_out = 0, pr_committing = False, pr_phase = (\<lambda>_. Idle)\<rparr>"

definition reachable :: "nat \<Rightarrow> prot \<Rightarrow> bool" where
  "reachable K s \<longleftrightarrow> (log_step K)\<^sup>*\<^sup>* prot_start s"

section \<open>The code makes these steps\<close>

text \<open>The part of the state of the log that the protocol is about.\<close>

definition abs_log :: "'a log_state_scheme \<Rightarrow> u32 list \<times> nat \<times> bool" where
  "abs_log s = (logged s, unat (outstanding s), committing s)"

definition pr_shared :: "prot \<Rightarrow> u32 list \<times> nat \<times> bool" where
  "pr_shared p = (pr_log p, pr_out p, pr_committing p)"

lemma length_logged_n: "log_wf s \<Longrightarrow> length (logged s) = unat (lh_n (log_hdr s))"
  by (simp add: logged_def log_wf_def)

lemma begin_op_step:
  assumes wf: "log_wf s" and sh: "abs_log s = pr_shared p" and small: "pr_out p < 1000"
  shows "pr_blocked p \<Longrightarrow> begin_op s = Inl Deadlock"
    and "\<not> pr_blocked p \<Longrightarrow> \<exists>s'. begin_op s = Inr ((), s') \<and> abs_log s' = pr_shared (pr_begin t p) \<and> log_wf s'"
proof -
  have o: "unat (outstanding s) = pr_out p" and l: "unat (lh_n (log_hdr s)) = length (pr_log p)"
    and c: "committing s = pr_committing p" and lg: "logged s = pr_log p"
    using sh length_logged_n[OF wf] by (simp_all add: abs_log_def pr_shared_def)
  have "unat (lh_n (log_hdr s)) \<le> 30" using wf by (simp add: log_wf_def)
  then have "unat (lh_n (log_hdr s) + (outstanding s + 1) * 10) = unat (lh_n (log_hdr s)) + (pr_out p + 1) * 10"
    using o small by (simp add: unat_word_ariths)
  then have b: "lh_n (log_hdr s) + (outstanding s + 1) * 10 > 30 \<longleftrightarrow> length (pr_log p) + (pr_out p + 1) * 10 > 30"
    using l by (simp add: word_less_nat_alt)
  show "begin_op s = Inl Deadlock" if "pr_blocked p"
    using that b c by (auto simp: begin_op_def pr_blocked_def bnd_def)
  show "\<exists>s'. begin_op s = Inr ((), s') \<and> abs_log s' = pr_shared (pr_begin t p) \<and> log_wf s'" if "\<not> pr_blocked p"
  proof (intro exI[of _ "s\<lparr>outstanding := outstanding s + 1\<rparr>"] conjI)
    show "begin_op s = Inr ((), s\<lparr>outstanding := outstanding s + 1\<rparr>)"
      using that b c by (simp add: begin_op_def pr_blocked_def bnd_def)
    have "unat (outstanding s + 1) = pr_out p + 1" using o small by (simp add: unat_word_ariths)
    then show "abs_log (s\<lparr>outstanding := outstanding s + 1\<rparr>) = pr_shared (pr_begin t p)"
      using that lg c by (simp add: abs_log_def pr_shared_def pr_begin_def logged_def)
    show "log_wf (s\<lparr>outstanding := outstanding s + 1\<rparr>)"
      using wf by (simp add: log_wf_def logged_def home_block_def in_log_def in_image_def)
  qed
qed

lemma log_write_step:
  assumes j: "jinv H s" and k: "(log_dev s, b) \<notin> H" and hb: "home_block s b"
    and sh: "abs_log s = pr_shared p" and r: "pr_room (unat (log_size s)) p" and o: "1 \<le> pr_out p"
  shows "\<exists>s'. log_write (log_dev s, b) (holdd (log_dev s, b) d s) = Inr ((), holdd (log_dev s, b) d s') \<and>
    abs_log s' = pr_shared (pr_write t B b p)"
proof -
  have wf: "log_wf s" and g: "log_geom s" using j by (simp_all add: jinv_def)
  have l: "unat (lh_n (log_hdr s)) = length (pr_log p)" "logged s = pr_log p"
    and oo: "unat (outstanding s) = pr_out p" "committing s = pr_committing p"
    using sh length_logged_n[OF wf] by (simp_all add: abs_log_def pr_shared_def)
  have "unat (log_size s - 1) = unat (log_size s) - 1"
    using g by (intro unat_minus_one) (auto simp: log_geom_def)
  then have lr: "log_room s"
    using r l oo(1) o by (auto simp: log_room_def pr_room_def word_less_nat_alt word_le_nat_alt)
  show ?thesis
    using log_write_hold[OF j refl k lr, of d] logged_logd[OF wf lr g, of b d] l oo
    by (intro exI[of _ "logd b d s"])
       (simp add: abs_log_def pr_shared_def pr_write_def add_block_def logd_fields)
qed

lemma end_op_step:
  assumes sh: "abs_log s = pr_shared p" and o: "1 < pr_out p" and c: "\<not> pr_committing p"
  shows "\<exists>s'. end_op s = Inr ((), s') \<and> abs_log s' = pr_shared (pr_end t p)"
proof -
  have oo: "unat (outstanding s) = pr_out p" "logged s = pr_log p" "committing s = pr_committing p"
    using sh by (simp_all add: abs_log_def pr_shared_def)
  have "outstanding s \<noteq> 0" using oo(1) o by auto
  then have u: "unat (outstanding s - 1) = pr_out p - 1" using oo(1) by (simp add: unat_minus_one)
  then have "outstanding s - 1 \<noteq> 0" using o by auto
  then show ?thesis
    using oo c u o by (intro exI[of _ "s\<lparr>outstanding := outstanding s - 1\<rparr>"])
      (auto simp: end_op_def bnd_def abs_log_def pr_shared_def pr_end_def logged_def)
qed

lemma end_op_commit_step:
  assumes j: "jinv {} s" and h: "header_clear s" and sh: "abs_log s = pr_shared p"
    and o: "pr_out p = 1" and c: "\<not> pr_committing p"
  shows "\<exists>s'. end_op s = Inr ((), s') \<and> abs_log s' = pr_shared (pr_commit t (pr_end t p))"
proof -
  have "unat (outstanding s) = 1" using sh o by (simp add: abs_log_def pr_shared_def)
  then have "outstanding s = 1" by (metis unat_1 word_unat_eq_iff)
  moreover have "\<not> committing s" using sh c by (simp add: abs_log_def pr_shared_def)
  ultimately obtain s' where "end_op s = Inr ((), s')" "outstanding s' = 0" "\<not> committing s'" "logged s' = []"
    using end_op_settles[OF j] h by blast
  then show ?thesis
    using o by (intro exI[of _ s']) (simp add: abs_log_def pr_shared_def pr_end_def pr_commit_def)
qed

section \<open>Invariant\<close>

definition active :: "prot \<Rightarrow> nat set" where
  "active s = {t. \<exists>B. pr_phase s t = InOp B}"

fun spent :: "phase \<Rightarrow> nat" where
  "spent (InOp B) = card B"
| "spent _ = 0"

text \<open>What the running operations may still record, and the largest number of recorded blocks.\<close>

definition reserve :: "nat \<Rightarrow> prot \<Rightarrow> nat" where
  "reserve K s = (\<Sum>t\<in>active s. K - spent (pr_phase s t))"

definition limit :: "nat \<Rightarrow> nat" where
  "limit K = (if K < MAX_OP_BLOCKS then LOG_SIZE - 2 else LOG_SIZE)"

definition counts_ok :: "nat \<Rightarrow> prot \<Rightarrow> bool" where
  "counts_ok K s \<longleftrightarrow> finite (active s) \<and> card (active s) = pr_out s \<and> pr_out s \<le> 3 \<and>
     length (pr_log s) + reserve K s \<le> limit K"

definition blocks_ok :: "nat \<Rightarrow> prot \<Rightarrow> bool" where
  "blocks_ok K s \<longleftrightarrow> distinct (pr_log s) \<and>
     (\<forall>t B. pr_phase s t = InOp B \<longrightarrow> B \<subseteq> set (pr_log s) \<and> card B \<le> K)"

definition commit_ok :: "prot \<Rightarrow> bool" where
  "commit_ok s \<longleftrightarrow> (pr_committing s \<longrightarrow> pr_out s = 0) \<and>
     (\<forall>t t'. pr_phase s t = Committer \<longrightarrow> pr_phase s t' = Committer \<longrightarrow> t = t') \<and>
     ((\<exists>t. pr_phase s t = Committer) \<longleftrightarrow> pr_committing s) \<and>
     (pr_out s = 0 \<longrightarrow> \<not> pr_committing s \<longrightarrow> pr_log s = [])"

definition sleepers_ok :: "prot \<Rightarrow> bool" where
  "sleepers_ok s \<longleftrightarrow> (\<forall>t. pr_phase s t = Waiting \<longrightarrow> pr_blocked s)"

definition prot_inv :: "nat \<Rightarrow> prot \<Rightarrow> bool" where
  "prot_inv K s \<longleftrightarrow> counts_ok K s \<and> blocks_ok K s \<and> commit_ok s \<and> sleepers_ok s"

lemmas prot_inv_defs = prot_inv_def counts_ok_def blocks_ok_def commit_ok_def sleepers_ok_def

lemma wake_cases [simp]:
  "wake ph t = Waiting \<longleftrightarrow> False" "wake ph t = InOp B \<longleftrightarrow> ph t = InOp B"
  "wake ph t = Committer \<longleftrightarrow> ph t = Committer" "wake ph t = Idle \<longleftrightarrow> ph t = Idle"
  "spent (wake ph t) = spent (ph t)"
  by (auto simp: wake_def)

lemma reserve_split:
  assumes "finite (active s)" "t \<in> active s"
  shows "reserve K s = (K - spent (pr_phase s t)) +
    (\<Sum>u\<in>active s - {t}. K - spent (pr_phase s u))"
  using assms by (simp add: reserve_def sum.remove)

lemma reserve_le: "finite (active s) \<Longrightarrow> reserve K s \<le> card (active s) * K"
  using sum_bounded_above[of "active s" "\<lambda>t. K - spent (pr_phase s t)" K]
  by (simp add: reserve_def)

lemma prot_inv_start: "prot_inv K prot_start"
  by (simp add: prot_inv_defs prot_start_def active_def reserve_def limit_def)

lemma counts_begin:
  assumes i: "counts_ok K s" "commit_ok s" and t: "pr_phase s t = Idle \<or> pr_phase s t = Woken" and K: "K \<le> MAX_OP_BLOCKS"
  shows "counts_ok K (pr_begin t s)"
proof (cases "pr_blocked s")
  case True
  have a: "active (pr_begin t s) = active s" using True t by (auto simp: active_def pr_begin_def)
  have "reserve K (pr_begin t s) = reserve K s"
    unfolding reserve_def a by (rule sum.cong) (use True t in \<open>auto simp: pr_begin_def active_def\<close>)
  with a i True show ?thesis by (simp add: counts_ok_def) (simp add: pr_begin_def)
next
  case False
  have a: "active (pr_begin t s) = insert t (active s)" using False by (auto simp: active_def pr_begin_def)
  have t': "t \<notin> active s" using t by (auto simp: active_def)
  have fin: "finite (active s)" "card (active s) = pr_out s" using i by (simp_all add: counts_ok_def)
  have "(\<Sum>u\<in>active s. K - spent (pr_phase (pr_begin t s) u)) = reserve K s"
    unfolding reserve_def by (rule sum.cong) (use False t' in \<open>auto simp: pr_begin_def\<close>)
  then have res: "reserve K (pr_begin t s) = K + reserve K s"
    unfolding reserve_def[of K "pr_begin t s"] a using fin t' False by (simp add: pr_begin_def)
  have g: "length (pr_log s) + (pr_out s + 1) * MAX_OP_BLOCKS \<le> LOG_SIZE" and nc: "\<not> pr_committing s"
    using False by (simp_all add: pr_blocked_def)
  have le: "length (pr_log s) + (K + reserve K s) \<le> limit K"
  proof (cases "pr_out s = 0")
    case True
    then have "pr_log s = []" using i(2) nc by (simp add: commit_ok_def)
    then show ?thesis using True K reserve_le[OF fin(1), of K] fin(2) by (simp add: limit_def)
  next
    case pos: False
    have "K + reserve K s \<le> (pr_out s + 1) * K" using reserve_le[OF fin(1), of K] fin(2) by simp
    moreover have "(pr_out s + 1) * K \<le> (pr_out s + 1) * 10" using K by (rule mult_le_mono2)
    moreover have "(pr_out s + 1) * K + 2 \<le> (pr_out s + 1) * 10" if "K \<le> 9"
    proof -
      have "(pr_out s + 1) * K \<le> (pr_out s + 1) * 9" using that by (rule mult_le_mono2)
      then show ?thesis using pos by simp
    qed
    ultimately show ?thesis using g by (auto simp: limit_def)
  qed
  show ?thesis
    using a fin t' False g le res by (simp add: counts_ok_def) (simp add: pr_begin_def)
qed

lemma counts_write:
  assumes i: "counts_ok K s" "blocks_ok K s" and t: "pr_phase s t = InOp B" "card (insert b B) \<le> K" and K: "K \<le> MAX_OP_BLOCKS"
  shows "counts_ok K (pr_write t B b s)"
proof -
  have fin: "finite (active s)" "card (active s) = pr_out s" using i by (simp_all add: counts_ok_def)
  have a: "active (pr_write t B b s) = active s" "t \<in> active s"
    using t by (auto simp: active_def pr_write_def)
  have "(\<Sum>u\<in>active s - {t}. K - spent (pr_phase (pr_write t B b s) u)) =
      (\<Sum>u\<in>active s - {t}. K - spent (pr_phase s u))"
    by (rule sum.cong) (auto simp: pr_write_def)
  then have r: "reserve K (pr_write t B b s) + (K - card B) = reserve K s + (K - card (insert b B))"
    using reserve_split[of s t K] reserve_split[of "pr_write t B b s" t K] fin a t by (simp add: pr_write_def)
  have B: "B \<subseteq> set (pr_log s)" using i(2) t(1) by (auto simp: blocks_ok_def)
  then have fB: "finite B" using finite_subset by auto
  have "length (pr_log (pr_write t B b s)) + reserve K (pr_write t B b s) \<le> length (pr_log s) + reserve K s"
  proof (cases "b \<in> set (pr_log s)")
    case True
    have "card B \<le> card (insert b B)" using fB by (simp add: card_insert_le)
    with True show ?thesis using r by (simp add: pr_write_def add_block_def)
  next
    case False
    then have "b \<notin> B" using B by auto
    then have "card (insert b B) = Suc (card B)" using fB by simp
    then show ?thesis using r False t(2) K by (simp add: pr_write_def add_block_def)
  qed
  then show ?thesis using i(1) a by (simp add: counts_ok_def) (simp add: pr_write_def)
qed

lemma reserve_remove:
  assumes a: "active s' = active s - {t}" and f: "finite (active s)"
    and p: "\<And>u. u \<noteq> t \<Longrightarrow> spent (pr_phase s' u) = spent (pr_phase s u)"
  shows "reserve K s' \<le> reserve K s"
proof -
  have "reserve K s' = (\<Sum>u\<in>active s - {t}. K - spent (pr_phase s u))"
    unfolding reserve_def a by (rule sum.cong) (use p in auto)
  also have "\<dots> \<le> reserve K s" unfolding reserve_def by (rule sum_mono2) (use f in auto)
  finally show ?thesis .
qed

lemma counts_end:
  assumes i: "counts_ok K s" and t: "pr_phase s t = InOp B"
  shows "counts_ok K (pr_end t s)"
proof -
  have fin: "finite (active s)" "card (active s) = pr_out s" and ta: "t \<in> active s"
    using i t by (auto simp: counts_ok_def active_def)
  have a: "active (pr_end t s) = active s - {t}" by (auto simp: active_def pr_end_def)
  have "reserve K (pr_end t s) \<le> reserve K s"
    using a fin(1) by (rule reserve_remove) (auto simp: pr_end_def)
  moreover have "pr_out (pr_end t s) = pr_out s - 1" "pr_log (pr_end t s) = pr_log s"
    by (simp_all add: pr_end_def)
  moreover have le3: "pr_out s \<le> 3" and "length (pr_log s) + reserve K s \<le> limit K"
    using i by (simp_all add: counts_ok_def)
  moreover have "pr_out s - 1 \<le> 3" using le3 by linarith
  ultimately show ?thesis using a fin ta by (simp add: counts_ok_def)
qed

lemma counts_commit:
  assumes i: "counts_ok K s" and t: "pr_phase s t = Committer"
  shows "counts_ok K (pr_commit t s)"
proof -
  have a: "active (pr_commit t s) = active s - {t}" "t \<notin> active s"
    using t by (auto simp: active_def pr_commit_def)
  have "reserve K (pr_commit t s) \<le> reserve K s"
    using a(1) i by (intro reserve_remove) (auto simp: pr_commit_def counts_ok_def)
  then show ?thesis using i a by (simp add: counts_ok_def) (simp add: pr_commit_def)
qed

lemma active_out: "counts_ok K s \<Longrightarrow> pr_phase s t = InOp B \<Longrightarrow> 0 < pr_out s"
proof -
  assume i: "counts_ok K s" and t: "pr_phase s t = InOp B"
  then have "active s \<noteq> {}" by (auto simp: active_def)
  with i show "0 < pr_out s" using card_gt_0_iff[of "active s"] by (simp add: counts_ok_def)
qed

lemma committer_upd:
  "ph t \<noteq> Committer \<Longrightarrow> x \<noteq> Committer \<Longrightarrow> ((ph(t := x)) u = Committer) = (ph u = Committer)"
  by simp

lemma pr_blocked_more:
  "pr_blocked s \<Longrightarrow> pr_blocked (s\<lparr>pr_phase := ph\<rparr>)"
  "pr_blocked s \<Longrightarrow> pr_blocked (s\<lparr>pr_out := pr_out s + 1, pr_phase := ph\<rparr>)"
  "pr_blocked s \<Longrightarrow> pr_blocked (s\<lparr>pr_log := add_block b (pr_log s), pr_phase := ph\<rparr>)"
  by (auto simp: pr_blocked_def add_block_def)

lemma prot_inv_begin:
  assumes i: "prot_inv K s" and t: "pr_phase s t = Idle \<or> pr_phase s t = Woken" and K: "K \<le> MAX_OP_BLOCKS"
  shows "prot_inv K (pr_begin t s)"
proof -
  have "counts_ok K (pr_begin t s)" using i t K by (simp add: prot_inv_def counts_begin)
  moreover have "blocks_ok K (pr_begin t s)"
    using i by (auto simp: prot_inv_def blocks_ok_def pr_begin_def)
  moreover have "commit_ok (pr_begin t s)"
    using i t unfolding prot_inv_def commit_ok_def pr_begin_def pr_blocked_def
    by (auto simp: committer_upd simp del: fun_upd_apply)
  moreover have "sleepers_ok (pr_begin t s)"
    using i by (auto simp: prot_inv_def sleepers_ok_def pr_begin_def intro: pr_blocked_more)
  ultimately show ?thesis by (simp add: prot_inv_def)
qed

lemma prot_inv_write:
  assumes i: "prot_inv K s" and t: "pr_phase s t = InOp B" "card (insert b B) \<le> K" and K: "K \<le> MAX_OP_BLOCKS"
  shows "prot_inv K (pr_write t B b s)"
proof -
  have "counts_ok K (pr_write t B b s)" using i t K by (intro counts_write) (simp_all add: prot_inv_def)
  moreover have "blocks_ok K (pr_write t B b s)"
    using i t unfolding prot_inv_def blocks_ok_def
    by (auto simp: pr_write_def add_block_def split: if_splits)
  moreover have "0 < pr_out s" using i t active_out[of K s t B] by (simp add: prot_inv_def)
  then have "commit_ok (pr_write t B b s)"
    using i t unfolding prot_inv_def commit_ok_def pr_write_def
    by (auto simp: committer_upd simp del: fun_upd_apply)
  moreover have "sleepers_ok (pr_write t B b s)"
    using i by (auto simp: prot_inv_def sleepers_ok_def pr_write_def intro: pr_blocked_more)
  ultimately show ?thesis by (simp add: prot_inv_def)
qed

lemma prot_inv_end:
  assumes i: "prot_inv K s" and t: "pr_phase s t = InOp B"
  shows "prot_inv K (pr_end t s)"
proof -
  have o: "0 < pr_out s" using i t active_out[of K s t B] by (simp add: prot_inv_def)
  have nc: "\<not> pr_committing s" "\<And>u. pr_phase s u \<noteq> Committer"
    using i o by (auto simp: prot_inv_def commit_ok_def)
  have "counts_ok K (pr_end t s)" using i t by (auto simp: prot_inv_def intro: counts_end)
  moreover have "blocks_ok K (pr_end t s)"
    using i by (auto simp: prot_inv_def blocks_ok_def pr_end_def)
  moreover have "commit_ok (pr_end t s)"
    using nc o by (auto simp: commit_ok_def pr_end_def)
  moreover have "sleepers_ok (pr_end t s)"
    by (auto simp: sleepers_ok_def pr_end_def pr_blocked_def)
  ultimately show ?thesis by (simp add: prot_inv_def)
qed

lemma prot_inv_commit:
  assumes i: "prot_inv K s" and t: "pr_phase s t = Committer"
  shows "prot_inv K (pr_commit t s)"
proof -
  have c: "pr_committing s" "pr_out s = 0" "\<And>u. pr_phase s u = Committer \<Longrightarrow> u = t"
    using i t by (auto simp: prot_inv_def commit_ok_def)
  have none: "pr_phase s u \<noteq> InOp B" for u B
    using active_out[of K s u B] i c(2) by (auto simp: prot_inv_def)
  have "counts_ok K (pr_commit t s)" using i t by (auto simp: prot_inv_def intro: counts_commit)
  moreover have "blocks_ok K (pr_commit t s)"
    using none by (auto simp: blocks_ok_def pr_commit_def)
  moreover have "commit_ok (pr_commit t s)"
    using c by (auto simp: commit_ok_def pr_commit_def)
  moreover have "sleepers_ok (pr_commit t s)"
    by (auto simp: sleepers_ok_def pr_commit_def)
  ultimately show ?thesis by (simp add: prot_inv_def)
qed

lemma prot_inv_step: "log_step K s s' \<Longrightarrow> K \<le> MAX_OP_BLOCKS \<Longrightarrow> prot_inv K s \<Longrightarrow> prot_inv K s'"
  by (induction rule: log_step.induct)
     (blast intro: prot_inv_begin prot_inv_write prot_inv_end prot_inv_commit)+

lemma prot_inv_reachable:
  assumes "reachable K s" "K \<le> MAX_OP_BLOCKS"
  shows "prot_inv K s"
  using assms(1) unfolding reachable_def
  by (induction rule: rtranclp_induct) (use assms(2) prot_inv_start prot_inv_step in blast)+

section \<open>Progress\<close>

lemma waiting_has_waker:
  assumes i: "prot_inv K s" and b: "pr_blocked s"
  shows "\<exists>t. (\<exists>B. pr_phase s t = InOp B) \<or> pr_phase s t = Committer"
proof (cases "pr_out s = 0")
  case True
  with i b have "pr_committing s" by (auto simp: prot_inv_def commit_ok_def pr_blocked_def)
  with i show ?thesis by (auto simp: prot_inv_def commit_ok_def)
next
  case False
  with i have "active s \<noteq> {}" by (auto simp: prot_inv_def counts_ok_def)
  then show ?thesis by (auto simp: active_def)
qed

text \<open>Work left before nothing blocks: the running operations and the commit.\<close>

definition busy :: "prot \<Rightarrow> nat" where
  "busy s = 2 * pr_out s + (if pr_committing s then 1 else 0)"

lemma drain_step:
  assumes i: "prot_inv K s" and b: "pr_blocked s"
    and t: "pr_phase s t = Waiting \<or> pr_phase s t = Woken \<or> pr_phase s t = Idle"
  shows "\<exists>s'. log_step K s s' \<and> busy s' < busy s \<and>
    (pr_phase s' t = Waiting \<or> pr_phase s' t = Woken \<or> pr_phase s' t = Idle)"
proof -
  obtain u where u: "(\<exists>B. pr_phase s u = InOp B) \<or> pr_phase s u = Committer"
    using waiting_has_waker[OF i b] by blast
  have ut: "u \<noteq> t" using u t by auto
  show ?thesis
  proof (cases "pr_phase s u = Committer")
    case True
    then have "pr_committing s" using i by (auto simp: prot_inv_def commit_ok_def)
    then show ?thesis
      using log_step.Commit[OF True, of K] t ut
      by (intro exI[of _ "pr_commit u s"]) (auto simp: busy_def pr_commit_def wake_def)
  next
    case False
    then obtain B where B: "pr_phase s u = InOp B" using u by blast
    then have o: "0 < pr_out s" "\<not> pr_committing s"
      using i active_out[of K s u B] by (auto simp: prot_inv_def commit_ok_def)
    then show ?thesis
      using log_step.End[OF B, of K] t ut
      by (intro exI[of _ "pr_end u s"]) (auto simp: busy_def pr_end_def wake_def)
  qed
qed

lemma drain:
  assumes "prot_inv K s" "K \<le> MAX_OP_BLOCKS"
    and "pr_phase s t = Waiting \<or> pr_phase s t = Woken \<or> pr_phase s t = Idle"
  shows "\<exists>s'. (log_step K)\<^sup>*\<^sup>* s s' \<and> \<not> pr_blocked s' \<and> (pr_phase s' t = Woken \<or> pr_phase s' t = Idle)"
  using assms
proof (induction "busy s" arbitrary: s rule: less_induct)
  case less
  show ?case
  proof (cases "pr_blocked s")
    case False
    then have "pr_phase s t = Woken \<or> pr_phase s t = Idle"
      using less.prems by (auto simp: prot_inv_def sleepers_ok_def)
    with False show ?thesis by blast
  next
    case True
    obtain s1 where s1: "log_step K s s1" "busy s1 < busy s"
      "pr_phase s1 t = Waiting \<or> pr_phase s1 t = Woken \<or> pr_phase s1 t = Idle"
      using drain_step[OF less.prems(1) True less.prems(3)] by blast
    have "prot_inv K s1" using prot_inv_step[OF s1(1) less.prems(2,1)] .
    with less.hyps[OF s1(2)] s1(3) less.prems(2) obtain s' where
      "(log_step K)\<^sup>*\<^sup>* s1 s'" "\<not> pr_blocked s'" "pr_phase s' t = Woken \<or> pr_phase s' t = Idle" by blast
    with s1(1) show ?thesis by (meson converse_rtranclp_into_rtranclp)
  qed
qed

section \<open>Properties\<close>

text \<open>
  C17: the log protocol under any interleaving of threads, when an operation records at most
  \<open>MAX_OP_BLOCKS\<close> blocks. \<open>outstanding\<close> counts the running operations and is at most three, no block is
  recorded twice and the header never holds more than \<open>LOG_SIZE\<close> blocks; no operation runs during a
  commit, so the assertion of \<open>end_op\<close> holds, and one thread commits at a time.
\<close>

theorem log_protocol_invariant:
  assumes "reachable K s" "K \<le> MAX_OP_BLOCKS"
  shows "card {t. \<exists>B. pr_phase s t = InOp B} = pr_out s \<and> pr_out s \<le> 3 \<and>
    distinct (pr_log s) \<and> length (pr_log s) \<le> LOG_SIZE \<and>
    (\<forall>t B. pr_phase s t = InOp B \<longrightarrow> \<not> pr_committing s) \<and>
    (pr_committing s \<longrightarrow> (\<exists>!t. pr_phase s t = Committer))"
proof -
  have i: "prot_inv K s" by (rule prot_inv_reachable[OF assms])
  have "\<not> pr_committing s" if "pr_phase s t = InOp B" for t B
    using i active_out[of K s t B] that by (auto simp: prot_inv_def commit_ok_def)
  moreover have "limit K \<le> LOG_SIZE" by (simp add: limit_def)
  ultimately show ?thesis
    using i by (auto simp: prot_inv_defs active_def)
qed

lemma begin_reach:
  "(log_step K)\<^sup>*\<^sup>* a s \<Longrightarrow> pr_phase s t = Idle \<or> pr_phase s t = Woken \<Longrightarrow> (log_step K)\<^sup>*\<^sup>* a (pr_begin t s)"
  by (meson log_step.Begin rtranclp.rtrancl_into_rtrancl)

lemma reachable_begin: "reachable K (pr_begin 0 prot_start)"
  unfolding reachable_def by (rule begin_reach) (simp_all add: prot_start_def)

theorem log_protocol_invariant_witness:
  "reachable 10 (pr_begin 0 prot_start) \<and> pr_out (pr_begin 0 prot_start) = 1 \<and>
   card {t. \<exists>B. pr_phase (pr_begin 0 prot_start) t = InOp B} = 1"
  using log_protocol_invariant[OF reachable_begin[of 10]] reachable_begin[of 10]
  by (simp add: pr_begin_def pr_blocked_def prot_start_def)

text \<open>
  C18: no operation that records fewer than \<open>MAX_OP_BLOCKS\<close> blocks ever fails the assertion
  \<open>too big a transaction\<close> of \<open>log_write\<close>, on an image with the \<open>LOG_SIZE\<close> log blocks of \<open>mkfs\<close>, whatever
  the other threads do and however many operations one commit collects.
\<close>

theorem log_space_suffices:
  assumes "reachable K s" "K < MAX_OP_BLOCKS"
  shows "pr_room LOG_SIZE s"
proof -
  have "prot_inv K s" using prot_inv_reachable[of K s] assms by simp
  then show ?thesis using assms(2) by (simp add: prot_inv_defs limit_def pr_room_def)
qed

theorem log_space_suffices_witness:
  "reachable 9 (pr_begin 0 prot_start) \<and> pr_room LOG_SIZE (pr_begin 0 prot_start)"
  using log_space_suffices[OF reachable_begin[of 9]] reachable_begin[of 9] by simp

lemma writes_reach:
  assumes "pr_phase s t = InOp B" "finite B" "card (B \<union> set bs) \<le> K"
  shows "(log_step K)\<^sup>*\<^sup>* s (s\<lparr>pr_log := fold add_block bs (pr_log s),
    pr_phase := (pr_phase s)(t := InOp (B \<union> set bs))\<rparr>)"
  using assms
proof (induction bs arbitrary: s B)
  case Nil
  then have eq: "s\<lparr>pr_log := fold add_block [] (pr_log s), pr_phase := (pr_phase s)(t := InOp (B \<union> set []))\<rparr> = s"
    by (simp add: fun_upd_idem)
  show ?case unfolding eq by (rule rtranclp.rtrancl_refl)
next
  case (Cons b bs)
  have "card (insert b B) \<le> card (B \<union> set (b # bs))" using Cons.prems by (intro card_mono) auto
  then have st: "log_step K s (pr_write t B b s)" using Cons.prems by (intro log_step.Write) auto
  have "(log_step K)\<^sup>*\<^sup>* (pr_write t B b s) ((pr_write t B b s)\<lparr>pr_log := fold add_block bs (pr_log (pr_write t B b s)),
    pr_phase := (pr_phase (pr_write t B b s))(t := InOp (insert b B \<union> set bs))\<rparr>)"
    using Cons.prems by (intro Cons.IH) (auto simp: pr_write_def)
  with st have "(log_step K)\<^sup>*\<^sup>* s ((pr_write t B b s)\<lparr>pr_log := fold add_block bs (pr_log (pr_write t B b s)),
    pr_phase := (pr_phase (pr_write t B b s))(t := InOp (insert b B \<union> set bs))\<rparr>)"
    by (rule converse_rtranclp_into_rtranclp)
  then show ?case by (simp add: pr_write_def del: fun_upd_apply)
qed

text \<open>
  C19: a full reservation is one block short. \<open>begin_op\<close> admits three operations of \<open>MAX_OP_BLOCKS\<close>
  blocks each, but one of the \<open>LOG_SIZE\<close> blocks on the image is the header: there is a run in which
  every operation stays within \<open>MAX_OP_BLOCKS\<close> and the assertion of \<open>log_write\<close> fails for one that
  still has a block to record.
\<close>

theorem log_space_one_short:
  "\<exists>s t B b. reachable MAX_OP_BLOCKS s \<and> pr_phase s t = InOp B \<and> b \<notin> set (pr_log s) \<and>
     card (insert b B) \<le> MAX_OP_BLOCKS \<and> \<not> pr_room LOG_SIZE s"
proof -
  let ?A = "[0,1,2,3,4,5,6,7,8,9] :: u32 list" and ?B = "[10,11,12,13,14,15,16,17,18,19] :: u32 list"
    and ?C = "[20,21,22,23,24,25,26,27,28] :: u32 list"
  let ?s0 = "\<lparr>pr_log = [], pr_out = 3, pr_committing = False,
    pr_phase = (\<lambda>_. Idle)(0 := InOp {}, 1 := InOp {}, 2 := InOp {})\<rparr>"
  let ?s1 = "?s0\<lparr>pr_log := ?A, pr_phase := (pr_phase ?s0)(0 := InOp (set ?A))\<rparr>"
  let ?s2 = "?s1\<lparr>pr_log := ?A @ ?B, pr_phase := (pr_phase ?s1)(1 := InOp (set ?B))\<rparr>"
  let ?s3 = "?s2\<lparr>pr_log := ?A @ ?B @ ?C, pr_phase := (pr_phase ?s2)(2 := InOp (set ?C))\<rparr>"
  have s0: "?s0 = pr_begin 2 (pr_begin 1 (pr_begin 0 prot_start))"
    by (simp add: pr_begin_def pr_blocked_def prot_start_def)
  have r0: "(log_step 10)\<^sup>*\<^sup>* prot_start ?s0"
    unfolding s0
    by (intro begin_reach rtranclp.rtrancl_refl)
       (simp_all add: pr_begin_def pr_blocked_def prot_start_def)
  have r1: "(log_step 10)\<^sup>*\<^sup>* ?s0 ?s1"
    using writes_reach[of ?s0 0 "{}" ?A 10] by (simp add: add_block_def)
  have r2: "(log_step 10)\<^sup>*\<^sup>* ?s1 ?s2"
    using writes_reach[of ?s1 1 "{}" ?B 10] by (simp add: add_block_def)
  have r3: "(log_step 10)\<^sup>*\<^sup>* ?s2 ?s3"
    using writes_reach[of ?s2 2 "{}" ?C 10] by (simp add: add_block_def)
  have "reachable 10 ?s3"
    unfolding reachable_def by (rule rtranclp_trans[OF rtranclp_trans[OF rtranclp_trans[OF r0 r1] r2] r3])
  then show ?thesis
    by (intro exI[of _ ?s3] exI[of _ 2] exI[of _ "set ?C"] exI[of _ 29]) (simp add: pr_room_def)
qed

text \<open>
  C20: no operation waits for ever for lack of a wake-up. A thread that sleeps in \<open>begin_op\<close> sleeps
  because the log is full or being committed, then some thread is in an operation or commits, and
  when those end the sleeper is woken and finds space: from every reachable state there is a run
  into its operation.
\<close>

theorem begin_op_progress:
  assumes "reachable K s" "K \<le> MAX_OP_BLOCKS" "pr_phase s t = Waiting \<or> pr_phase s t = Woken"
  shows "(pr_phase s t = Waiting \<longrightarrow> pr_blocked s \<and>
      (\<exists>u. (\<exists>B. pr_phase s u = InOp B) \<or> pr_phase s u = Committer)) \<and>
    (\<exists>s'. (log_step K)\<^sup>*\<^sup>* s s' \<and> pr_phase s' t = InOp {})"
proof
  have i: "prot_inv K s" by (rule prot_inv_reachable[OF assms(1,2)])
  show "pr_phase s t = Waiting \<longrightarrow> pr_blocked s \<and>
      (\<exists>u. (\<exists>B. pr_phase s u = InOp B) \<or> pr_phase s u = Committer)"
    using i waiting_has_waker[OF i] by (auto simp: prot_inv_def sleepers_ok_def)
  obtain s1 where s1: "(log_step K)\<^sup>*\<^sup>* s s1" "\<not> pr_blocked s1" "pr_phase s1 t = Woken \<or> pr_phase s1 t = Idle"
    using drain[OF i assms(2), of t] assms(3) by blast
  have "log_step K s1 (pr_begin t s1)" using s1(3) by (intro log_step.Begin) blast
  moreover have "pr_phase (pr_begin t s1) t = InOp {}" using s1(2) by (simp add: pr_begin_def)
  ultimately show "\<exists>s'. (log_step K)\<^sup>*\<^sup>* s s' \<and> pr_phase s' t = InOp {}"
    using s1(1) by (meson rtranclp.rtrancl_into_rtrancl)
qed

definition demo_wait :: prot where
  "demo_wait = pr_begin 3 (pr_begin 2 (pr_begin 1 (pr_begin 0 prot_start)))"

theorem begin_op_progress_witness:
  "pr_phase demo_wait 3 = Waiting \<and> (\<exists>s'. (log_step 10)\<^sup>*\<^sup>* demo_wait s' \<and> pr_phase s' 3 = InOp {})"
proof -
  have "reachable 10 demo_wait"
    unfolding reachable_def demo_wait_def
    by (intro begin_reach rtranclp.rtrancl_refl)
       (simp_all add: pr_begin_def pr_blocked_def prot_start_def)
  moreover have "pr_phase demo_wait 3 = Waiting"
    by (simp add: demo_wait_def pr_begin_def pr_blocked_def prot_start_def)
  ultimately show ?thesis using begin_op_progress[of 10 demo_wait 3] by simp
qed

text \<open>
  C21: the code refines the protocol. In a state whose log agrees with a protocol state, \<open>begin_op\<close>
  waits exactly when the protocol blocks and otherwise makes its step; \<open>log_write\<close> of a held block
  records it as the protocol does; \<open>end_op\<close> makes the end step and, for the last operation, also the
  commit step.
\<close>

theorem log_refines_protocol:
  assumes j: "jinv {} s" and h: "header_clear s" and sh: "abs_log s = pr_shared p" and o: "pr_out p \<le> 3"
  shows "(if pr_blocked p then begin_op s = Inl Deadlock
      else \<exists>s'. begin_op s = Inr ((), s') \<and> abs_log s' = pr_shared (pr_begin t p)) \<and>
    (home_block s b \<and> pr_room (unat (log_size s)) p \<and> 1 \<le> pr_out p \<longrightarrow>
      (\<exists>s'. log_write (log_dev s, b) (holdd (log_dev s, b) d s) = Inr ((), holdd (log_dev s, b) d s') \<and>
        abs_log s' = pr_shared (pr_write t B b p))) \<and>
    (1 < pr_out p \<and> \<not> pr_committing p \<longrightarrow>
      (\<exists>s'. end_op s = Inr ((), s') \<and> abs_log s' = pr_shared (pr_end t p))) \<and>
    (pr_out p = 1 \<and> \<not> pr_committing p \<longrightarrow>
      (\<exists>s'. end_op s = Inr ((), s') \<and> abs_log s' = pr_shared (pr_commit t (pr_end t p))))"
proof -
  have wf: "log_wf s" using j by (simp add: jinv_def)
  show ?thesis
    using begin_op_step(1)[OF wf sh] begin_op_step(2)[OF wf sh, of t] o log_write_step[OF j _ _ sh, where b = b and t = t and B = B and d = d] end_op_step[OF sh, of t]
      end_op_commit_step[OF j h sh, of t]
    by auto
qed

theorem log_refines_protocol_witness:
  "\<exists>p. abs_log demo_txn = pr_shared p \<and> pr_out p = 1 \<and>
     (\<exists>s'. end_op demo_txn = Inr ((), s') \<and> abs_log s' = pr_shared (pr_commit 0 (pr_end 0 p)))"
proof -
  let ?p = "pr_write 0 {} 50 (pr_begin 0 prot_start)"
  have p: "pr_out ?p = 1" "\<not> pr_committing ?p" "pr_log ?p = [50]"
    by (simp_all add: pr_write_def pr_begin_def pr_blocked_def prot_start_def add_block_def)
  then have "abs_log demo_txn = pr_shared ?p" by (simp add: abs_log_def pr_shared_def)
  then show ?thesis using log_refines_protocol[OF demo_txn_jinv, of ?p 0] p by (intro exI[of _ ?p]) simp
qed

end
