(* ===== verification/Bitmap_Alloc.thy ===== *)
theory Bitmap_Alloc
  imports Recovery
begin

text \<open>
  The block allocator of \<open>src/fs.cxx\<close>: one bit per block of the image in the bitmap blocks.
  \<open>used s x\<close> is the bit of block \<open>x\<close> as the running transaction sees it. The lemmas give the
  exact result of \<open>block_alloc\<close> and \<open>block_free\<close> as logged writes.
\<close>

section \<open>Operations\<close>

definition BIT_BLOCK :: "'a log_state_scheme \<Rightarrow> nat \<Rightarrow> u32" where
  "BIT_BLOCK s b = of_nat (b div BIT_PER_BLOCK) + sb_bmapstart s"

definition block_zeroed :: "u32 \<Rightarrow> u32 \<Rightarrow> (unit, 'a log_state_scheme) m" where
  "block_zeroed dev bno =
     bnd (block_read dev bno) (\<lambda>bp.
     bnd (set_block_data bp (\<lambda>_. 0)) (\<lambda>_.
     bnd (log_write bp) (\<lambda>_.
     block_release bp)))"

definition bit_mask :: "nat \<Rightarrow> byte" where
  "bit_mask bi = push_bit (bi mod 8) 1"

text \<open>The inner loop of \<open>block_alloc\<close>: the first clear bit of a bitmap block from \<open>bi\<close> on.\<close>

function alloc_scan :: "bytes \<Rightarrow> nat \<Rightarrow> nat \<Rightarrow> nat \<Rightarrow> nat option" where
  "alloc_scan d b sz bi =
     (if bi < BIT_PER_BLOCK \<and> b + bi < sz
      then if d (bi div 8) AND bit_mask bi = 0 then Some bi else alloc_scan d b sz (Suc bi)
      else None)"
  by pat_completeness auto
termination
  by (relation "measure (\<lambda>(d, b, sz, bi). BIT_PER_BLOCK - bi)") auto

declare alloc_scan.simps [simp del]

function block_alloc_loop :: "u32 \<Rightarrow> nat \<Rightarrow> nat \<Rightarrow> (u32, 'a log_state_scheme) m" where
  "block_alloc_loop dev sz b =
     (if b < sz then
        bnd (gets (\<lambda>s. BIT_BLOCK s b)) (\<lambda>bb.
        bnd (block_read dev bb) (\<lambda>bp.
        bnd (block_data bp) (\<lambda>d.
        case alloc_scan d b sz 0 of
          Some bi \<Rightarrow>
            bnd (set_block_data bp (d(bi div 8 := d (bi div 8) OR bit_mask bi))) (\<lambda>_.
            bnd (log_write bp) (\<lambda>_.
            bnd (block_release bp) (\<lambda>_.
            bnd (block_zeroed dev (of_nat (b + bi))) (\<lambda>_.
            ret (of_nat (b + bi))))))
        | None \<Rightarrow>
            bnd (block_release bp) (\<lambda>_.
            block_alloc_loop dev sz (b + BIT_PER_BLOCK)))))
      else ret 0)"
  by pat_completeness auto
termination
  by (relation "measure (\<lambda>(dev, sz, b). sz - b)") auto

declare block_alloc_loop.simps [simp del]

definition block_alloc :: "u32 \<Rightarrow> (u32, 'a log_state_scheme) m" where
  "block_alloc dev = bnd (gets (\<lambda>s. unat (sb_size s))) (\<lambda>sz. block_alloc_loop dev sz 0)"

definition block_free :: "u32 \<Rightarrow> u32 \<Rightarrow> (unit, 'a log_state_scheme) m" where
  "block_free dev b =
     bnd (gets (\<lambda>s. BIT_BLOCK s (unat b))) (\<lambda>bb.
     bnd (block_read dev bb) (\<lambda>bp.
     bnd (block_data bp) (\<lambda>d.
     let bi = unat b mod BIT_PER_BLOCK in
     bnd (assert_that ''freeing free block'' (d (bi div 8) AND bit_mask bi \<noteq> 0)) (\<lambda>_.
     bnd (set_block_data bp (d(bi div 8 := d (bi div 8) AND NOT (bit_mask bi)))) (\<lambda>_.
     bnd (log_write bp) (\<lambda>_.
     block_release bp))))))"

section \<open>The bitmap\<close>

definition bm_bit :: "bytes \<Rightarrow> nat \<Rightarrow> bool" where
  "bm_bit d i = bit (d (i div 8)) (i mod 8)"

definition used :: "'a log_state_scheme \<Rightarrow> nat \<Rightarrow> bool" where
  "used s x = bm_bit (view s (log_dev s, BIT_BLOCK s x)) (x mod BIT_PER_BLOCK)"

text \<open>First block after the bitmap.\<close>

definition data_start :: "'a log_state_scheme \<Rightarrow> nat" where
  "data_start s = unat (sb_bmapstart s) + (unat (sb_size s) - 1) div BIT_PER_BLOCK + 1"

text \<open>The layout of a file system: log, inode blocks, bitmap and data in this order, on the image.\<close>

definition fs_geom :: "'a log_state_scheme \<Rightarrow> bool" where
  "fs_geom s \<longleftrightarrow> 0 < unat (sb_size s) \<and> unat (sb_size s) \<le> 2 ^ 22 \<and>
     unat (sb_size s) * BSIZE \<le> st_size s \<and>
     unat (log_start s) + unat (log_size s) \<le> unat (sb_inodestart s) \<and>
     unat (sb_inodestart s) + unat (sb_ninodes s) div INODE_PER_BLOCK < unat (sb_bmapstart s) \<and>
     data_start s \<le> unat (sb_size s)"

definition meta_used :: "'a log_state_scheme \<Rightarrow> bool" where
  "meta_used s \<longleftrightarrow> (\<forall>x < data_start s. used s x)"

text \<open>Space for \<open>k\<close> more blocks in the running transaction.\<close>

definition room :: "'a log_state_scheme \<Rightarrow> nat \<Rightarrow> bool" where
  "room s k \<longleftrightarrow> unat (lh_n (log_hdr s)) + k \<le> LOG_SIZE \<and>
     unat (lh_n (log_hdr s)) + k < unat (log_size s) \<and> outstanding s \<ge> 1"

definition alloc_result :: "nat \<Rightarrow> 'a log_state_scheme \<Rightarrow> 'a log_state_scheme" where
  "alloc_result x s =
     (let bb = BIT_BLOCK s x; d = view s (log_dev s, bb); bi = x mod BIT_PER_BLOCK
      in logd (of_nat x) (\<lambda>_. 0)
           (logd bb (d(bi div 8 := d (bi div 8) OR bit_mask bi)) s))"

definition free_result :: "nat \<Rightarrow> 'a log_state_scheme \<Rightarrow> 'a log_state_scheme" where
  "free_result x s =
     (let bb = BIT_BLOCK s x; d = view s (log_dev s, bb); bi = x mod BIT_PER_BLOCK
      in logd bb (d(bi div 8 := d (bi div 8) AND NOT (bit_mask bi))) s)"

section \<open>Bits\<close>

lemma bit_mask_test: "w AND bit_mask i = 0 \<longleftrightarrow> \<not> bit w (i mod 8)"
  by (simp add: bit_mask_def bit_iff_and_push_bit_not_eq_0)

lemma bit_or_mask: "bit (w OR bit_mask i) j \<longleftrightarrow> bit w j \<or> j = i mod 8"
  by (auto simp: bit_mask_def bit_simps)

lemma bit_and_not_mask: "j < 8 \<Longrightarrow> bit (w AND NOT (bit_mask i)) j \<longleftrightarrow> bit w j \<and> j \<noteq> i mod 8"
  by (auto simp: bit_mask_def bit_simps)

lemma same_bit: "i div 8 = j div 8 \<Longrightarrow> i mod 8 = j mod 8 \<Longrightarrow> i = (j :: nat)"
  by (metis div_mult_mod_eq)

lemma bm_bit_set:
  "bm_bit (d(bi div 8 := d (bi div 8) OR bit_mask bi)) i \<longleftrightarrow> bm_bit d i \<or> i = bi"
  by (auto simp: bm_bit_def bit_or_mask dest: same_bit)

lemma bm_bit_clear:
  "bm_bit (d(bi div 8 := d (bi div 8) AND NOT (bit_mask bi))) i \<longleftrightarrow> bm_bit d i \<and> i \<noteq> bi"
  by (auto simp: bm_bit_def bit_and_not_mask dest: same_bit)

lemma bm_bit_test: "d (bi div 8) AND bit_mask bi = 0 \<longleftrightarrow> \<not> bm_bit d bi"
  by (simp add: bm_bit_def bit_mask_test)

lemma alloc_scan_Some:
  "alloc_scan d b sz bi = Some j \<Longrightarrow>
     bi \<le> j \<and> j < BIT_PER_BLOCK \<and> b + j < sz \<and> \<not> bm_bit d j \<and>
     (\<forall>i. bi \<le> i \<and> i < j \<longrightarrow> bm_bit d i)"
proof (induction d b sz bi rule: alloc_scan.induct)
  case (1 d b sz bi)
  show ?case
  proof (cases "(bi < BIT_PER_BLOCK \<and> b + bi < sz) \<and> bm_bit d bi")
    case True
    with "1.prems" have "alloc_scan d b sz (Suc bi) = Some j"
      by (simp add: alloc_scan.simps[of d b sz bi] bm_bit_test)
    with True "1.IH" have "Suc bi \<le> j \<and> j < BIT_PER_BLOCK \<and> b + j < sz \<and> \<not> bm_bit d j \<and>
        (\<forall>i. Suc bi \<le> i \<and> i < j \<longrightarrow> bm_bit d i)"
      by (simp add: bm_bit_test)
    with True show ?thesis by (metis Suc_leD Suc_le_eq le_neq_implies_less)
  next
    case False
    with "1.prems" show ?thesis
      by (auto simp: alloc_scan.simps[of d b sz bi] bm_bit_test split: if_splits)
  qed
qed

lemma alloc_scan_None:
  "alloc_scan d b sz bi = None \<Longrightarrow>
     bi \<le> i \<Longrightarrow> i < BIT_PER_BLOCK \<Longrightarrow> b + i < sz \<Longrightarrow> bm_bit d i"
proof (induction d b sz bi rule: alloc_scan.induct)
  case (1 d b sz bi)
  from "1.prems" have g: "bi < BIT_PER_BLOCK \<and> b + bi < sz" by simp
  with "1.prems"(1) have b: "bm_bit d bi" and n: "alloc_scan d b sz (Suc bi) = None"
    by (simp_all add: alloc_scan.simps[of d b sz bi] bm_bit_test split: if_splits)
  show ?case
  proof (cases "i = bi")
    case False
    with "1.IH" g b n "1.prems" show ?thesis by (simp add: bm_bit_test)
  qed (use b in simp)
qed

section \<open>Geometry\<close>

lemma room_log_room: "room s (Suc k) \<Longrightarrow> log_geom s \<Longrightarrow> log_room s"
proof -
  assume r: "room s (Suc k)" and g: "log_geom s"
  have "unat (log_size s - 1) = unat (log_size s) - 1"
    using g by (intro unat_minus_one) (auto simp: log_geom_def)
  moreover have "unat (lh_n (log_hdr s)) < 30" "unat (lh_n (log_hdr s)) < unat (log_size s) - 1"
    using r by (auto simp: room_def)
  ultimately show "log_room s"
    using r by (simp add: room_def log_room_def word_less_nat_alt)
qed

lemma room_logd: "room s (Suc k) \<Longrightarrow> log_geom s \<Longrightarrow> room (logd b d s) k"
  using room_log_room[of s k] log_room_sizes[of s]
  by (auto simp: room_def logd_def add_log_def)

lemma room_logd_same: "room s k \<Longrightarrow> b \<in> set (logged s) \<Longrightarrow> room (logd b d s) k"
  by (simp add: room_def logd_def add_log_def)

lemma room_le: "room s k \<Longrightarrow> l \<le> k \<Longrightarrow> room s l"
  by (simp add: room_def)

lemma sb_fields_logd [simp]:
  "sb_size (logd b d s) = sb_size s" "sb_bmapstart (logd b d s) = sb_bmapstart s"
  "sb_inodestart (logd b d s) = sb_inodestart s" "sb_ninodes (logd b d s) = sb_ninodes s"
  by (simp_all add: logd_def setd_def add_log_def)

lemma sb_fields_holdd [simp]:
  "sb_size (holdd k d s) = sb_size s" "sb_bmapstart (holdd k d s) = sb_bmapstart s"
  "sb_inodestart (holdd k d s) = sb_inodestart s" "sb_ninodes (holdd k d s) = sb_ninodes s"
  by (simp_all add: holdd_def)

lemma geom_logd [simp]:
  "BIT_BLOCK (logd b d s) = BIT_BLOCK s" "data_start (logd b d s) = data_start s"
  "fs_geom (logd b d s) = fs_geom s"
  by (simp_all add: BIT_BLOCK_def data_start_def fs_geom_def fun_eq_iff)

lemma geom_holdd [simp]:
  "BIT_BLOCK (holdd k d s) = BIT_BLOCK s" "data_start (holdd k d s) = data_start s"
  "fs_geom (holdd k d s) = fs_geom s"
  by (simp_all add: BIT_BLOCK_def data_start_def fs_geom_def fun_eq_iff)

lemma block_number_home:
  assumes "fs_geom s" "unat (sb_inodestart s) \<le> x" "x < unat (sb_size s)" "unat b = x"
  shows "home_block s b"
  using assms by (auto simp: home_block_def in_image_def in_log_def fs_geom_def)

lemma unat_block_number: "x < 2 ^ 22 \<Longrightarrow> unat (of_nat x :: u32) = x"
  by (simp add: unat_of_nat)

lemma BIT_BLOCK_home:
  assumes "fs_geom s" "x < unat (sb_size s)"
  shows "unat (BIT_BLOCK s x) = unat (sb_bmapstart s) + x div BIT_PER_BLOCK"
    "unat (BIT_BLOCK s x) < data_start s" "home_block s (BIT_BLOCK s x)"
proof -
  have le: "x div 8192 \<le> (unat (sb_size s) - 1) div 8192"
    using assms(2) by (intro div_le_mono) simp
  with assms have lt: "unat (sb_bmapstart s) + x div 8192 < data_start s"
    by (simp add: data_start_def)
  with assms(1) have small: "unat (sb_bmapstart s) + x div 8192 < 2 ^ 22"
    by (simp add: fs_geom_def)
  then have q: "unat (of_nat (x div 8192) :: u32) = x div 8192"
    by (intro unat_block_number) simp
  have "unat (of_nat (x div 8192) :: u32) + unat (sb_bmapstart s) < 2 ^ LENGTH(32)"
    unfolding q using small by simp
  then have "unat (BIT_BLOCK s x) = unat (of_nat (x div 8192) :: u32) + unat (sb_bmapstart s)"
    unfolding BIT_BLOCK_def by (rule unat_add_lem[THEN iffD1])
  with q show u: "unat (BIT_BLOCK s x) = unat (sb_bmapstart s) + x div BIT_PER_BLOCK" by simp
  with lt show "unat (BIT_BLOCK s x) < data_start s" by simp
  with u assms(1) show "home_block s (BIT_BLOCK s x)"
    by (intro block_number_home[OF assms(1) _ _ refl]) (auto simp: fs_geom_def)
qed

lemma BIT_BLOCK_same:
  assumes "fs_geom s" "x < unat (sb_size s)" "y < unat (sb_size s)" "BIT_BLOCK s x = BIT_BLOCK s y"
  shows "x div 8192 = y div 8192"
  using BIT_BLOCK_home(1)[OF assms(1,2)] BIT_BLOCK_home(1)[OF assms(1,3)] assms(4) by simp

section \<open>Allocation\<close>

lemma block_zeroed_run:
  assumes "jinv H s" "dev = log_dev s" "home_block s b" "(dev, b) \<notin> H" "log_room s"
  shows "block_zeroed dev b s = Inr ((), logd b (\<lambda>_. 0) s)"
proof -
  have "in_image s b" using assms(3) by (simp add: home_block_def)
  then show ?thesis
    using assms block_read_j[OF assms(1,4)] log_write_hold[OF assms(1), of "(dev, b)" b "\<lambda>_. 0"]
      log_write_release[OF assms(1), of "(dev, b)" b "\<lambda>_. 0"]
    by (simp add: block_zeroed_def bnd_def)
qed

text \<open>
  The scan over the bitmap blocks from a block boundary on: the state is unchanged while full
  bitmap blocks are passed, and the first free block found is marked and zeroed.
\<close>

definition held_apart :: "BlockKey set \<Rightarrow> 'a log_state_scheme \<Rightarrow> bool" where
  "held_apart H s \<longleftrightarrow> (\<forall>x < unat (sb_size s). (log_dev s, BIT_BLOCK s x) \<notin> H) \<and>
     (\<forall>x < unat (sb_size s). \<not> used s x \<longrightarrow> (log_dev s, of_nat x) \<notin> H)"

lemma free_is_data: "meta_used s \<Longrightarrow> \<not> used s x \<Longrightarrow> data_start s \<le> x"
  by (metis meta_used_def not_less)

lemma data_home:
  assumes "fs_geom s" "data_start s \<le> x" "x < unat (sb_size s)"
  shows "home_block s (of_nat x)" "unat (of_nat x :: u32) = x"
proof -
  show u: "unat (of_nat x :: u32) = x"
    using assms by (intro unat_block_number) (simp add: fs_geom_def)
  show "home_block s (of_nat x)"
    by (rule block_number_home[OF assms(1) _ assms(3) u])
       (use assms in \<open>simp add: fs_geom_def data_start_def\<close>)
qed

lemma used_in_block:
  assumes "b mod 8192 = 0" "i < 8192"
  shows "used s (b + i) = bm_bit (view s (log_dev s, BIT_BLOCK s b)) i"
proof -
  obtain q where q: "b = 8192 * q" using assms(1) by auto
  have "(b + i) div 8192 = b div 8192" "(b + i) mod 8192 = i" using assms(2) by (simp_all add: q)
  then show ?thesis by (simp add: used_def BIT_BLOCK_def)
qed

lemma alloc_found:
  assumes j: "jinv H s" and g: "fs_geom s" and mu: "meta_used s" and ap: "held_apart H s"
    and r: "room s 2" and x: "x < unat (sb_size s)" "\<not> used s x"
    and d': "d' = (view s (log_dev s, BIT_BLOCK s x))
      (x mod 8192 div 8 := view s (log_dev s, BIT_BLOCK s x) (x mod 8192 div 8) OR bit_mask (x mod 8192))"
    and k: "k = (log_dev s, BIT_BLOCK s x)"
  shows "bnd (set_block_data k d') (\<lambda>_. bnd (log_write k) (\<lambda>_. bnd (block_release k) (\<lambda>_.
      bnd (block_zeroed (log_dev s) (of_nat x)) (\<lambda>_. ret (of_nat x)))))
      (holdd k d s) = Inr (of_nat x, alloc_result x s)"
proof -
  let ?bb = "BIT_BLOCK s x" and ?s1 = "logd (BIT_BLOCK s x) d' s"
  have geo: "log_geom s" using j by (simp add: jinv_def)
  have lr: "log_room s" using r geo by (intro room_log_room[of s 1]) (simp_all add: numeral_2_eq_2)
  have kh: "k \<notin> H" "(log_dev s, of_nat x) \<notin> H" using ap x k by (simp_all add: held_apart_def)
  have hb: "home_block s ?bb" using BIT_BLOCK_home[OF g x(1)] by simp
  have w: "log_write k (holdd k d' s) = Inr ((), holdd k d' ?s1)"
    using log_write_hold[OF j k kh(1) lr] by simp
  have rl: "block_release k (holdd k d' ?s1) = Inr ((), ?s1)"
    using log_write_release[OF j k kh(1) lr hb] by simp
  have j1: "jinv H ?s1" using jinv_logd[OF j lr hb] kh k by simp
  have r1: "log_room ?s1"
    using room_logd[of s 1] r geo room_log_room[of ?s1 0] by (simp add: numeral_2_eq_2)
  have "home_block ?s1 (of_nat x)" using data_home[OF g free_is_data[OF mu x(2)] x(1)] by simp
  then have z: "block_zeroed (log_dev s) (of_nat x) ?s1 = Inr ((), logd (of_nat x) (\<lambda>_. 0) ?s1)"
    using block_zeroed_run[OF j1 _ _ _ r1, of "log_dev s" "of_nat x"] kh by simp
  show ?thesis using w rl z by (simp add: bnd_def alloc_result_def Let_def d')
qed

lemma block_alloc_loop_run:
  assumes j: "jinv H s" and g: "fs_geom s" and mu: "meta_used s" and ap: "held_apart H s"
    and r: "room s 2"
    and sz: "sz = unat (sb_size s)"
  shows "b mod 8192 = 0 \<Longrightarrow>
    ((\<forall>x. b \<le> x \<and> x < sz \<longrightarrow> used s x) \<longrightarrow> block_alloc_loop (log_dev s) sz b s = Inr (0, s)) \<and>
    (\<forall>x. b \<le> x \<and> x < sz \<and> \<not> used s x \<and> (\<forall>y. b \<le> y \<and> y < x \<longrightarrow> used s y) \<longrightarrow>
       block_alloc_loop (log_dev s) sz b s = Inr (of_nat x, alloc_result x s))"
proof (induction "sz - b" arbitrary: b rule: less_induct)
  case (less b)
  show ?case
  proof (cases "b < sz")
    case False
    then show ?thesis by (auto simp: block_alloc_loop.simps[of _ sz b])
  next
    case True
    let ?k = "(log_dev s, BIT_BLOCK s b)" and ?d = "view s (log_dev s, BIT_BLOCK s b)"
    have bs: "b < unat (sb_size s)" using True sz by simp
    have kH: "?k \<notin> H" using ap bs by (simp add: held_apart_def)
    have im: "in_image s (BIT_BLOCK s b)" using BIT_BLOCK_home(3)[OF g bs] by (simp add: home_block_def)
    have rd: "block_read (log_dev s) (BIT_BLOCK s b) s = Inr (?k, holdd ?k ?d s)"
      using block_read_j[OF j kH im] .
    have rel: "block_release ?k (holdd ?k ?d s) = Inr ((), s)"
      using block_release_j[OF j kH] by simp
    have ub: "used s (b + i) = bm_bit ?d i" if "i < 8192" for i
      using used_in_block[OF less.prems that] .
    show ?thesis
    proof (cases "alloc_scan ?d b sz 0")
      case None
      have full: "used s x" if "b \<le> x" "x < b + 8192" "x < sz" for x
        using alloc_scan_None[OF None, of "x - b"] ub[of "x - b"] that by simp
      have step: "block_alloc_loop (log_dev s) sz b s =
          block_alloc_loop (log_dev s) sz (b + BIT_PER_BLOCK) s"
        using True rd rel None by (simp add: block_alloc_loop.simps[of _ sz b] bnd_def)
      have m0: "(b + BIT_PER_BLOCK) mod 8192 = 0" using less.prems by simp
      have "sz - (b + BIT_PER_BLOCK) < sz - b" using True by simp
      note IH = less.hyps[OF this m0]
      have up: "b + BIT_PER_BLOCK \<le> x" if "b \<le> x" "x < sz" "\<not> used s x" for x
        using full[of x] that by (metis not_less)
      show ?thesis unfolding step
      proof (intro conjI allI impI)
        assume "\<forall>x. b \<le> x \<and> x < sz \<longrightarrow> used s x"
        then show "block_alloc_loop (log_dev s) sz (b + BIT_PER_BLOCK) s = Inr (0, s)"
          using IH by simp
      next
        fix x assume "b \<le> x \<and> x < sz \<and> \<not> used s x \<and> (\<forall>y. b \<le> y \<and> y < x \<longrightarrow> used s y)"
        then show "block_alloc_loop (log_dev s) sz (b + BIT_PER_BLOCK) s =
            Inr (of_nat x, alloc_result x s)"
          using IH up[of x] by simp
      qed
    next
      case (Some bi)
      note sc = alloc_scan_Some[OF Some]
      have nu: "\<not> used s (b + bi)" using sc ub by simp
      have least: "x = b + bi"
        if "b \<le> x" "x < sz" "\<not> used s x" "\<forall>y. b \<le> y \<and> y < x \<longrightarrow> used s y" for x
      proof (rule ccontr)
        assume "x \<noteq> b + bi"
        then consider "x < b + bi" | "b + bi < x" by linarith
        then show False
        proof cases
          case 1
          then have "bm_bit ?d (x - b)" using sc that(1) by simp
          moreover have "x - b < 8192" using 1 sc by linarith
          ultimately show False using ub[of "x - b"] that(1,3) by simp
        next
          case 2
          with that(4) nu show False by simp
        qed
      qed
      obtain q where q: "b = 8192 * q" using less.prems by auto
      have eqs: "(b + bi) mod 8192 = bi" "BIT_BLOCK s (b + bi) = BIT_BLOCK s b"
        using sc by (simp_all add: q BIT_BLOCK_def)
      have x: "b + bi < unat (sb_size s)" using sc sz by simp
      have "block_alloc_loop (log_dev s) sz b s = Inr (of_nat (b + bi), alloc_result (b + bi) s)"
        using alloc_found[OF j g mu ap r x nu refl refl, of ?d] True rd Some eqs
        by (simp add: block_alloc_loop.simps[of _ sz b] bnd_run)
      then show ?thesis using least nu sc by (metis le_add1)
    qed
  qed
qed

lemma block_alloc_run:
  assumes "jinv H s" "fs_geom s" "meta_used s" "held_apart H s" "room s 2"
  shows "(\<And>x. x < unat (sb_size s) \<Longrightarrow> used s x) \<Longrightarrow> block_alloc (log_dev s) s = Inr (0, s)"
    "x < unat (sb_size s) \<Longrightarrow> \<not> used s x \<Longrightarrow> (\<And>y. y < x \<Longrightarrow> used s y) \<Longrightarrow>
       block_alloc (log_dev s) s = Inr (of_nat x, alloc_result x s)"
  using block_alloc_loop_run[OF assms refl, of 0] by (simp_all add: block_alloc_def)

lemma block_free_run:
  assumes j: "jinv H s" and g: "fs_geom s" and r: "room s 1" and x: "unat b < unat (sb_size s)"
    and kH: "(log_dev s, BIT_BLOCK s (unat b)) \<notin> H"
  shows "block_free (log_dev s) b s =
    (if used s (unat b) then Inr ((), free_result (unat b) s) else Inl (Assert ''freeing free block''))"
proof -
  let ?bb = "BIT_BLOCK s (unat b)" and ?bi = "unat b mod 8192"
  let ?k = "(log_dev s, ?bb)" and ?d = "view s (log_dev s, ?bb)"
  let ?d' = "?d(?bi div 8 := ?d (?bi div 8) AND NOT (bit_mask ?bi))"
  have hb: "home_block s ?bb" using BIT_BLOCK_home[OF g x] by simp
  have lr: "log_room s" using room_log_room[of s 0] r j by (simp add: jinv_def)
  have rd: "block_read (log_dev s) ?bb s = Inr (?k, holdd ?k ?d s)"
    using block_read_j[OF j kH] hb by (simp add: home_block_def)
  have w: "log_write ?k (holdd ?k ?d' s) = Inr ((), holdd ?k ?d' (logd ?bb ?d' s))"
    using log_write_hold[OF j refl kH lr] .
  have rl: "block_release ?k (holdd ?k ?d' (logd ?bb ?d' s)) = Inr ((), logd ?bb ?d' s)"
    using log_write_release[OF j refl kH lr hb] .
  show ?thesis
    using rd w rl by (simp add: block_free_def bnd_def Let_def used_def free_result_def bm_bit_test)
qed

section \<open>The allocator as seen by its clients\<close>

locale block_allocator =
  fixes used :: "'s \<Rightarrow> nat \<Rightarrow> bool"
    and alloc :: "nat \<Rightarrow> 's \<Rightarrow> 's"
    and free :: "nat \<Rightarrow> 's \<Rightarrow> 's"
    and ok :: "'s \<Rightarrow> bool"
    and data :: "'s \<Rightarrow> nat \<Rightarrow> bool"
    and lim :: "'s \<Rightarrow> nat"
  assumes used_alloc: "ok s \<Longrightarrow> data s x \<Longrightarrow> y < lim s \<Longrightarrow> used (alloc x s) y \<longleftrightarrow> used s y \<or> y = x"
    and used_free: "ok s \<Longrightarrow> data s x \<Longrightarrow> y < lim s \<Longrightarrow> used (free x s) y \<longleftrightarrow> used s y \<and> y \<noteq> x"
    and ok_alloc: "ok s \<Longrightarrow> ok (alloc x s)" and ok_free: "ok s \<Longrightarrow> ok (free x s)"
    and data_alloc: "data (alloc x s) = data s" and data_free: "data (free x s) = data s"
    and lim_alloc: "lim (alloc x s) = lim s" and lim_free: "lim (free x s) = lim s"
begin

lemma used_free_alloc:
  "ok s \<Longrightarrow> data s x \<Longrightarrow> \<not> used s x \<Longrightarrow> y < lim s \<Longrightarrow> used (free x (alloc x s)) y \<longleftrightarrow> used s y"
  by (auto simp: used_free used_alloc ok_alloc data_alloc lim_alloc)

lemma free_all_frame:
  "ok s \<Longrightarrow> ok (fold free xs s)" "data (fold free xs s) = data s" "lim (fold free xs s) = lim s"
  by (induction xs arbitrary: s) (simp_all add: ok_free data_free lim_free)

lemma used_free_all:
  "ok s \<Longrightarrow> (\<And>x. x \<in> set xs \<Longrightarrow> data s x) \<Longrightarrow> y < lim s \<Longrightarrow>
     used (fold free xs s) y \<longleftrightarrow> used s y \<and> y \<notin> set xs"
  by (induction xs arbitrary: s) (auto simp: used_free ok_free data_free lim_free)

end

definition data_block :: "'a log_state_scheme \<Rightarrow> nat \<Rightarrow> bool" where
  "data_block s x \<longleftrightarrow> data_start s \<le> x \<and> x < unat (sb_size s)"

definition fs_limit :: "'a log_state_scheme \<Rightarrow> nat" where
  "fs_limit s = unat (sb_size s)"

lemma used_logd_other: "b \<noteq> BIT_BLOCK s y \<Longrightarrow> used (logd b d s) y = used s y"
  by (simp add: used_def view_logd)

lemma used_logd_data:
  assumes "fs_geom s" "y < unat (sb_size s)" "data_start s \<le> unat b"
  shows "used (logd b d s) y = used s y"
  using BIT_BLOCK_home(2)[OF assms(1,2)] assms(3) by (intro used_logd_other) auto

lemma used_logd_same:
  "x div 8192 = y div 8192 \<Longrightarrow> used (logd (BIT_BLOCK s x) d s) y = bm_bit d (y mod 8192)"
  by (simp add: used_def view_logd BIT_BLOCK_def)

lemma used_logd_elsewhere:
  assumes "fs_geom s" "x < unat (sb_size s)" "y < unat (sb_size s)" "x div 8192 \<noteq> y div 8192"
  shows "used (logd (BIT_BLOCK s x) d s) y = used s y"
proof -
  have "BIT_BLOCK s x \<noteq> BIT_BLOCK s y" using BIT_BLOCK_same[OF assms(1-3)] assms(4) by blast
  then show ?thesis by (rule used_logd_other)
qed

lemma same_block: "x div 8192 = y div 8192 \<Longrightarrow> x mod 8192 = y mod 8192 \<longleftrightarrow> x = (y :: nat)"
  by (metis div_mult_mod_eq)

lemma used_alloc_result:
  assumes g: "fs_geom s" and x: "data_block s x" and y: "y < unat (sb_size s)"
  shows "used (alloc_result x s) y \<longleftrightarrow> used s y \<or> y = x"
proof -
  let ?d = "view s (log_dev s, BIT_BLOCK s x)" and ?bi = "x mod 8192"
  let ?d' = "?d(?bi div 8 := ?d (?bi div 8) OR bit_mask ?bi)"
  have xs: "x < unat (sb_size s)" "data_start s \<le> unat (of_nat x :: u32)"
    using x data_home[OF g] by (auto simp: data_block_def)
  have "used (alloc_result x s) y = used (logd (BIT_BLOCK s x) ?d' s) y"
    unfolding alloc_result_def Let_def using g y xs by (subst used_logd_data) simp_all
  also have "\<dots> \<longleftrightarrow> used s y \<or> y = x"
  proof (cases "x div 8192 = y div 8192")
    case True
    then have "used s y = bm_bit ?d (y mod 8192)" by (simp add: used_def BIT_BLOCK_def)
    moreover have "used (logd (BIT_BLOCK s x) ?d' s) y = bm_bit ?d' (y mod 8192)"
      by (rule used_logd_same[OF True])
    moreover have "y mod 8192 = ?bi \<longleftrightarrow> y = x" using same_block[OF True[symmetric]] .
    ultimately show ?thesis by (simp only: bm_bit_set)
  next
    case False
    then have "used (logd (BIT_BLOCK s x) ?d' s) y = used s y"
      by (rule used_logd_elsewhere[OF g xs(1) y])
    moreover have "y \<noteq> x" using False by blast
    ultimately show ?thesis by blast
  qed
  finally show ?thesis .
qed

lemma used_free_result:
  assumes g: "fs_geom s" and xs: "x < unat (sb_size s)" and y: "y < unat (sb_size s)"
  shows "used (free_result x s) y \<longleftrightarrow> used s y \<and> y \<noteq> x"
proof -
  let ?d = "view s (log_dev s, BIT_BLOCK s x)" and ?bi = "x mod 8192"
  let ?d' = "?d(?bi div 8 := ?d (?bi div 8) AND NOT (bit_mask ?bi))"
  have "used (free_result x s) y = used (logd (BIT_BLOCK s x) ?d' s) y"
    by (simp add: free_result_def Let_def)
  also have "\<dots> \<longleftrightarrow> used s y \<and> y \<noteq> x"
  proof (cases "x div 8192 = y div 8192")
    case True
    then have "used s y = bm_bit ?d (y mod 8192)" by (simp add: used_def BIT_BLOCK_def)
    moreover have "used (logd (BIT_BLOCK s x) ?d' s) y = bm_bit ?d' (y mod 8192)"
      by (rule used_logd_same[OF True])
    moreover have "y mod 8192 = ?bi \<longleftrightarrow> y = x" using same_block[OF True[symmetric]] .
    ultimately show ?thesis by (simp only: bm_bit_clear)
  next
    case False
    then have "used (logd (BIT_BLOCK s x) ?d' s) y = used s y"
      by (rule used_logd_elsewhere[OF g xs y])
    moreover have "y \<noteq> x" using False by blast
    ultimately show ?thesis by blast
  qed
  finally show ?thesis .
qed

interpretation bitmap: block_allocator used alloc_result free_result fs_geom data_block fs_limit
proof
  show "used (alloc_result x s) y \<longleftrightarrow> used s y \<or> y = x"
    if "fs_geom s" "data_block s x" "y < fs_limit s" for s :: "'a log_state_scheme" and x y
    using that by (intro used_alloc_result) (auto simp: fs_limit_def)
  show "used (free_result x s) y \<longleftrightarrow> used s y \<and> y \<noteq> x"
    if "fs_geom s" "data_block s x" "y < fs_limit s" for s :: "'a log_state_scheme" and x y
    using that by (intro used_free_result) (auto simp: data_block_def fs_limit_def)
qed (simp_all add: fs_limit_def data_block_def alloc_result_def free_result_def Let_def fun_eq_iff)


section \<open>The state between two block operations\<close>

definition fs_inv :: "'a log_state_scheme \<Rightarrow> bool" where
  "fs_inv s \<longleftrightarrow> jinv {} s \<and> fs_geom s \<and> meta_used s"

definition next_free :: "'a log_state_scheme \<Rightarrow> nat option" where
  "next_free s = find (\<lambda>x. \<not> used s x) [0..<unat (sb_size s)]"

definition balloc :: "'a log_state_scheme \<Rightarrow> u32 \<times> 'a log_state_scheme" where
  "balloc s = (case next_free s of None \<Rightarrow> (0, s) | Some x \<Rightarrow> (of_nat x, alloc_result x s))"

definition free_blocks :: "'a log_state_scheme \<Rightarrow> nat set" where
  "free_blocks s = {x. x < unat (sb_size s) \<and> \<not> used s x}"

lemma next_free_None: "next_free s = None \<longleftrightarrow> (\<forall>x < unat (sb_size s). used s x)"
  by (auto simp: next_free_def find_None_iff)

lemma next_free_Some:
  "next_free s = Some x \<longleftrightarrow>
     x < unat (sb_size s) \<and> \<not> used s x \<and> (\<forall>y < x. used s y)"
  by (auto simp: next_free_def find_Some_iff)

lemma block_alloc_balloc:
  assumes "jinv H s" "fs_geom s" "meta_used s" "held_apart H s" "room s 2"
  shows "block_alloc (log_dev s) s = Inr (balloc s)"
proof (cases "next_free s")
  case None
  then have "block_alloc (log_dev s) s = Inr (0, s)"
    using block_alloc_run(1)[OF assms] by (simp add: next_free_None)
  with None show ?thesis by (simp add: balloc_def)
next
  case (Some x)
  then have "block_alloc (log_dev s) s = Inr (of_nat x, alloc_result x s)"
    using block_alloc_run(2)[OF assms, of x] by (simp add: next_free_Some)
  with Some show ?thesis by (simp add: balloc_def)
qed

lemma held_apart_empty [simp]: "held_apart {} s"
  by (simp add: held_apart_def)

lemma fs_inv_geom: "fs_inv s \<Longrightarrow> log_geom s" "fs_inv s \<Longrightarrow> fs_geom s"
  by (simp_all add: fs_inv_def jinv_def)

lemma meta_used_cong:
  assumes "fs_geom s" "data_start t = data_start s" "\<And>y. y < data_start s \<Longrightarrow> used s y \<Longrightarrow> used t y"
    and "meta_used s"
  shows "meta_used t"
  using assms by (simp add: meta_used_def)

lemma data_start_size: "fs_geom s \<Longrightarrow> y < data_start s \<Longrightarrow> y < unat (sb_size s)"
  by (simp add: fs_geom_def)

lemma next_free_data:
  assumes "fs_inv s" "next_free s = Some x"
  shows "data_block s x" "x \<noteq> 0" "x < 2 ^ 22"
proof -
  have x: "x < unat (sb_size s)" "data_start s \<le> x"
    using assms free_is_data[of s x] by (auto simp: next_free_Some fs_inv_def)
  then show "data_block s x" by (simp add: data_block_def)
  show "x \<noteq> 0" using x by (simp add: data_start_def)
  show "x < 2 ^ 22" using x assms by (simp add: fs_inv_def fs_geom_def)
qed

text \<open>A logged write to a block that is not part of the bitmap.\<close>

lemma fs_inv_logd:
  assumes i: "fs_inv s" and r: "log_room s" and b: "home_block s b"
    and nb: "\<And>y. y < unat (sb_size s) \<Longrightarrow> b \<noteq> BIT_BLOCK s y"
  shows "fs_inv (logd b d s)"
proof -
  have "jinv {} (logd b d s)" using assms by (intro jinv_logd) (auto simp: fs_inv_def)
  moreover have "meta_used (logd b d s)"
  proof (rule meta_used_cong[of s])
    show "used (logd b d s) y" if "y < data_start s" "used s y" for y
      using that nb data_start_size[of s y] i by (simp add: fs_inv_def used_logd_other)
  qed (use i in \<open>auto simp: fs_inv_def\<close>)
  ultimately show ?thesis using i by (simp add: fs_inv_def)
qed

lemma data_not_bitmap:
  assumes "fs_geom s" "data_start s \<le> unat b" "y < unat (sb_size s)"
  shows "b \<noteq> BIT_BLOCK s y"
  using BIT_BLOCK_home(2)[OF assms(1,3)] assms(2) by auto

lemma data_block_home:
  assumes "fs_geom s" "data_block s (unat b)"
  shows "home_block s b" "y < unat (sb_size s) \<Longrightarrow> b \<noteq> BIT_BLOCK s y"
  using data_home(1)[OF assms(1), of "unat b"] data_not_bitmap[OF assms(1)] assms(2)
  by (auto simp: data_block_def)

lemma fs_inv_logd_data:
  "fs_inv s \<Longrightarrow> log_room s \<Longrightarrow> data_block s (unat b) \<Longrightarrow> fs_inv (logd b d s)"
  using data_block_home[of s b] by (intro fs_inv_logd) (simp_all add: fs_inv_def)

lemma used_logd_data_block:
  "fs_inv s \<Longrightarrow> data_block s (unat b) \<Longrightarrow> y < unat (sb_size s) \<Longrightarrow> used (logd b d s) y = used s y"
  by (rule used_logd_data) (auto simp: fs_inv_def data_block_def)

lemma alloc_result_fields [simp]:
  "log_dev (alloc_result x s) = log_dev s" "sb_size (alloc_result x s) = sb_size s"
  "BIT_BLOCK (alloc_result x s) = BIT_BLOCK s" "data_start (alloc_result x s) = data_start s"
  "fs_geom (alloc_result x s) = fs_geom s" "data_block (alloc_result x s) = data_block s"
  "outstanding (alloc_result x s) = outstanding s" "home_block (alloc_result x s) = home_block s"
  "sb_ninodes (alloc_result x s) = sb_ninodes s" "sb_inodestart (alloc_result x s) = sb_inodestart s"
  "sb_bmapstart (alloc_result x s) = sb_bmapstart s" "log_size (alloc_result x s) = log_size s"
  "log_start (alloc_result x s) = log_start s" "committing (alloc_result x s) = committing s"
  "mmap_base (alloc_result x s) = mmap_base s" "st_size (alloc_result x s) = st_size s"
  by (simp_all add: alloc_result_def Let_def data_block_def fun_eq_iff)

lemma room_alloc_result:
  "room s (Suc (Suc k)) \<Longrightarrow> log_geom s \<Longrightarrow> room (alloc_result x s) k"
  by (simp add: alloc_result_def Let_def room_logd)

lemma fs_inv_alloc_result:
  assumes i: "fs_inv s" and r: "room s 2" and x: "data_block s x"
  shows "fs_inv (alloc_result x s)"
proof -
  let ?d = "(view s (log_dev s, BIT_BLOCK s x)) (x mod 8192 div 8 :=
      view s (log_dev s, BIT_BLOCK s x) (x mod 8192 div 8) OR bit_mask (x mod 8192))"
  let ?s1 = "logd (BIT_BLOCK s x) ?d s"
  have g: "fs_geom s" "log_geom s" and j: "jinv {} s" using i by (simp_all add: fs_inv_def jinv_def)
  have xs: "x < unat (sb_size s)" "data_start s \<le> x" using x by (simp_all add: data_block_def)
  have "log_room s" using r g room_log_room[of s 1] by (simp add: numeral_2_eq_2)
  then have j1: "jinv {} ?s1" by (intro jinv_logd[OF j]) (use BIT_BLOCK_home[OF g(1) xs(1)] in auto)
  have "log_room ?s1"
    using room_logd[of s 1] r g room_log_room[of ?s1 0] by (simp add: numeral_2_eq_2)
  then have "jinv {} (alloc_result x s)"
    unfolding alloc_result_def Let_def
    using jinv_logd[OF j1, of "of_nat x" "\<lambda>_. 0"] data_home[OF g(1) xs(2,1)] by simp
  moreover have "meta_used (alloc_result x s)"
    by (rule meta_used_cong[of s])
       (use i in \<open>auto simp: fs_inv_def used_alloc_result[OF g(1) x] data_start_size\<close>)
  ultimately show ?thesis using g by (simp add: fs_inv_def)
qed

lemma view_alloc_result:
  "view (alloc_result x s) (log_dev s, b) =
    (if b = of_nat x then (\<lambda>_. 0)
     else if b = BIT_BLOCK s x then (view s (log_dev s, b)) (x mod 8192 div 8 :=
       view s (log_dev s, b) (x mod 8192 div 8) OR bit_mask (x mod 8192))
     else view s (log_dev s, b))"
  by (simp add: alloc_result_def Let_def view_logd)

lemma free_blocks_alloc:
  assumes "fs_inv s" "next_free s = Some x"
  shows "free_blocks (alloc_result x s) = free_blocks s - {x}"
  using used_alloc_result[of s x] next_free_data[OF assms] assms(1)
  by (auto simp: free_blocks_def fs_inv_def)

lemma finite_free_blocks [simp]: "finite (free_blocks s)"
  by (simp add: free_blocks_def)

lemma next_free_in: "next_free s = Some x \<Longrightarrow> x \<in> free_blocks s"
  by (simp add: free_blocks_def next_free_Some)


lemma free_result_fields [simp]:
  "log_dev (free_result x s) = log_dev s" "sb_size (free_result x s) = sb_size s"
  "BIT_BLOCK (free_result x s) = BIT_BLOCK s" "data_start (free_result x s) = data_start s"
  "fs_geom (free_result x s) = fs_geom s" "data_block (free_result x s) = data_block s"
  "outstanding (free_result x s) = outstanding s" "home_block (free_result x s) = home_block s"
  "sb_ninodes (free_result x s) = sb_ninodes s" "sb_inodestart (free_result x s) = sb_inodestart s"
  "sb_bmapstart (free_result x s) = sb_bmapstart s" "log_size (free_result x s) = log_size s"
  "mmap_base (free_result x s) = mmap_base s" "st_size (free_result x s) = st_size s"
  by (simp_all add: free_result_def Let_def data_block_def fun_eq_iff)

lemma fs_inv_free_result:
  assumes i: "fs_inv s" and r: "log_room s" and x: "data_block s x"
  shows "fs_inv (free_result x s)"
proof -
  have g: "fs_geom s" and j: "jinv {} s" and xs: "x < unat (sb_size s)"
    using i x by (simp_all add: fs_inv_def data_block_def)
  have "jinv {} (free_result x s)"
    unfolding free_result_def Let_def
    using BIT_BLOCK_home[OF g xs] by (intro jinv_logd[OF j r]) auto
  moreover have "meta_used (free_result x s)"
    by (rule meta_used_cong[of s])
       (use i x in \<open>auto simp: fs_inv_def used_free_result[OF g xs] data_start_size data_block_def\<close>)
  ultimately show ?thesis using g by (simp add: fs_inv_def)
qed

lemma view_free_result:
  assumes "fs_inv s" "data_block s x" "data_block s (unat b)"
  shows "view (free_result x s) (log_dev s, b) = view s (log_dev s, b)"
  using data_block_home(2)[of s b x] assms
  by (simp add: free_result_def Let_def view_logd fs_inv_def data_block_def)

lemma free_blocks_free:
  assumes "fs_inv s" "data_block s x"
  shows "free_blocks (free_result x s) = insert x (free_blocks s)"
  using used_free_result[of s x] assms
  by (auto simp: free_blocks_def fs_inv_def data_block_def)

section \<open>A file system for the examples\<close>

text \<open>
  An image of 64 blocks as \<open>mkfs\<close> lays it out: log in 2 to 31, inodes in 32 to 44, the bitmap in
  45 with the first 46 blocks in use, all else zero; one operation has begun.
\<close>

definition demo_bitmap :: bytes where
  "demo_bitmap i = (if i < 5 then 255 else if i = 5 then 63 else 0)"

definition demo_fs :: log_state where
  "demo_fs = \<lparr>mmap_base = (\<lambda>_ _. 0)(45 := demo_bitmap), st_size = 65536, wtrace = [], blocks = Map.empty,
     sb_magic = FS_MAGIC, sb_size = 64, sb_nblocks = 18, sb_ninodes = 200, sb_nlog = 30,
     sb_logstart = 2, sb_inodestart = 32, sb_bmapstart = 45,
     log_start = 2, log_size = 30, outstanding = 1, committing = False, log_dev = 1,
     log_hdr = \<lparr>lh_n = 0, lh_block = replicate LOG_SIZE 0\<rparr>\<rparr>"

lemma demo_fs_used: "x < 64 \<Longrightarrow> used demo_fs x \<longleftrightarrow> x < 46"
proof -
  assume x: "x < 64"
  have "list_all (\<lambda>x. bm_bit demo_bitmap x = (x < 46)) [0..<64]"
    by code_simp
  with x have "bm_bit demo_bitmap x = (x < 46)" by (simp add: list_all_iff)
  with x show ?thesis
    by (simp add: used_def demo_fs_def view_def BIT_BLOCK_def image_index_def image_offset_def)
qed

lemma demo_fs_inv [simp]: "fs_inv demo_fs"
proof -
  have "data_start demo_fs = 46" by (simp add: data_start_def demo_fs_def)
  then have "meta_used demo_fs" by (simp add: meta_used_def demo_fs_used)
  moreover have "fs_geom demo_fs"
    by (simp add: fs_geom_def data_start_def demo_fs_def)
  moreover have "jinv {} demo_fs"
    by (simp add: jinv_def log_geom_def log_wf_def logged_def cache_inv_def pins_def demo_fs_def)
  ultimately show ?thesis by (simp add: fs_inv_def)
qed

lemma demo_fs_room [simp]: "room demo_fs k \<longleftrightarrow> k < 30"
  by (auto simp: room_def demo_fs_def)

lemma demo_fs_fields [simp]:
  "log_dev demo_fs = 1" "unat (sb_size demo_fs) = 64" "data_start demo_fs = 46"
  by (simp_all add: demo_fs_def data_start_def)

lemma demo_fs_free: "free_blocks demo_fs = {46..<64}"
  by (auto simp: free_blocks_def demo_fs_used)

section \<open>Properties\<close>

text \<open>
  C4: with space left, \<open>block_alloc\<close> returns the lowest free block. Exactly that block becomes used,
  it is a data block and reads as zeros, the other data blocks keep their contents, and the
  invariants of cache, log and bitmap hold afterwards.
\<close>

theorem block_alloc_spec:
  assumes i: "fs_inv s" and r: "room s 2" and f: "free_blocks s \<noteq> {}"
  shows "\<exists>x s'. block_alloc (log_dev s) s = Inr (of_nat x, s') \<and> x \<in> free_blocks s \<and>
    (\<forall>y \<in> free_blocks s. x \<le> y) \<and> data_block s x \<and> unat (of_nat x :: u32) = x \<and>
    fs_inv s' \<and> free_blocks s' = free_blocks s - {x} \<and> view s' (log_dev s, of_nat x) = (\<lambda>_. 0) \<and>
    (\<forall>b. data_block s (unat b) \<and> unat b \<noteq> x \<longrightarrow> view s' (log_dev s, b) = view s (log_dev s, b))"
proof -
  obtain x where x: "next_free s = Some x"
    using f by (cases "next_free s") (auto simp: next_free_None free_blocks_def)
  note d = next_free_data[OF i x]
  have "block_alloc (log_dev s) s = Inr (of_nat x, alloc_result x s)"
    using block_alloc_balloc[of "{}" s] i r x by (simp add: fs_inv_def balloc_def)
  moreover have "\<forall>y \<in> free_blocks s. x \<le> y"
    using x by (auto simp: next_free_Some free_blocks_def not_less[symmetric])
  moreover have "unat (of_nat x :: u32) = x" using d by (intro unat_block_number) simp
  moreover have "b \<noteq> BIT_BLOCK s x" "b \<noteq> of_nat x"
    if "data_block s (unat b)" "unat b \<noteq> x" for b
    using that data_block_home(2)[of s b x] i d unat_block_number[of x]
    by (auto simp: fs_inv_def data_block_def)
  ultimately show ?thesis
    using next_free_in[OF x] d fs_inv_alloc_result[OF i r] free_blocks_alloc[OF i x]
    by (intro exI[of _ x] exI[of _ "alloc_result x s"]) (simp add: view_alloc_result)
qed

theorem block_alloc_spec_witness:
  "fs_inv demo_fs \<and> room demo_fs 2 \<and> free_blocks demo_fs \<noteq> {} \<and>
   (\<exists>x s'. block_alloc 1 demo_fs = Inr (of_nat x, s') \<and> x \<in> {46..<64} \<and>
      free_blocks s' = {46..<64} - {x})"
  using block_alloc_spec[of demo_fs] by (auto simp: demo_fs_free)

text \<open>\<open>block_alloc\<close> reports \<open>0\<close>, and leaves everything as it was, exactly when no block is free.\<close>

theorem block_alloc_full:
  assumes i: "fs_inv s" and r: "room s 2"
  shows "block_alloc (log_dev s) s = Inr (0, s) \<longleftrightarrow> free_blocks s = {}"
proof (cases "next_free s")
  case None
  then have "free_blocks s = {}" by (auto simp: next_free_None free_blocks_def)
  moreover have "block_alloc (log_dev s) s = Inr (0, s)"
    using block_alloc_balloc[of "{}" s] i r None by (simp add: fs_inv_def balloc_def)
  ultimately show ?thesis by simp
next
  case (Some x)
  note d = next_free_data[OF i Some]
  have "(of_nat x :: u32) \<noteq> 0" using d unat_block_number[of x] by (metis unat_0)
  then show ?thesis using block_alloc_balloc[of "{}" s] i r Some next_free_in[OF Some]
    by (auto simp: fs_inv_def balloc_def)
qed

theorem block_alloc_full_witness:
  "fs_inv demo_fs \<and> room demo_fs 2 \<and> block_alloc 1 demo_fs \<noteq> Inr (0, demo_fs)"
  using block_alloc_full[of demo_fs] by (simp add: demo_fs_free)

text \<open>
  C5: \<open>block_free\<close> of a data block gives back exactly that block and touches no data block; on a
  block that is already free the assertion stops the program.
\<close>

theorem block_free_spec:
  assumes i: "fs_inv s" and r: "room s 1" and b: "data_block s (unat b)"
  shows "if unat b \<in> free_blocks s then block_free (log_dev s) b s = Inl (Assert ''freeing free block'')
    else \<exists>s'. block_free (log_dev s) b s = Inr ((), s') \<and> fs_inv s' \<and>
      free_blocks s' = insert (unat b) (free_blocks s) \<and>
      (\<forall>c. data_block s (unat c) \<longrightarrow> view s' (log_dev s, c) = view s (log_dev s, c))"
proof -
  have bs: "unat b < unat (sb_size s)" using b by (simp add: data_block_def)
  have run: "block_free (log_dev s) b s = (if used s (unat b) then Inr ((), free_result (unat b) s)
      else Inl (Assert ''freeing free block''))"
    using block_free_run[of "{}" s b] i r bs by (simp add: fs_inv_def)
  have lr: "log_room s" using room_log_room[of s 0] r fs_inv_geom(1)[OF i] by simp
  show ?thesis
    using run bs fs_inv_free_result[OF i lr b] free_blocks_free[OF i b] view_free_result[OF i b]
    by (simp add: free_blocks_def)
qed

theorem block_free_spec_witness:
  "fs_inv demo_fs \<and> room demo_fs 1 \<and> data_block demo_fs (unat (50 :: u32)) \<and>
   block_free 1 50 demo_fs = Inl (Assert ''freeing free block'')"
  using block_free_spec[of demo_fs 50] by (simp add: demo_fs_free data_block_def)

text \<open>Allocating a block and freeing it restores the set of free blocks.\<close>

theorem block_alloc_free_roundtrip:
  assumes i: "fs_inv s" and r: "room s 3" and f: "free_blocks s \<noteq> {}"
  shows "\<exists>s'. bnd (block_alloc (log_dev s)) (block_free (log_dev s)) s = Inr ((), s') \<and>
    fs_inv s' \<and> free_blocks s' = free_blocks s"
proof -
  obtain x where x: "next_free s = Some x"
    using f by (cases "next_free s") (auto simp: next_free_None free_blocks_def)
  note d = next_free_data[OF i x]
  let ?s1 = "alloc_result x s"
  have u: "unat (of_nat x :: u32) = x" using d by (intro unat_block_number) simp
  have r2: "room s 2" and r1: "room ?s1 1"
    using r room_le[of s 3 2] room_alloc_result[of s 1 x] fs_inv_geom(1)[OF i]
    by (simp_all add: numeral_3_eq_3)
  have i1: "fs_inv ?s1" using fs_inv_alloc_result[OF i r2 d(1)] .
  have xs: "x < unat (sb_size s)" "\<not> used s x" using x by (simp_all add: next_free_Some)
  have "used ?s1 x" using used_alloc_result[of s x x] i d xs by (simp add: fs_inv_def)
  then have "block_free (log_dev s) (of_nat x) ?s1 = Inr ((), free_result x ?s1)"
    using block_free_run[of "{}" ?s1 "of_nat x"] i1 r1 u xs by (simp add: fs_inv_def)
  moreover have "block_alloc (log_dev s) s = Inr (of_nat x, ?s1)"
    using block_alloc_balloc[of "{}" s] i r2 x by (simp add: fs_inv_def balloc_def)
  moreover have "log_room ?s1" using room_log_room[of ?s1 0] r1 fs_inv_geom(1)[OF i1] by simp
  then have "fs_inv (free_result x ?s1)" using fs_inv_free_result[OF i1] d by simp
  moreover have "used (free_result x ?s1) y \<longleftrightarrow> used s y" if "y < unat (sb_size s)" for y
    using bitmap.used_free_alloc[of s x y] i d xs that by (simp add: fs_inv_def fs_limit_def)
  then have "free_blocks (free_result x ?s1) = free_blocks s" by (auto simp: free_blocks_def)
  ultimately show ?thesis by (simp add: bnd_run)
qed

theorem block_alloc_free_roundtrip_witness:
  "fs_inv demo_fs \<and> room demo_fs 3 \<and> free_blocks demo_fs \<noteq> {} \<and>
   (\<exists>s'. bnd (block_alloc 1) (block_free 1) demo_fs = Inr ((), s') \<and> free_blocks s' = {46..<64})"
  using block_alloc_free_roundtrip[of demo_fs] by (auto simp: demo_fs_free)

end
