(* ===== verification/Inode.thy ===== *)
theory Inode
  imports Bitmap_Alloc
begin

text \<open>
  \<open>src/INode.cxx\<close> and the inode part of \<open>src/fs.cxx\<close>: the in-memory inodes, their lock, the
  transfer between memory and the inode blocks, the map from file blocks to disk blocks, and the
  contents of a file. An \<open>INode *\<close> is the key of the object in the map \<open>inodes\<close> of the inode cache.

  Unlocking a mutex that is not held is undefined in C++; the C library of the platform ignores
  it. The model does the same and counts such calls in the ghost field \<open>unheld_unlocks\<close>.

  File offsets are non-negative (\<open>nat\<close>); the counts of bytes are those of the buffers.
\<close>

section \<open>State\<close>

type_synonym INodeKey = "u32 \<times> u32"

record INode =
  i_ref :: u32
  i_locked :: bool
  i_valid :: bool
  i_dinode :: DiskINode

record inode_cache = log_state +
  inodes :: "INodeKey \<rightharpoonup> INode"
  unheld_unlocks :: nat

record Stat =
  st_dev :: u32
  st_ino :: u32
  st_type :: u16
  st_nlink :: u16
  st_fsize :: nat

definition INODE_BLOCK :: "'a log_state_scheme \<Rightarrow> u32 \<Rightarrow> u32" where
  "INODE_BLOCK s i = of_nat (unat i div INODE_PER_BLOCK) + sb_inodestart s"

definition inode_pos :: "u32 \<Rightarrow> nat" where
  "inode_pos i = sizeof_DiskINode * (unat i mod INODE_PER_BLOCK)"

section \<open>Operations on one inode\<close>

definition deref_inode :: "INodeKey \<Rightarrow> (INode, 'a inode_cache_scheme) m" where
  "deref_inode ip = (\<lambda>s. case inodes s ip of None \<Rightarrow> Inl Use_after_free | Some i \<Rightarrow> Inr (i, s))"

definition put_inode :: "INodeKey \<Rightarrow> INode \<Rightarrow> 'a inode_cache_scheme \<Rightarrow> 'a inode_cache_scheme" where
  "put_inode ip i s = s\<lparr>inodes := (inodes s)(ip \<mapsto> i)\<rparr>"

definition set_inode :: "INodeKey \<Rightarrow> INode \<Rightarrow> (unit, 'a inode_cache_scheme) m" where
  "set_inode ip i = modify (put_inode ip i)"

definition dinode :: "INodeKey \<Rightarrow> (DiskINode, 'a inode_cache_scheme) m" where
  "dinode ip = bnd (deref_inode ip) (\<lambda>i. ret (i_dinode i))"

definition set_dinode :: "INodeKey \<Rightarrow> (DiskINode \<Rightarrow> DiskINode) \<Rightarrow> (unit, 'a inode_cache_scheme) m" where
  "set_dinode ip f = bnd (deref_inode ip) (\<lambda>i. set_inode ip (i\<lparr>i_dinode := f (i_dinode i)\<rparr>))"

definition inode_mutex_unlock :: "INodeKey \<Rightarrow> (unit, 'a inode_cache_scheme) m" where
  "inode_mutex_unlock ip =
     bnd (deref_inode ip) (\<lambda>i.
     if i_locked i then set_inode ip (i\<lparr>i_locked := False\<rparr>)
     else modify (\<lambda>s. s\<lparr>unheld_unlocks := Suc (unheld_unlocks s)\<rparr>))"

definition inode_mutex_lock :: "INodeKey \<Rightarrow> (unit, 'a inode_cache_scheme) m" where
  "inode_mutex_lock ip =
     bnd (deref_inode ip) (\<lambda>i.
     bnd (check Deadlock (\<not> i_locked i)) (\<lambda>_.
     set_inode ip (i\<lparr>i_locked := True\<rparr>)))"

definition INode_unlock :: "INodeKey \<Rightarrow> (unit, 'a inode_cache_scheme) m" where
  "INode_unlock ip =
     bnd (deref_inode ip) (\<lambda>i.
     bnd (assert_that ''iunlock'' (i_ref i \<ge> 1)) (\<lambda>_.
     inode_mutex_unlock ip))"

definition INode_lock :: "INodeKey \<Rightarrow> (unit, 'a inode_cache_scheme) m" where
  "INode_lock ip =
     bnd (deref_inode ip) (\<lambda>i.
     bnd (assert_that ''ilock'' (i_ref i \<ge> 1)) (\<lambda>_.
     bnd (inode_mutex_lock ip) (\<lambda>_.
     when_do (\<not> i_valid i)
       (bnd (gets (\<lambda>s. INODE_BLOCK s (snd ip))) (\<lambda>ib.
        bnd (block_read (fst ip) ib) (\<lambda>bp.
        bnd (block_data bp) (\<lambda>d.
        let dip = get_dinode d (inode_pos (snd ip)) in
        bnd (set_dinode ip (\<lambda>_. dip)) (\<lambda>_.
        bnd (block_release bp) (\<lambda>_.
        bnd (deref_inode ip) (\<lambda>i'.
        bnd (set_inode ip (i'\<lparr>i_valid := True\<rparr>)) (\<lambda>_.
        assert_that ''ilock: no type'' (di_type dip \<noteq> 0))))))))))))"

definition INode_stat :: "INodeKey \<Rightarrow> (Stat, 'a inode_cache_scheme) m" where
  "INode_stat ip =
     bnd (dinode ip) (\<lambda>di.
     ret \<lparr>st_dev = fst ip, st_ino = snd ip, st_type = di_type di, st_nlink = di_nlink di,
       st_fsize = unat (di_size di)\<rparr>)"

definition INode_update :: "INodeKey \<Rightarrow> (unit, 'a inode_cache_scheme) m" where
  "INode_update ip =
     bnd (gets (\<lambda>s. INODE_BLOCK s (snd ip))) (\<lambda>ib.
     bnd (block_read (fst ip) ib) (\<lambda>bp.
     bnd (block_data bp) (\<lambda>d.
     bnd (dinode ip) (\<lambda>di.
     bnd (set_block_data bp (put_dinode d (inode_pos (snd ip)) di)) (\<lambda>_.
     bnd (log_write bp) (\<lambda>_.
     block_release bp))))))"

definition trunc_direct :: "INodeKey \<Rightarrow> nat \<Rightarrow> (unit, 'a inode_cache_scheme) m" where
  "trunc_direct ip i =
     bnd (dinode ip) (\<lambda>di.
     when_do (di_addrs di ! i \<noteq> 0)
       (bnd (block_free (fst ip) (di_addrs di ! i)) (\<lambda>_.
        set_dinode ip (\<lambda>di. di\<lparr>di_addrs := (di_addrs di)[i := 0]\<rparr>))))"

definition trunc_indirect :: "INodeKey \<Rightarrow> BlockKey \<Rightarrow> nat \<Rightarrow> (unit, 'a inode_cache_scheme) m" where
  "trunc_indirect ip bp j =
     bnd (block_data bp) (\<lambda>a.
     when_do (get_u32 a (4 * j) \<noteq> 0) (block_free (fst ip) (get_u32 a (4 * j))))"

definition INode_trunc :: "INodeKey \<Rightarrow> (unit, 'a inode_cache_scheme) m" where
  "INode_trunc ip =
     bnd (for_each [0..<NDIRECT] (trunc_direct ip)) (\<lambda>_.
     bnd (dinode ip) (\<lambda>di.
     bnd (when_do (di_addrs di ! NDIRECT \<noteq> 0)
       (bnd (block_read (fst ip) (di_addrs di ! NDIRECT)) (\<lambda>bp.
        bnd (for_each [0..<NINDIRECT] (trunc_indirect ip bp)) (\<lambda>_.
        bnd (block_release bp) (\<lambda>_.
        bnd (block_free (fst ip) (di_addrs di ! NDIRECT)) (\<lambda>_.
        set_dinode ip (\<lambda>di. di\<lparr>di_addrs := (di_addrs di)[NDIRECT := 0]\<rparr>))))))) (\<lambda>_.
     bnd (set_dinode ip (\<lambda>di. di\<lparr>di_size := 0\<rparr>)) (\<lambda>_.
     INode_update ip))))"

text \<open>The two places where \<open>block_map\<close> fills a slot of \<open>addrs\<close> share this step.\<close>

definition addr_slot :: "INodeKey \<Rightarrow> nat \<Rightarrow> (u32, 'a inode_cache_scheme) m" where
  "addr_slot ip i =
     bnd (dinode ip) (\<lambda>di.
     if di_addrs di ! i = 0 then
       bnd (block_alloc (fst ip)) (\<lambda>b.
       if b = 0 then ret 0
       else bnd (set_dinode ip (\<lambda>di. di\<lparr>di_addrs := (di_addrs di)[i := b]\<rparr>)) (\<lambda>_. ret b))
     else ret (di_addrs di ! i))"

definition block_map :: "INodeKey \<Rightarrow> nat \<Rightarrow> (u32, 'a inode_cache_scheme) m" where
  "block_map ip bno_logi =
     (if bno_logi < NDIRECT then addr_slot ip bno_logi
      else if bno_logi - NDIRECT < NINDIRECT then
        bnd (addr_slot ip NDIRECT) (\<lambda>ind.
        if ind = 0 then ret 0
        else
          bnd (block_read (fst ip) ind) (\<lambda>bp.
          bnd (block_data bp) (\<lambda>dir.
          let p = 4 * (bno_logi - NDIRECT) in
          bnd (if get_u32 dir p = 0 then
                 bnd (block_alloc (fst ip)) (\<lambda>b.
                 bnd (when_do (b \<noteq> 0)
                   (bnd (set_block_data bp (put_u32 dir p b)) (\<lambda>_. log_write bp))) (\<lambda>_.
                 ret b))
               else ret (get_u32 dir p)) (\<lambda>bno_phy.
          bnd (block_release bp) (\<lambda>_.
          ret bno_phy)))))
      else fail (Assert ''bmap: out of range''))"

text \<open>The bytes that \<open>INode::read\<close> copies to the buffer; its result is their number.\<close>

function INode_read_loop :: "INodeKey \<Rightarrow> nat \<Rightarrow> nat \<Rightarrow> nat \<Rightarrow> (byte list, 'a inode_cache_scheme) m" where
  "INode_read_loop ip off n tot =
     (if tot < n then
        bnd (block_map ip (off div BSIZE)) (\<lambda>bno_phy.
        if bno_phy = 0 then ret []
        else
          bnd (block_read (fst ip) bno_phy) (\<lambda>bp.
          let m = min (n - tot) (BSIZE - off mod BSIZE) in
          bnd (block_data bp) (\<lambda>d.
          bnd (block_release bp) (\<lambda>_.
          bnd (INode_read_loop ip (off + m) n (tot + m)) (\<lambda>rest.
          ret (get_bytes m d (off mod BSIZE) @ rest))))))
      else ret [])"
  by pat_completeness auto
termination
  by (relation "measure (\<lambda>(ip, off, n, tot). n - tot)") auto

definition INode_read :: "INodeKey \<Rightarrow> nat \<Rightarrow> nat \<Rightarrow> (byte list, 'a inode_cache_scheme) m" where
  "INode_read ip off n =
     bnd (dinode ip) (\<lambda>di.
     let sz = unat (di_size di) in
     if off > sz \<or> off + n < off then ret []
     else INode_read_loop ip off (if off + n > sz then sz - off else n) 0)"

text \<open>The write loop returns the number of bytes written; the final offset is \<open>off\<close> plus that.\<close>

function INode_write_loop :: "INodeKey \<Rightarrow> byte list \<Rightarrow> nat \<Rightarrow> nat \<Rightarrow> (nat, 'a inode_cache_scheme) m" where
  "INode_write_loop ip buf off tot =
     (if tot < length buf then
        bnd (block_map ip (off div BSIZE)) (\<lambda>bno_phy.
        if bno_phy = 0 then ret tot
        else
          bnd (block_read (fst ip) bno_phy) (\<lambda>bp.
          let m = min (length buf - tot) (BSIZE - off mod BSIZE) in
          bnd (block_data bp) (\<lambda>d.
          bnd (set_block_data bp (put_bytes d (off mod BSIZE) (take m (drop tot buf)))) (\<lambda>_.
          bnd (log_write bp) (\<lambda>_.
          bnd (block_release bp) (\<lambda>_.
          INode_write_loop ip buf (off + m) (tot + m)))))))
      else ret tot)"
  by pat_completeness auto
termination
  by (relation "measure (\<lambda>(ip, buf, off, tot). length buf - tot)") auto

declare INode_read_loop.simps [simp del] INode_write_loop.simps [simp del]

definition INode_write :: "INodeKey \<Rightarrow> byte list \<Rightarrow> nat \<Rightarrow> (u32, 'a inode_cache_scheme) m" where
  "INode_write ip buf off =
     bnd (dinode ip) (\<lambda>di.
     let n = length buf in
     if off > unat (di_size di) \<or> off + n < off then ret (-1)
     else if off + n > MAX_FILE * BSIZE then ret (-1)
     else
       bnd (INode_write_loop ip buf off 0) (\<lambda>tot.
       let off' = off + tot in
       bnd (dinode ip) (\<lambda>di'.
       bnd (when_do (off' > unat (di_size di'))
         (set_dinode ip (\<lambda>di. di\<lparr>di_size := of_nat off'\<rparr>))) (\<lambda>_.
       bnd (INode_update ip) (\<lambda>_.
       ret (of_nat tot))))))"

end
