(* ===== verification/Inode_Blocks.thy ===== *)
theory Inode_Blocks
  imports Inode
begin

text \<open>
  The block map of an inode. \<open>slots s k i\<close> is the disk block in slot \<open>i\<close> of inode \<open>k\<close>: the direct
  blocks are the slots 0 to 11, the indirect block is slot 12, its entries are the slots 13 to 268.
  \<open>file_ok k s\<close> says that the slots name distinct data blocks that are marked in the bitmap.
  \<open>block_map\<close> is shown equal to a state function \<open>pmap\<close>, and that function only adds fresh, zeroed
  blocks (\<open>grows\<close>), so that the bytes of the file and everything outside the file stay the same.
\<close>

section \<open>In-memory inodes and the layers below\<close>

lemma put_inode_fields [simp]:
  "mmap_base (put_inode k i s) = mmap_base s" "st_size (put_inode k i s) = st_size s"
  "wtrace (put_inode k i s) = wtrace s" "blocks (put_inode k i s) = blocks s"
  "sb_size (put_inode k i s) = sb_size s" "sb_ninodes (put_inode k i s) = sb_ninodes s"
  "sb_inodestart (put_inode k i s) = sb_inodestart s" "sb_bmapstart (put_inode k i s) = sb_bmapstart s"
  "log_start (put_inode k i s) = log_start s" "log_size (put_inode k i s) = log_size s"
  "outstanding (put_inode k i s) = outstanding s" "committing (put_inode k i s) = committing s"
  "log_dev (put_inode k i s) = log_dev s" "log_hdr (put_inode k i s) = log_hdr s"
  "inodes (put_inode k i s) = (inodes s)(k \<mapsto> i)"
  "unheld_unlocks (put_inode k i s) = unheld_unlocks s"
  by (simp_all add: put_inode_def)

lemma view_put_inode [simp]: "view (put_inode k i s) = view s"
  by (rule ext) (simp add: view_def split: option.split)

lemma put_inode_derived [simp]:
  "in_image (put_inode k i s) = in_image s"
  "logged (put_inode k i s) = logged s" "pins (put_inode k i s) = pins s"
  "in_log (put_inode k i s) = in_log s" "log_geom (put_inode k i s) = log_geom s"
  "cache_inv P H (put_inode k i s) = cache_inv P H s" "log_room (put_inode k i s) = log_room s"
  "data_start (put_inode k i s) = data_start s" "BIT_BLOCK (put_inode k i s) = BIT_BLOCK s"
  "INODE_BLOCK (put_inode k i s) = INODE_BLOCK s" "room (put_inode k i s) = room s"
  by (simp_all add: fun_eq_iff in_image_def logged_def pins_def in_log_def log_geom_def
      cache_inv_def log_room_def data_start_def BIT_BLOCK_def INODE_BLOCK_def room_def)

lemma put_inode_derived2 [simp]:
  "home_block (put_inode k i s) = home_block s" "fs_geom (put_inode k i s) = fs_geom s"
  "used (put_inode k i s) = used s" "data_block (put_inode k i s) = data_block s"
  by (simp_all add: fun_eq_iff home_block_def fs_geom_def used_def data_block_def)

lemma put_inode_inv [simp]:
  "log_wf (put_inode k i s) = log_wf s" "jinv H (put_inode k i s) = jinv H s"
  "meta_used (put_inode k i s) = meta_used s" "fs_inv (put_inode k i s) = fs_inv s"
  "free_blocks (put_inode k i s) = free_blocks s" "next_free (put_inode k i s) = next_free s"
  "header_clear (put_inode k i s) = header_clear s"
  by (simp_all add: log_wf_def jinv_def meta_used_def fs_inv_def free_blocks_def next_free_def
      header_clear_def)

lemma inodes_logd [simp]:
  "inodes (logd b d s) = inodes s" "unheld_unlocks (logd b d s) = unheld_unlocks s"
  "inodes (holdd q d s) = inodes s" "unheld_unlocks (holdd q d s) = unheld_unlocks s"
  "inodes (alloc_result x s) = inodes s" "unheld_unlocks (alloc_result x s) = unheld_unlocks s"
  "inodes (free_result x s) = inodes s" "unheld_unlocks (free_result x s) = unheld_unlocks s"
  by (simp_all add: logd_def holdd_def setd_def add_log_def alloc_result_def free_result_def Let_def)

lemma put_inode_holdd: "put_inode k i (holdd q d s) = holdd q d (put_inode k i s)"
  by (simp add: put_inode_def holdd_def refcnt_of_def)

lemma put_inode_logd: "put_inode k i (logd b d s) = logd b d (put_inode k i s)"
  by (simp add: put_inode_def logd_def setd_def add_log_def logged_def)

lemma put_inode_put_inode [simp]: "put_inode k i (put_inode k j s) = put_inode k i s"
  by (simp add: put_inode_def)

lemma put_inode_same: "inodes s k = Some i \<Longrightarrow> put_inode k i s = s"
  by (simp add: put_inode_def fun_upd_idem)

lemma deref_inode_run [simp]: "inodes s k = Some i \<Longrightarrow> deref_inode k s = Inr (i, s)"
  by (simp add: deref_inode_def)

lemma dinode_run [simp]: "inodes s k = Some i \<Longrightarrow> dinode k s = Inr (i_dinode i, s)"
  by (simp add: dinode_def bnd_run)

lemma set_dinode_run [simp]:
  "inodes s k = Some i \<Longrightarrow>
     set_dinode k f s = Inr ((), put_inode k (i\<lparr>i_dinode := f (i_dinode i)\<rparr>) s)"
  by (simp add: set_dinode_def bnd_run set_inode_def)

text \<open>Logged writes and held blocks commute.\<close>

lemma logd_holdd:
  assumes "q \<noteq> (log_dev s, b)"
  shows "logd b d (holdd q d' s) = holdd q d' (logd b d s)"
proof -
  have "add_log b (holdd q d' s) = holdd q d' (add_log b s)"
    by (simp add: add_log_def logged_def holdd_def refcnt_of_def)
  then show ?thesis using assms by (simp add: logd_def holdd_setd[symmetric])
qed

lemma alloc_result_holdd:
  assumes "q \<noteq> (log_dev s, BIT_BLOCK s x)" "q \<noteq> (log_dev s, of_nat x)"
  shows "alloc_result x (holdd q d s) = holdd q d (alloc_result x s)"
  using assms by (simp add: alloc_result_def Let_def view_holdd logd_holdd)

lemma free_result_holdd:
  assumes "q \<noteq> (log_dev s, BIT_BLOCK s x)"
  shows "free_result x (holdd q d s) = holdd q d (free_result x s)"
  using assms by (simp add: free_result_def Let_def view_holdd logd_holdd)

lemma jinv_holdd:
  assumes "jinv H s" "q \<notin> H"
  shows "jinv (insert q H) (holdd q d s)"
proof -
  have "pins (holdd q d s) = pins s" by (simp add: pins_def logged_def holdd_def)
  moreover have "log_wf (holdd q d s) = log_wf s"
    by (simp add: log_wf_def logged_def home_block_def in_log_def holdd_def in_image_def)
  moreover have "log_geom (holdd q d s) = log_geom s" by (simp add: log_geom_def holdd_def)
  ultimately show ?thesis using assms by (simp add: jinv_def cache_inv_holdd)
qed

lemma holdd_view_derived [simp]:
  "used (holdd q (view s q) s) = used s" "room (holdd q d s) = room s"
  "data_block (holdd q d s) = data_block s"
proof -
  have "log_hdr (holdd q d s) = log_hdr s" "log_size (holdd q d s) = log_size s"
    "outstanding (holdd q d s) = outstanding s" "log_dev (holdd q d' s) = log_dev s" for d'
    by (simp_all add: holdd_def)
  then show "used (holdd q (view s q) s) = used s" "room (holdd q d s) = room s"
    "data_block (holdd q d s) = data_block s"
    by (simp_all add: used_def fun_eq_iff room_def data_block_def)
qed

lemma holdd_view_derived2 [simp]:
  "meta_used (holdd q (view s q) s) = meta_used s" "next_free (holdd q (view s q) s) = next_free s"
  by (simp_all add: meta_used_def next_free_def)

section \<open>Slots of an inode\<close>

definition the_dinode :: "'a inode_cache_scheme \<Rightarrow> INodeKey \<Rightarrow> DiskINode" where
  "the_dinode s k = i_dinode (the (inodes s k))"

abbreviation NSLOTS :: nat where "NSLOTS \<equiv> 269"

definition slots :: "'a inode_cache_scheme \<Rightarrow> INodeKey \<Rightarrow> nat \<Rightarrow> u32" where
  "slots s k i =
     (let a = di_addrs (the_dinode s k)
      in if i \<le> NDIRECT then a ! i
         else if a ! NDIRECT = 0 then 0
         else get_u32 (view s (fst k, a ! NDIRECT)) (4 * (i - 13)))"

definition owned :: "'a inode_cache_scheme \<Rightarrow> INodeKey \<Rightarrow> u32 set" where
  "owned s k = {slots s k i |i. i < NSLOTS} - {0}"

definition file_ok :: "INodeKey \<Rightarrow> 'a inode_cache_scheme \<Rightarrow> bool" where
  "file_ok k s \<longleftrightarrow> fs_inv s \<and> fst k = log_dev s \<and>
     (\<exists>i. inodes s k = Some i \<and> dinode_wf (i_dinode i)) \<and>
     (\<forall>i < NSLOTS. slots s k i \<noteq> 0 \<longrightarrow>
        data_block s (unat (slots s k i)) \<and> used s (unat (slots s k i))) \<and>
     (\<forall>i < NSLOTS. \<forall>j < NSLOTS. i \<noteq> j \<longrightarrow> slots s k i \<noteq> 0 \<longrightarrow> slots s k i \<noteq> slots s k j)"

text \<open>The slot of a block of the file, and the bytes of the file; holes read as zeros.\<close>

definition slot_of :: "nat \<Rightarrow> nat" where
  "slot_of bn = (if bn < NDIRECT then bn else Suc bn)"

definition fcontent :: "'a inode_cache_scheme \<Rightarrow> INodeKey \<Rightarrow> nat \<Rightarrow> byte" where
  "fcontent s k off =
     (let b = slots s k (slot_of (off div BSIZE))
      in if off div BSIZE < MAX_FILE \<and> b \<noteq> 0 then view s (fst k, b) (off mod BSIZE) else 0)"

text \<open>Blocks that hold inodes or file data.\<close>

definition content_block :: "'a log_state_scheme \<Rightarrow> u32 \<Rightarrow> bool" where
  "content_block s b \<longleftrightarrow> unat b < unat (sb_bmapstart s) \<or> data_block s (unat b)"

text \<open>The same process parameters.\<close>

definition same_env :: "'a inode_cache_scheme \<Rightarrow> 'a inode_cache_scheme \<Rightarrow> bool" where
  "same_env s s' \<longleftrightarrow> log_dev s' = log_dev s \<and> sb_size s' = sb_size s \<and> sb_ninodes s' = sb_ninodes s \<and>
     sb_inodestart s' = sb_inodestart s \<and> sb_bmapstart s' = sb_bmapstart s \<and>
     outstanding s' = outstanding s \<and> log_size s' = log_size s \<and> log_start s' = log_start s \<and>
     committing s' = committing s \<and> unheld_unlocks s' = unheld_unlocks s \<and>
     mmap_base s' = mmap_base s \<and> st_size s' = st_size s"

text \<open>
  \<open>extends k s s'\<close>: from \<open>s\<close> to \<open>s'\<close> only file \<open>k\<close> was written, blocks were only added to it, and the
  added ones were free. \<open>grows\<close> adds that the bytes of the file are the same.
\<close>

definition extends :: "INodeKey \<Rightarrow> 'a inode_cache_scheme \<Rightarrow> 'a inode_cache_scheme \<Rightarrow> bool" where
  "extends k s s' \<longleftrightarrow> file_ok k s' \<and> same_env s s' \<and>
     (\<exists>a. inodes s' = (inodes s)(k \<mapsto> (the (inodes s k))\<lparr>i_dinode := (the_dinode s k)\<lparr>di_addrs := a\<rparr>\<rparr>)) \<and>
     (\<forall>i < NSLOTS. slots s k i \<noteq> 0 \<longrightarrow> slots s' k i = slots s k i) \<and>
     (\<forall>y < unat (sb_size s). used s y \<longrightarrow> used s' y) \<and>
     (\<forall>b. content_block s b \<and> used s (unat b) \<and> b \<notin> owned s k \<longrightarrow>
        view s' (fst k, b) = view s (fst k, b)) \<and>
     owned s' k - owned s k \<subseteq> of_nat ` free_blocks s"

definition grows :: "INodeKey \<Rightarrow> 'a inode_cache_scheme \<Rightarrow> 'a inode_cache_scheme \<Rightarrow> bool" where
  "grows k s s' \<longleftrightarrow> extends k s s' \<and> fcontent s' k = fcontent s k"

lemma data_block_same_env: "same_env s s' \<Longrightarrow> data_block s' = data_block s"
  by (simp add: same_env_def data_block_def data_start_def fun_eq_iff)

lemma content_block_same_env: "same_env s s' \<Longrightarrow> content_block s' = content_block s"
  using data_block_same_env[of s s'] by (simp add: content_block_def fun_eq_iff same_env_def)

lemma file_ok_slot:
  assumes "file_ok k s" "i < NSLOTS" "slots s k i \<noteq> 0"
  shows "data_block s (unat (slots s k i))" "used s (unat (slots s k i))"
    "j < NSLOTS \<Longrightarrow> i \<noteq> j \<Longrightarrow> slots s k i \<noteq> slots s k j"
  using assms by (auto simp: file_ok_def)

lemma file_ok_basic:
  assumes "file_ok k s"
  shows "fs_inv s" "fst k = log_dev s" "inodes s k = Some (the (inodes s k))"
    "length (di_addrs (the_dinode s k)) = 13"
  using assms by (auto simp: file_ok_def the_dinode_def dinode_wf_def)

lemma slot_of_less: "bn < MAX_FILE \<Longrightarrow> slot_of bn < NSLOTS" "slot_of bn \<noteq> 12"
  by (auto simp: slot_of_def)

lemma slot_of_inj: "slot_of bn = slot_of bm \<longleftrightarrow> bn = bm"
  by (auto simp: slot_of_def)

lemma extends_refl: "file_ok k s \<Longrightarrow> extends k s s"
proof -
  assume "file_ok k s"
  note f = file_ok_basic[OF this]
  have "inodes s = (inodes s)(k \<mapsto> (the (inodes s k))\<lparr>i_dinode := (the_dinode s k)\<lparr>di_addrs :=
      di_addrs (the_dinode s k)\<rparr>\<rparr>)"
    using f(3) by (simp add: the_dinode_def fun_upd_idem)
  then show ?thesis using \<open>file_ok k s\<close> unfolding extends_def same_env_def by blast
qed

lemma free_not_used: "x \<in> free_blocks s \<Longrightarrow> \<not> used s x"
  by (simp add: free_blocks_def)


lemma free_block_number: "fs_geom s \<Longrightarrow> x \<in> free_blocks s \<Longrightarrow> unat (of_nat x :: u32) = x"
  by (intro unat_block_number) (simp add: free_blocks_def fs_geom_def)

lemma extends_frame:
  assumes "extends k s s'" "file_ok k s" "content_block s b" "used s (unat b)" "b \<notin> owned s k"
  shows "view s' (fst k, b) = view s (fst k, b)" "used s' (unat b)" "b \<notin> owned s' k"
proof -
  show "view s' (fst k, b) = view s (fst k, b)" using assms by (simp add: extends_def)
  have g: "fs_geom s" using file_ok_basic(1)[OF assms(2)] by (simp add: fs_inv_def)
  have "unat b < unat (sb_size s)"
    using assms(3) g by (auto simp: content_block_def data_block_def fs_geom_def data_start_def)
  with assms show "used s' (unat b)" by (simp add: extends_def)
  show "b \<notin> owned s' k"
  proof
    assume "b \<in> owned s' k"
    with assms(1,5) obtain x where "x \<in> free_blocks s" "b = of_nat x" by (auto simp: extends_def)
    with assms(4) g show False by (simp add: free_block_number free_not_used)
  qed
qed

lemma extends_trans:
  assumes a: "extends k s s1" and b: "extends k s1 s2" and ok: "file_ok k s"
  shows "extends k s s2"
proof -
  have env: "same_env s s1" "same_env s1 s2" using a b by (simp_all add: extends_def)
  obtain x where x: "inodes s1 = (inodes s)(k \<mapsto> (the (inodes s k))\<lparr>i_dinode := (the_dinode s k)\<lparr>di_addrs := x\<rparr>\<rparr>)"
    using a by (auto simp: extends_def)
  obtain y where y: "inodes s2 = (inodes s1)(k \<mapsto> (the (inodes s1 k))\<lparr>i_dinode := (the_dinode s1 k)\<lparr>di_addrs := y\<rparr>\<rparr>)"
    using b by (auto simp: extends_def)
  have "inodes s2 = (inodes s)(k \<mapsto> (the (inodes s k))\<lparr>i_dinode := (the_dinode s k)\<lparr>di_addrs := y\<rparr>\<rparr>)"
    unfolding y by (simp add: x the_dinode_def)
  moreover have "view s2 (fst k, c) = view s (fst k, c)"
    if "content_block s c" "used s (unat c)" "c \<notin> owned s k" for c
    using extends_frame[OF a ok that] extends_frame(1)[OF b _ _ ] a that content_block_same_env[OF env(1)]
    by (simp add: extends_def)
  moreover have "free_blocks s1 \<subseteq> free_blocks s"
    using a by (auto simp: extends_def free_blocks_def same_env_def)
  then have "owned s2 k - owned s k \<subseteq> of_nat ` free_blocks s"
  proof -
    assume fr: "free_blocks s1 \<subseteq> free_blocks s"
    have "owned s1 k - owned s k \<subseteq> of_nat ` free_blocks s"
      "owned s2 k - owned s1 k \<subseteq> of_nat ` free_blocks s1" using a b by (simp_all add: extends_def)
    with image_mono[OF fr, of of_nat] show ?thesis by blast
  qed
  moreover have "slots s2 k i = slots s k i" if "i < NSLOTS" "slots s k i \<noteq> 0" for i
    using that a b by (simp add: extends_def)
  ultimately show ?thesis
    using a b env unfolding extends_def same_env_def by auto
qed

lemma grows_refl: "file_ok k s \<Longrightarrow> grows k s s"
  by (simp add: grows_def extends_refl)

lemma grows_trans: "grows k s s1 \<Longrightarrow> grows k s1 s2 \<Longrightarrow> file_ok k s \<Longrightarrow> grows k s s2"
  unfolding grows_def by (auto intro: extends_trans)

lemma grows_file_ok: "grows k s s' \<Longrightarrow> file_ok k s'"
  by (simp add: grows_def extends_def)

text \<open>
  One slot is filled with the next free block. The three places of \<open>block_map\<close> that allocate are
  instances.
\<close>

definition filled :: "INodeKey \<Rightarrow> nat \<Rightarrow> nat \<Rightarrow> 'a inode_cache_scheme \<Rightarrow> 'a inode_cache_scheme \<Rightarrow> bool" where
  "filled k i x s s' \<longleftrightarrow> fs_inv s' \<and> same_env s s' \<and>
     (\<exists>a. length a = 13 \<and>
        inodes s' = (inodes s)(k \<mapsto> (the (inodes s k))\<lparr>i_dinode := (the_dinode s k)\<lparr>di_addrs := a\<rparr>\<rparr>)) \<and>
     (\<forall>j < NSLOTS. slots s' k j = (if j = i then of_nat x else slots s k j)) \<and>
     (\<forall>y < unat (sb_size s). used s' y \<longleftrightarrow> used s y \<or> y = x) \<and>
     view s' (fst k, of_nat x) = (\<lambda>_. 0) \<and>
     (\<forall>b. content_block s b \<and> b \<noteq> of_nat x \<and> (b = slots s k NDIRECT \<longrightarrow> b = 0) \<longrightarrow>
        view s' (fst k, b) = view s (fst k, b))"

lemma filledI:
  assumes "fs_inv s'" "same_env s s'" "length a = 13"
    "inodes s' = (inodes s)(k \<mapsto> (the (inodes s k))\<lparr>i_dinode := (the_dinode s k)\<lparr>di_addrs := a\<rparr>\<rparr>)"
    "\<And>j. j < NSLOTS \<Longrightarrow> slots s' k j = (if j = i then of_nat x else slots s k j)"
    "\<And>y. y < unat (sb_size s) \<Longrightarrow> used s' y \<longleftrightarrow> used s y \<or> y = x"
    "view s' (fst k, of_nat x) = (\<lambda>_. 0)"
    "\<And>b. content_block s b \<Longrightarrow> b \<noteq> of_nat x \<Longrightarrow> b = slots s k NDIRECT \<longrightarrow> b = 0 \<Longrightarrow>
       view s' (fst k, b) = view s (fst k, b)"
  shows "filled k i x s s'"
  unfolding filled_def using assms by blast

lemma filled_file_ok:
  assumes ok: "file_ok k s" and i: "i < NSLOTS" and x: "next_free s = Some x" and f: "filled k i x s s'"
  shows "file_ok k s'"
proof -
  note b = file_ok_basic[OF ok] and d = next_free_data[OF file_ok_basic(1)[OF ok] x]
  have u: "unat (of_nat x :: u32) = x" using d by (intro unat_block_number) simp
  have nx: "\<not> used s x" "x < unat (sb_size s)" using x by (simp_all add: next_free_Some)
  have sl: "slots s' k j = (if j = i then of_nat x else slots s k j)" if "j < NSLOTS" for j
    using f that by (simp add: filled_def)
  have us: "used s' y \<longleftrightarrow> used s y \<or> y = x" if "y < unat (sb_size s)" for y
    using f that by (simp add: filled_def)
  have db: "data_block s' = data_block s" using f data_block_same_env by (auto simp: filled_def)
  have fresh: "slots s k j \<noteq> of_nat x" if "j < NSLOTS" "slots s k j \<noteq> 0" for j
    using file_ok_slot(2)[OF ok that] nx u by auto
  have data: "data_block s (unat (slots s k j))" "used s (unat (slots s k j))"
    "unat (slots s k j) < unat (sb_size s)" if "j < NSLOTS" "slots s k j \<noteq> 0" for j
    using file_ok_slot[OF ok that] by (auto simp: data_block_def)
  have "fst k = log_dev s'" using f b by (simp add: filled_def same_env_def)
  moreover have "\<exists>n. inodes s' k = Some n \<and> dinode_wf (i_dinode n)"
    using f by (auto simp: filled_def dinode_wf_def)
  moreover have "data_block s' (unat (slots s' k j)) \<and> used s' (unat (slots s' k j))"
    if "j < NSLOTS" "slots s' k j \<noteq> 0" for j
    using that sl data[of j] us nx u d db by (auto split: if_splits)
  moreover have "slots s' k j \<noteq> slots s' k l"
    if "j < NSLOTS" "l < NSLOTS" "j \<noteq> l" "slots s' k j \<noteq> 0" for j l
  proof -
    have "(of_nat x :: u32) \<noteq> 0" using u d(2) by (metis unat_0)
    then show ?thesis using that sl fresh[of j] fresh[of l] file_ok_slot(3)[OF ok, of j l]
      by (auto split: if_splits)
  qed
  ultimately show ?thesis using f unfolding file_ok_def filled_def by blast
qed

lemma filled_grows:
  assumes ok: "file_ok k s" and i: "i < NSLOTS" and z: "slots s k i = 0"
    and x: "next_free s = Some x" and f: "filled k i x s s'"
  shows "grows k s s'"
proof -
  note b = file_ok_basic[OF ok] and d = next_free_data[OF file_ok_basic(1)[OF ok] x]
  have u: "unat (of_nat x :: u32) = x" using d by (intro unat_block_number) simp
  have nx: "\<not> used s x" using x by (simp add: next_free_Some)
  have sl: "slots s' k j = (if j = i then of_nat x else slots s k j)" if "j < NSLOTS" for j
    using f that by (simp add: filled_def)
  have same: "view s' (fst k, c) = view s (fst k, c)"
    if "content_block s c" "used s (unat c)" "c = slots s k NDIRECT \<longrightarrow> c = 0" for c
    using that f nx u by (auto simp: filled_def)
  have "fcontent s' k = fcontent s k"
  proof
    fix off show "fcontent s' k off = fcontent s k off"
    proof (cases "off div BSIZE < MAX_FILE")
      case True
      let ?i = "slot_of (off div BSIZE)"
      have i': "?i < NSLOTS" "?i \<noteq> 12" using slot_of_less True by auto
      show ?thesis
      proof (cases "slots s k ?i = 0")
        case True
        then show ?thesis using sl[OF i'(1)] f by (auto simp: fcontent_def Let_def filled_def)
      next
        case False
        note o = file_ok_slot[OF ok i'(1) False]
        have "view s' (fst k, slots s k ?i) = view s (fst k, slots s k ?i)"
          using o i'(2) by (intro same) (auto simp: content_block_def)
        moreover have "slots s' k ?i = slots s k ?i" using sl[OF i'(1)] False z by auto
        ultimately show ?thesis by (simp add: fcontent_def Let_def)
      qed
    qed (simp add: fcontent_def)
  qed
  moreover have "view s' (fst k, c) = view s (fst k, c)"
    if "content_block s c" "used s (unat c)" "c \<notin> owned s k" for c
    using that by (intro same) (auto simp: owned_def)
  moreover have "owned s' k - owned s k \<subseteq> of_nat ` free_blocks s"
    using next_free_in[OF x] sl by (auto simp: owned_def)
  moreover have "slots s' k j = slots s k j" if "j < NSLOTS" "slots s k j \<noteq> 0" for j
    using that sl[of j] z by auto
  moreover have "\<forall>y < unat (sb_size s). used s y \<longrightarrow> used s' y" using f by (auto simp: filled_def)
  ultimately show ?thesis
    using filled_file_ok[OF ok i x f] f unfolding grows_def extends_def filled_def by blast
qed


section \<open>The block map as a state function\<close>

definition set_addr :: "INodeKey \<Rightarrow> nat \<Rightarrow> u32 \<Rightarrow> 'a inode_cache_scheme \<Rightarrow> 'a inode_cache_scheme" where
  "set_addr k i b s = put_inode k ((the (inodes s k))\<lparr>i_dinode := (the_dinode s k)\<lparr>di_addrs :=
     (di_addrs (the_dinode s k))[i := b]\<rparr>\<rparr>) s"

definition pslot :: "INodeKey \<Rightarrow> nat \<Rightarrow> 'a inode_cache_scheme \<Rightarrow> u32 \<times> 'a inode_cache_scheme" where
  "pslot k i s =
     (if slots s k i \<noteq> 0 then (slots s k i, s)
      else case next_free s of
        None \<Rightarrow> (0, s)
      | Some x \<Rightarrow> (of_nat x, set_addr k i (of_nat x) (alloc_result x s)))"

definition fill_entry :: "INodeKey \<Rightarrow> nat \<Rightarrow> nat \<Rightarrow> 'a inode_cache_scheme \<Rightarrow> 'a inode_cache_scheme" where
  "fill_entry k i x s =
     logd (slots s k NDIRECT)
       (put_u32 (view s (fst k, slots s k NDIRECT)) (4 * (i - 13)) (of_nat x)) (alloc_result x s)"

definition pmap :: "INodeKey \<Rightarrow> nat \<Rightarrow> 'a inode_cache_scheme \<Rightarrow> u32 \<times> 'a inode_cache_scheme" where
  "pmap k bn s =
     (if bn < NDIRECT then pslot k bn s
      else case pslot k NDIRECT s of (ind, s1) \<Rightarrow>
        if ind = 0 then (0, s1)
        else if slots s1 k (Suc bn) \<noteq> 0 then (slots s1 k (Suc bn), s1)
        else case next_free s1 of
          None \<Rightarrow> (0, s1)
        | Some x \<Rightarrow> (of_nat x, fill_entry k (Suc bn) x s1))"

lemma slots_direct: "i \<le> 12 \<Longrightarrow> slots s k i = di_addrs (the_dinode s k) ! i"
  by (simp add: slots_def Let_def)

lemma slots_indirect:
  "12 < i \<Longrightarrow> slots s k i = (if slots s k 12 = 0 then 0
     else get_u32 (view s (fst k, slots s k 12)) (4 * (i - 13)))"
  by (simp add: slots_def Let_def)

lemma next_free_number:
  assumes "fs_inv s" "next_free s = Some x"
  shows "unat (of_nat x :: u32) = x" "(of_nat x :: u32) \<noteq> 0"
proof -
  note d = next_free_data[OF assms]
  then show u: "unat (of_nat x :: u32) = x" by (intro unat_block_number) simp
  with d(2) show "(of_nat x :: u32) \<noteq> 0" by (metis unat_0)
qed

lemma addr_slot_run:
  assumes ok: "file_ok k s" and r: "room s 2" and i: "i \<le> 12"
  shows "addr_slot k i s = Inr (pslot k i s)"
proof -
  note b = file_ok_basic[OF ok]
  obtain n where n: "inodes s k = Some n" using b(3) by blast
  have ba: "block_alloc (fst k) s = Inr (balloc s)"
    using block_alloc_balloc[of "{}" s] b r by (simp add: fs_inv_def)
  have sl: "slots s k i = di_addrs (i_dinode n) ! i"
    using i n by (simp add: slots_direct the_dinode_def)
  show ?thesis
  proof (cases "next_free s")
    case None
    then show ?thesis using ba n sl by (simp add: addr_slot_def bnd_def pslot_def balloc_def)
  next
    case (Some x)
    have "(of_nat x :: u32) \<noteq> 0" using next_free_number[OF b(1) Some] by simp
    then show ?thesis using ba n sl Some
      by (simp add: addr_slot_def bnd_def pslot_def balloc_def set_addr_def the_dinode_def)
  qed
qed

lemma view_alloc_content:
  assumes i: "fs_inv s" and x: "next_free s = Some x" and b: "content_block s b" "b \<noteq> of_nat x"
  shows "view (alloc_result x s) (log_dev s, b) = view s (log_dev s, b)"
proof -
  have g: "fs_geom s" and xs: "x < unat (sb_size s)"
    using i x by (simp_all add: fs_inv_def next_free_Some)
  have "b \<noteq> BIT_BLOCK s x"
    using b(1) BIT_BLOCK_home(1,2)[OF g xs] by (auto simp: content_block_def data_block_def)
  with b(2) show ?thesis by (simp add: view_alloc_result)
qed

lemma view_alloc_fresh: "view (alloc_result x s) (log_dev s, of_nat x) = (\<lambda>_. 0)"
  by (simp add: view_alloc_result)

lemma same_env_alloc: "same_env s (alloc_result x s)"
  by (simp add: same_env_def)

lemma used_alloc:
  assumes "fs_inv s" "next_free s = Some x" "y < unat (sb_size s)"
  shows "used (alloc_result x s) y \<longleftrightarrow> used s y \<or> y = x"
  using bitmap.used_alloc[of s x y] next_free_data[OF assms(1,2)] assms
  by (simp add: fs_inv_def fs_limit_def)

lemma slot_content: "file_ok k s \<Longrightarrow> i < NSLOTS \<Longrightarrow> slots s k i \<noteq> 0 \<Longrightarrow> content_block s (slots s k i)"
  using file_ok_slot(1)[of k s i] by (simp add: content_block_def)

lemma slot_not_free:
  assumes "file_ok k s" "next_free s = Some x" "i < NSLOTS" "slots s k i \<noteq> 0"
  shows "slots s k i \<noteq> of_nat x"
  using file_ok_slot(2)[OF assms(1,3,4)] next_free_number[OF file_ok_basic(1)[OF assms(1)] assms(2)]
    assms(2) by (auto simp: next_free_Some)

lemma filled_addr:
  assumes ok: "file_ok k s" and r: "room s 2" and i: "i \<le> 12" and z: "slots s k i = 0"
    and x: "next_free s = Some x"
  shows "filled k i x s (set_addr k i (of_nat x) (alloc_result x s))" (is "filled _ _ _ _ ?s")
proof -
  note b = file_ok_basic[OF ok] and d = next_free_data[OF file_ok_basic(1)[OF ok] x]
  let ?a = "(di_addrs (the_dinode s k))[i := of_nat x]"
  have td: "the_dinode (alloc_result x s) k = the_dinode s k" by (simp add: the_dinode_def)
  have v: "view ?s = view (alloc_result x s)" by (simp add: set_addr_def)
  have vc: "view ?s (fst k, c) = view s (fst k, c)" if "content_block s c" "c \<noteq> of_nat x" for c
    unfolding v using view_alloc_content[OF b(1) x that] b(2) by simp
  have vf: "view ?s (fst k, of_nat x) = (\<lambda>_. 0)" unfolding v b(2) by (rule view_alloc_fresh)
  have a: "di_addrs (the_dinode ?s k) = ?a" by (simp add: set_addr_def the_dinode_def)
  have "slots ?s k j = (if j = i then of_nat x else slots s k j)" if j: "j < NSLOTS" for j
  proof (cases "j \<le> 12")
    case True
    with i b(4) show ?thesis by (auto simp: slots_direct a nth_list_update)
  next
    case False
    show ?thesis
    proof (cases "i = 12")
      case True
      have "slots ?s k 12 = of_nat x" using b(4) True a by (simp add: slots_direct)
      then show ?thesis using False True z vf by (simp add: slots_def Let_def)
    next
      case i12: False
      have "view ?s (fst k, slots s k 12) = view s (fst k, slots s k 12)" if "slots s k 12 \<noteq> 0"
        using that ok x by (intro vc slot_content slot_not_free) auto
      with False i12 i show ?thesis by (auto simp: slots_def Let_def a)
    qed
  qed
  moreover have "fs_inv ?s" using fs_inv_alloc_result[OF b(1) r d(1)] by (simp add: set_addr_def)
  moreover have "same_env s ?s" using same_env_alloc[of s x] by (simp add: same_env_def set_addr_def)
  moreover have "inodes ?s = (inodes s)(k \<mapsto> (the (inodes s k))\<lparr>i_dinode := (the_dinode s k)\<lparr>di_addrs := ?a\<rparr>\<rparr>)"
    by (simp add: set_addr_def td)
  moreover have "length ?a = 13" using b(4) by simp
  moreover have "used ?s = used (alloc_result x s)" by (simp add: set_addr_def)
  ultimately show ?thesis using used_alloc[OF b(1) x] vc vf by (intro filledI) simp_all
qed

lemma filled_entry:
  assumes ok: "file_ok k s" and r: "room s 3" and i: "12 < i" "i < NSLOTS" and z: "slots s k i = 0"
    and ind: "slots s k 12 \<noteq> 0" and x: "next_free s = Some x"
  shows "filled k i x s (fill_entry k i x s)" (is "filled _ _ _ _ ?s")
proof -
  note b = file_ok_basic[OF ok] and d = next_free_data[OF file_ok_basic(1)[OF ok] x]
  let ?ib = "slots s k 12" and ?s1 = "alloc_result x s"
  have ibx: "?ib \<noteq> of_nat x" using slot_not_free[OF ok x _ ind] by simp
  have ibd: "data_block s (unat ?ib)" using file_ok_slot(1)[OF ok _ ind] by simp
  have g: "log_geom s" using fs_inv_geom(1)[OF b(1)] .
  have r2: "room s 2" using room_le[OF r, of 2] by simp
  have i1: "fs_inv ?s1" using fs_inv_alloc_result[OF b(1) r2 d(1)] .
  have lr: "log_room ?s1"
    using room_alloc_result[of s 1 x] room_log_room[of ?s1 0] r g fs_inv_geom(1)[OF i1]
    by (simp add: numeral_3_eq_3)
  have fsi: "fs_inv ?s" unfolding fill_entry_def using i1 lr ibd by (intro fs_inv_logd_data) simp_all
  have v: "view ?s (fst k, c) = (if c = ?ib then put_u32 (view s (fst k, ?ib)) (4 * (i - 13)) (of_nat x)
      else view ?s1 (fst k, c))" for c
    unfolding fill_entry_def using b(2) by (simp add: view_logd)
  have vc: "view ?s (fst k, c) = view s (fst k, c)"
    if "content_block s c" "c \<noteq> of_nat x" "c = ?ib \<longrightarrow> c = 0" for c
    using that(3) ind view_alloc_content[OF b(1) x that(1,2)] v[of c] b(2) by auto
  have a: "the_dinode ?s k = the_dinode s k" by (simp add: fill_entry_def the_dinode_def)
  have s12: "slots ?s k 12 = ?ib" by (simp add: slots_direct a)
  have "slots ?s k j = (if j = i then of_nat x else slots s k j)" if j: "j < NSLOTS" for j
  proof (cases "j \<le> 12")
    case True
    with i show ?thesis by (simp add: slots_direct a)
  next
    case False
    have "slots ?s k j = get_u32 (view ?s (fst k, ?ib)) (4 * (j - 13))"
      using False ind s12 by (simp add: slots_indirect[of j])
    also have "\<dots> = (if i - 13 = j - 13 then of_nat x else get_u32 (view s (fst k, ?ib)) (4 * (j - 13)))"
      using v[of ?ib] u32c.get_put_slot[where v = "of_nat x" and d = "view s (fst k, ?ib)" and b = 0
        and i = "i - 13" and j = "j - 13"] by simp
    also have "\<dots> = (if j = i then of_nat x else slots s k j)"
      using False i ind by (auto simp: slots_indirect[of j s])
    finally show ?thesis .
  qed
  moreover have "same_env s ?s" using same_env_alloc[of s x] by (simp add: same_env_def fill_entry_def)
  moreover have "inodes ?s = (inodes s)(k \<mapsto> (the (inodes s k))\<lparr>i_dinode := (the_dinode s k)\<lparr>di_addrs :=
      di_addrs (the_dinode s k)\<rparr>\<rparr>)"
    using b(3) by (simp add: fill_entry_def the_dinode_def fun_upd_idem)
  moreover have "used ?s y = used ?s1 y" if "y < unat (sb_size s)" for y
    unfolding fill_entry_def using i1 ibd that by (intro used_logd_data_block) simp_all
  moreover have "view ?s (fst k, of_nat x) = (\<lambda>_. 0)"
    using v[of "of_nat x"] ibx view_alloc_fresh[of x s] b(2) by simp
  ultimately show ?thesis using used_alloc[OF b(1) x] vc fsi b(4)
    by (intro filledI[where a = "di_addrs (the_dinode s k)"]) (assumption | simp)+
qed


lemma room_set_addr [simp]: "room (set_addr k i b s) n = room s n"
  "free_blocks (set_addr k i b s) = free_blocks s"
  by (simp_all add: set_addr_def)

lemma card_free_alloc:
  assumes "fs_inv s" "next_free s = Some x"
  shows "card (free_blocks s) = Suc (card (free_blocks (alloc_result x s)))"
  unfolding free_blocks_alloc[OF assms]
  using card_Suc_Diff1[OF finite_free_blocks next_free_in[OF assms(2)]] by simp

lemma pslot_spec:
  assumes ok: "file_ok k s" and r: "room s (Suc (Suc n))" and i: "i \<le> 12" and e: "pslot k i s = (b, s')"
  shows "grows k s s'" "room s' n" "slots s' k i = b"
    "card (free_blocks s) \<le> Suc (card (free_blocks s'))" "b = 0 \<Longrightarrow> free_blocks s = {}"
proof -
  note f = file_ok_basic[OF ok]
  have "grows k s s' \<and> room s' n \<and> slots s' k i = b \<and>
    card (free_blocks s) \<le> Suc (card (free_blocks s')) \<and> (b = 0 \<longrightarrow> free_blocks s = {})"
  proof (cases "slots s k i = 0")
    case False
    then show ?thesis using e ok r by (auto simp: pslot_def grows_refl intro: room_le)
  next
    case z: True
    show ?thesis
    proof (cases "next_free s")
      case None
      then have "b = 0" "s' = s" using e z by (simp_all add: pslot_def)
      moreover have "free_blocks s = {}" using None by (auto simp: next_free_None free_blocks_def)
      ultimately show ?thesis using z ok r by (auto simp: grows_refl intro: room_le)
    next
      case (Some x)
      then have b: "b = of_nat x" and s': "s' = set_addr k i (of_nat x) (alloc_result x s)"
        using e z by (auto simp: pslot_def)
      have r2: "room s 2" using room_le[OF r, of 2] by simp
      note fl = filled_addr[OF ok r2 i z Some, folded s']
      have "grows k s s'" using filled_grows[OF ok _ z Some fl] i by simp
      moreover have "slots s' k i = b" using fl i b by (simp add: filled_def)
      moreover have "room s' n" using room_alloc_result[OF r fs_inv_geom(1)[OF f(1)]] s' by simp
      ultimately show ?thesis
        using card_free_alloc[OF f(1) Some] next_free_number[OF f(1) Some] s' b by simp
    qed
  qed
  then show "grows k s s'" "room s' n" "slots s' k i = b"
    "card (free_blocks s) \<le> Suc (card (free_blocks s'))" "b = 0 \<Longrightarrow> free_blocks s = {}"
    by simp_all
qed

lemma fill_entry_spec:
  assumes ok: "file_ok k s" and r: "room s (Suc (Suc (Suc n)))" and i: "12 < i" "i < NSLOTS"
    and z: "slots s k i = 0" and ind: "slots s k 12 \<noteq> 0" and x: "next_free s = Some x"
    and s': "s' = fill_entry k i x s"
  shows "grows k s s'" "room s' n" "slots s' k i = of_nat x"
    "card (free_blocks s) = Suc (card (free_blocks s'))"
proof -
  note f = file_ok_basic[OF ok]
  have r3: "room s 3" "room s 2" using room_le[OF r, of 3] room_le[OF r, of 2] by simp_all
  note fl = filled_entry[OF ok r3(1) i z ind x, folded s']
  show "grows k s s'" using filled_grows[OF ok i(2) z x fl] .
  show "slots s' k i = of_nat x" using fl i by (simp add: filled_def)
  have g: "log_geom s" using fs_inv_geom(1)[OF f(1)] .
  have i1: "fs_inv (alloc_result x s)" using fs_inv_alloc_result[OF f(1) r3(2)] next_free_data[OF f(1) x] by simp
  show "room s' n"
    unfolding s' fill_entry_def using room_alloc_result[OF r g] fs_inv_geom(1)[OF i1] by (rule room_logd)
  have "used s' y = used (alloc_result x s) y" if "y < unat (sb_size s)" for y
    unfolding s' fill_entry_def using i1 that file_ok_slot(1)[OF ok _ ind]
    by (intro used_logd_data_block) simp_all
  then have "free_blocks s' = free_blocks (alloc_result x s)"
    using fl by (auto simp: free_blocks_def filled_def same_env_def)
  then show "card (free_blocks s) = Suc (card (free_blocks s'))"
    using card_free_alloc[OF f(1) x] by simp
qed

lemma pmap_spec:
  assumes ok: "file_ok k s" and r: "room s (n + 5)" and bn: "bn < MAX_FILE" and e: "pmap k bn s = (b, s')"
  shows "grows k s s' \<and> room s' n \<and> slots s' k (slot_of bn) = b \<and>
    card (free_blocks s) \<le> card (free_blocks s') + 2 \<and> (b = 0 \<longrightarrow> card (free_blocks s) \<le> 1)"
proof (cases "bn < 12")
  case True
  then have "pslot k bn s = (b, s')" using e by (simp add: pmap_def)
  from pslot_spec[OF ok _ _ this, of "n + 3"] r True show ?thesis
    by (auto simp: slot_of_def numeral_eq_Suc intro: room_le)
next
  case False
  obtain ind s1 where p: "pslot k 12 s = (ind, s1)" by fastforce
  note g1 = pslot_spec[OF ok _ _ p, of "n + 3"]
  have g: "grows k s s1" "room s1 (n + 3)" "slots s1 k 12 = ind"
    "card (free_blocks s) \<le> Suc (card (free_blocks s1))"
    using g1 r by (simp_all add: numeral_eq_Suc)
  have ok1: "file_ok k s1" using g(1) by (rule grows_file_ok)
  have so: "slot_of bn = Suc bn" "12 < Suc bn" "Suc bn < NSLOTS" using False bn by (simp_all add: slot_of_def)
  consider (noind) "ind = 0" | (mapped) "ind \<noteq> 0" "slots s1 k (Suc bn) \<noteq> 0"
    | (full) "ind \<noteq> 0" "slots s1 k (Suc bn) = 0" "next_free s1 = None"
    | (fill) x where "ind \<noteq> 0" "slots s1 k (Suc bn) = 0" "next_free s1 = Some x"
    by (cases "next_free s1") auto
  then show ?thesis
  proof cases
    case noind
    then have "slots s1 k (Suc bn) = 0" using g(3) so(2) by (simp add: slots_indirect)
    then show ?thesis using noind e p False g g1(5) r so
      by (auto simp: pmap_def numeral_eq_Suc intro: room_le)
  next
    case mapped
    then show ?thesis using e p False g so by (auto simp: pmap_def intro: room_le)
  next
    case full
    then have "free_blocks s1 = {}" by (auto simp: next_free_None free_blocks_def)
    with full show ?thesis using e p False g so by (auto simp: pmap_def intro: room_le)
  next
    case fill
    then have b: "b = of_nat x" "s' = fill_entry k (Suc bn) x s1" using e p False by (simp_all add: pmap_def)
    have r3: "room s1 (Suc (Suc (Suc n)))" using g(2) by (simp add: numeral_eq_Suc)
    note fe = fill_entry_spec[OF ok1 r3 so(2,3) fill(2) _ fill(3) b(2)]
    have i0: "slots s1 k 12 \<noteq> 0" using fill g by simp
    show ?thesis
      using fe[OF i0] grows_trans[OF g(1) _ ok] g(4) b(1) so(1)
        next_free_number[OF file_ok_basic(1)[OF ok1] fill(3)] by simp
  qed
qed


section \<open>The code computes the state function\<close>

text \<open>An allocation while a used data block is held.\<close>

lemma block_alloc_holding:
  assumes i: "fs_inv s" and r: "room s 2" and b: "data_block s (unat b)" "used s (unat b)"
    and q: "q = (log_dev s, b)"
  shows "block_alloc (log_dev s) (holdd q (view s q) s) =
    Inr (case next_free s of None \<Rightarrow> (0, holdd q (view s q) s)
      | Some x \<Rightarrow> (of_nat x, holdd q (view s q) (alloc_result x s)))"
proof -
  let ?h = "holdd q (view s q) s"
  have g: "fs_geom s" using i by (simp add: fs_inv_def)
  have ne: "b \<noteq> BIT_BLOCK s y" if "y < unat (sb_size s)" for y
    using data_block_home(2)[OF g b(1) that] .
  have nf: "b \<noteq> of_nat y" if "y < unat (sb_size s)" "\<not> used s y" for y
    using that b(2) unat_block_number[of y] g by (auto simp: fs_geom_def)
  have "held_apart {q} ?h" using ne nf by (auto simp: held_apart_def q)
  moreover have "jinv {q} ?h" using jinv_holdd[of "{}" s q] i by (simp add: fs_inv_def)
  ultimately have "block_alloc (log_dev s) ?h = Inr (balloc ?h)"
    using block_alloc_balloc[of "{q}" ?h] i r by (simp add: fs_inv_def)
  moreover have "alloc_result x ?h = holdd q (view s q) (alloc_result x s)" if "next_free s = Some x" for x
    using that ne nf by (intro alloc_result_holdd) (auto simp: q next_free_Some)
  ultimately show ?thesis by (simp add: balloc_def split: option.split)
qed

lemma block_map_indirect:
  assumes ok: "file_ok k s" and r: "room s 3" and i: "12 < i" "i < NSLOTS" and ind: "slots s k 12 \<noteq> 0"
    and p: "p = 4 * (i - 13)"
  shows "bnd (block_read (fst k) (slots s k 12)) (\<lambda>bp.
      bnd (block_data bp) (\<lambda>dir.
      bnd (if get_u32 dir p = 0 then
             bnd (block_alloc (fst k)) (\<lambda>b.
             bnd (when_do (b \<noteq> 0)
               (bnd (set_block_data bp (put_u32 dir p b)) (\<lambda>_. log_write bp))) (\<lambda>_.
             ret b))
           else ret (get_u32 dir p)) (\<lambda>bno_phy.
      bnd (block_release bp) (\<lambda>_.
      ret bno_phy)))) s =
    Inr (if slots s k i \<noteq> 0 then (slots s k i, s)
      else case next_free s of None \<Rightarrow> (0, s) | Some x \<Rightarrow> (of_nat x, fill_entry k i x s))"
proof -
  note f = file_ok_basic[OF ok]
  let ?ib = "slots s k 12"
  let ?q = "(log_dev s, ?ib)"
  let ?D = "view s ?q"
  have g: "fs_geom s" "log_geom s" and j: "jinv {} s" using f(1) by (simp_all add: fs_inv_def jinv_def)
  note o = file_ok_slot[OF ok _ ind, simplified]
  have hb: "home_block s ?ib" using data_block_home(1)[OF g(1) o(1)] .
  have rd: "block_read (fst k) ?ib s = Inr (?q, holdd ?q ?D s)"
    using block_read_j[OF j] hb f(2) by (simp add: home_block_def)
  have rel: "block_release ?q (holdd ?q ?D s) = Inr ((), s)" using block_release_j[OF j] by simp
  have e: "get_u32 ?D p = slots s k i" using i ind f(2) by (simp add: slots_indirect[of i] p)
  have al: "block_alloc (fst k) (holdd ?q ?D s) = Inr (case next_free s of None \<Rightarrow> (0, holdd ?q ?D s)
      | Some x \<Rightarrow> (of_nat x, holdd ?q ?D (alloc_result x s)))"
    using block_alloc_holding[OF f(1) room_le[OF r, of 2] o(1,2) refl] f(2) by simp
  show ?thesis
  proof (cases "next_free s")
    case None
    then show ?thesis using rd rel e al by (simp add: bnd_def)
  next
    case (Some x)
    let ?s1 = "alloc_result x s"
    let ?D' = "put_u32 ?D p (of_nat x)"
    have r1: "room ?s1 1" using room_alloc_result[of s 1 x] r g by (simp add: numeral_3_eq_3)
    have i1: "fs_inv ?s1"
      using fs_inv_alloc_result[OF f(1) room_le[OF r, of 2]] next_free_data[OF f(1) Some] by simp
    have j1: "jinv {} ?s1" and lr: "log_room ?s1"
      using i1 r1 room_log_room[of ?s1 0] by (simp_all add: fs_inv_def jinv_def)
    have w: "log_write ?q (holdd ?q ?D' ?s1) = Inr ((), holdd ?q ?D' (fill_entry k i x s))"
      using log_write_hold[OF j1 _ _ lr, of ?q ?ib] f(2) by (simp add: fill_entry_def p)
    have rl: "block_release ?q (holdd ?q ?D' (fill_entry k i x s)) = Inr ((), fill_entry k i x s)"
      using log_write_release[OF j1 _ _ lr, of ?q ?ib] f(2) hb by (simp add: fill_entry_def p)
    show ?thesis using rd rel e al w rl Some next_free_number[OF f(1) Some] by (simp add: bnd_def)
  qed
qed

lemma block_map_run:
  assumes ok: "file_ok k s" and r: "room s 5" and bn: "bn < MAX_FILE"
  shows "block_map k bn s = Inr (pmap k bn s)"
proof (cases "bn < 12")
  case True
  then show ?thesis
    using addr_slot_run[OF ok room_le[OF r, of 2]] by (simp add: block_map_def pmap_def)
next
  case False
  obtain ind s1 where p: "pslot k 12 s = (ind, s1)" by fastforce
  have g: "grows k s s1" "room s1 3" "slots s1 k 12 = ind"
    using pslot_spec[OF ok _ _ p, of 3] r by (simp_all add: numeral_eq_Suc)
  have ok1: "file_ok k s1" using g(1) by (rule grows_file_ok)
  have a: "addr_slot k 12 s = Inr (ind, s1)" using addr_slot_run[OF ok room_le[OF r, of 2]] p by simp
  have ib: "12 < Suc bn" "Suc bn < NSLOTS" using False bn by simp_all
  have pos: "4 * (bn - 12) = 4 * (Suc bn - 13)" by simp
  show ?thesis
  proof (cases "ind = 0")
    case True
    then show ?thesis using False bn a p by (simp add: block_map_def pmap_def bnd_run)
  next
    case ne: False
    have "slots s1 k 12 \<noteq> 0" using ne g(3) by simp
    from block_map_indirect[OF ok1 g(2) ib this pos] show ?thesis
      using False bn a p ne g(3) by (simp add: block_map_def pmap_def bnd_run Let_def)
  qed
qed

text \<open>A block that is present is found without a transaction.\<close>

lemma block_map_present:
  assumes ok: "file_ok k s" and bn: "bn < MAX_FILE" and ne: "slots s k (slot_of bn) \<noteq> 0"
  shows "block_map k bn s = Inr (slots s k (slot_of bn), s)"
proof -
  note f = file_ok_basic[OF ok]
  obtain n where n: "inodes s k = Some n" using f(3) by blast
  have sl: "di_addrs (i_dinode n) ! i = slots s k i" if "i \<le> 12" for i
    using that n by (simp add: slots_direct the_dinode_def)
  show ?thesis
  proof (cases "bn < 12")
    case True
    then show ?thesis using n sl[of bn] ne by (simp add: block_map_def addr_slot_def bnd_def slot_of_def)
  next
    case False
    then have so: "slot_of bn = Suc bn" by (simp add: slot_of_def)
    have i0: "slots s k 12 \<noteq> 0" using False ne so by (auto simp: slots_indirect[of "Suc bn"] split: if_splits)
    let ?q = "(log_dev s, slots s k 12)"
    have g: "fs_geom s" and j: "jinv {} s" using f(1) by (simp_all add: fs_inv_def)
    have "home_block s (slots s k 12)" using data_block_home(1)[OF g file_ok_slot(1)[OF ok _ i0]] by simp
    then have rd: "block_read (fst k) (slots s k 12) s = Inr (?q, holdd ?q (view s ?q) s)"
      using block_read_j[OF j] f(2) by (simp add: home_block_def)
    have rel: "block_release ?q (holdd ?q (view s ?q) s) = Inr ((), s)"
      using block_release_j[OF j] by simp
    have "get_u32 (view s ?q) (4 * (bn - 12)) = slots s k (Suc bn)"
      using False i0 f(2) by (simp add: slots_indirect[of "Suc bn"])
    then show ?thesis using n sl[of 12] i0 rd rel ne so False bn
      by (simp add: block_map_def addr_slot_def bnd_def Let_def)
  qed
qed

end
