(* ===== verification/File_Content.thy ===== *)
theory File_Content
  imports Inode_Blocks
begin

text \<open>
  The contents of a file: \<open>INode::update\<close> and \<open>INode::lock\<close> against the inode blocks,
  \<open>INode::write\<close>, \<open>INode::read\<close> and \<open>INode::trunc\<close> against the bytes \<open>fcontent\<close> of the file.
\<close>

section \<open>The inode on disk\<close>

definition inum_ok :: "'a log_state_scheme \<Rightarrow> u32 \<Rightarrow> bool" where
  "inum_ok s i \<longleftrightarrow> unat i < unat (sb_ninodes s)"

definition disk_dinode :: "'a log_state_scheme \<Rightarrow> u32 \<Rightarrow> DiskINode" where
  "disk_dinode s i = get_dinode (view s (log_dev s, INODE_BLOCK s i)) (inode_pos i)"

definition iupdate :: "INodeKey \<Rightarrow> 'a inode_cache_scheme \<Rightarrow> 'a inode_cache_scheme" where
  "iupdate k s =
     logd (INODE_BLOCK s (snd k))
       (put_dinode (view s (log_dev s, INODE_BLOCK s (snd k))) (inode_pos (snd k)) (the_dinode s k)) s"

lemma INODE_BLOCK_home:
  assumes g: "fs_geom s" and i: "inum_ok s i"
  shows "unat (INODE_BLOCK s i) = unat (sb_inodestart s) + unat i div 16"
    "unat (INODE_BLOCK s i) < unat (sb_bmapstart s)" "home_block s (INODE_BLOCK s i)"
proof -
  have le: "unat i div 16 \<le> unat (sb_ninodes s) div 16"
    using i by (intro div_le_mono) (simp add: inum_ok_def)
  with g have lt: "unat (sb_inodestart s) + unat i div 16 < unat (sb_bmapstart s)"
    by (simp add: fs_geom_def)
  moreover have bm: "unat (sb_bmapstart s) < unat (sb_size s)" "unat (sb_size s) \<le> 2 ^ 22"
    using g by (simp_all add: fs_geom_def data_start_def)
  ultimately have q: "unat (of_nat (unat i div 16) :: u32) = unat i div 16"
    by (intro unat_block_number) simp
  have "unat (of_nat (unat i div 16) :: u32) + unat (sb_inodestart s) < 2 ^ LENGTH(32)"
    unfolding q using lt bm by simp
  then have "unat (INODE_BLOCK s i) = unat (of_nat (unat i div 16) :: u32) + unat (sb_inodestart s)"
    unfolding INODE_BLOCK_def by (rule unat_add_lem[THEN iffD1])
  with q show u: "unat (INODE_BLOCK s i) = unat (sb_inodestart s) + unat i div 16" by simp
  with lt show "unat (INODE_BLOCK s i) < unat (sb_bmapstart s)" by simp
  with u bm show "home_block s (INODE_BLOCK s i)"
    by (intro block_number_home[OF g _ _ refl]) simp_all
qed

lemma INODE_BLOCK_not_bitmap:
  assumes "fs_geom s" "inum_ok s i" "y < unat (sb_size s)"
  shows "INODE_BLOCK s i \<noteq> BIT_BLOCK s y"
  using INODE_BLOCK_home(2)[OF assms(1,2)] BIT_BLOCK_home(1)[OF assms(1,3)] by auto

lemma INODE_BLOCK_content: "fs_geom s \<Longrightarrow> inum_ok s i \<Longrightarrow> content_block s (INODE_BLOCK s i)"
  using INODE_BLOCK_home(2)[of s i] by (simp add: content_block_def)

lemma INODE_BLOCK_used:
  assumes "fs_inv s" "inum_ok s i"
  shows "used s (unat (INODE_BLOCK s i))"
  using assms INODE_BLOCK_home(2)[of s i] by (simp add: fs_inv_def meta_used_def data_start_def)

lemma data_not_inode_block:
  assumes "fs_geom s" "inum_ok s i" "data_block s (unat b)"
  shows "b \<noteq> INODE_BLOCK s i"
  using INODE_BLOCK_home(2)[OF assms(1,2)] assms(3) by (auto simp: data_block_def data_start_def)

lemma inode_pos_apart:
  assumes "unat i mod 16 \<noteq> unat j mod 16"
  shows "inode_pos i + 64 \<le> inode_pos j \<or> inode_pos j + 64 \<le> inode_pos i"
proof -
  consider "Suc (unat i mod 16) \<le> unat j mod 16" | "Suc (unat j mod 16) \<le> unat i mod 16"
    using assms by linarith
  then show ?thesis by cases (auto simp: inode_pos_def dest!: mult_le_mono2[of _ _ 64])
qed

lemma INODE_BLOCK_logd [simp]:
  "INODE_BLOCK (logd b d s) = INODE_BLOCK s" "inum_ok (logd b d s) = inum_ok s"
  "inum_ok (put_inode k n s') = inum_ok s'"
  by (simp_all add: INODE_BLOCK_def inum_ok_def fun_eq_iff)

lemma INode_update_run:
  assumes i: "fs_inv s" and r: "log_room s" and k: "fst k = log_dev s" "inum_ok s (snd k)"
    and n: "inodes s k = Some n"
  shows "INode_update k s = Inr ((), iupdate k s)"
proof -
  let ?ib = "INODE_BLOCK s (snd k)"
  let ?q = "(log_dev s, ?ib)"
  let ?D = "view s ?q"
  let ?D' = "put_dinode ?D (inode_pos (snd k)) (the_dinode s k)"
  have j: "jinv {} s" and g: "fs_geom s" using i by (simp_all add: fs_inv_def)
  have hb: "home_block s ?ib" using INODE_BLOCK_home[OF g k(2)] by simp
  have rd: "block_read (log_dev s) ?ib s = Inr (?q, holdd ?q ?D s)"
    using block_read_j[OF j] hb by (simp add: home_block_def)
  have w: "log_write ?q (holdd ?q ?D' s) = Inr ((), holdd ?q ?D' (logd ?ib ?D' s))"
    using log_write_hold[OF j refl _ r] by simp
  have rl: "block_release ?q (holdd ?q ?D' (logd ?ib ?D' s)) = Inr ((), logd ?ib ?D' s)"
    using log_write_release[OF j refl _ r hb] by simp
  show ?thesis
    using rd w rl k(1) n by (simp add: INode_update_def bnd_def iupdate_def the_dinode_def)
qed

lemma iupdate_fields [simp]:
  "log_dev (iupdate k s) = log_dev s" "sb_size (iupdate k s) = sb_size s"
  "inodes (iupdate k s) = inodes s" "the_dinode (iupdate k s) = the_dinode s"
  "INODE_BLOCK (iupdate k s) = INODE_BLOCK s" "inum_ok (iupdate k s) = inum_ok s"
  "data_block (iupdate k s) = data_block s" "fs_geom (iupdate k s) = fs_geom s"
  "same_env s (iupdate k s)"
  by (simp_all add: iupdate_def the_dinode_def fun_eq_iff data_block_def same_env_def)

lemma fs_inv_iupdate:
  assumes "fs_inv s" "log_room s" "inum_ok s (snd k)"
  shows "fs_inv (iupdate k s)"
  unfolding iupdate_def
  using assms INODE_BLOCK_home(3)[of s "snd k"] INODE_BLOCK_not_bitmap[of s "snd k"]
  by (intro fs_inv_logd) (auto simp: fs_inv_def)

lemma view_iupdate:
  "view (iupdate k s) (log_dev s, b) =
     (if b = INODE_BLOCK s (snd k)
      then put_dinode (view s (log_dev s, b)) (inode_pos (snd k)) (the_dinode s k)
      else view s (log_dev s, b))"
  by (simp add: iupdate_def view_logd)

text \<open>The inode table after an update: the inode is on disk, the others are as before.\<close>

lemma disk_dinode_iupdate:
  assumes i: "fs_inv s" and k: "inum_ok s (snd k)" and j: "inum_ok s j"
    and wf: "dinode_wf (the_dinode s k)"
  shows "disk_dinode (iupdate k s) j = (if j = snd k then the_dinode s k else disk_dinode s j)"
proof (cases "INODE_BLOCK s j = INODE_BLOCK s (snd k)")
  case True
  have g: "fs_geom s" using i by (simp add: fs_inv_def)
  have d: "unat j div 16 = unat (snd k) div 16"
    using INODE_BLOCK_home(1)[OF g j] INODE_BLOCK_home(1)[OF g k] True by simp
  show ?thesis
  proof (cases "j = snd k")
    case True
    with wf show ?thesis by (simp add: disk_dinode_def view_iupdate dinodec.get_put)
  next
    case False
    then have "unat j mod 16 \<noteq> unat (snd k) mod 16"
      using d by (metis div_mult_mod_eq unsigned_word_eqI)
    from inode_pos_apart[OF this] False True wf show ?thesis
      by (auto simp: disk_dinode_def view_iupdate intro!: dinodec.get_put_apart)
  qed
next
  case False
  then show ?thesis by (auto simp: disk_dinode_def view_iupdate)
qed

lemma used_iupdate:
  assumes "fs_inv s" "inum_ok s (snd k)" "y < unat (sb_size s)"
  shows "used (iupdate k s) y = used s y"
  unfolding iupdate_def using assms INODE_BLOCK_not_bitmap[of s "snd k" y]
  by (intro used_logd_other) (simp add: fs_inv_def)

lemma view_iupdate_data:
  assumes "fs_geom s" "inum_ok s (snd k)" "data_block s (unat b)"
  shows "view (iupdate k s) (log_dev s, b) = view s (log_dev s, b)"
  using data_not_inode_block[OF assms] by (simp add: view_iupdate)

lemma iupdate_file:
  assumes ok: "file_ok k s" and r: "log_room s" and i: "inum_ok s (snd k)"
  shows "file_ok k (iupdate k s)" "slots (iupdate k s) k = slots s k" "fcontent (iupdate k s) k = fcontent s k"
proof -
  note f = file_ok_basic[OF ok]
  have g: "fs_geom s" using f(1) by (simp add: fs_inv_def)
  have v: "view (iupdate k s) (fst k, slots s k j) = view s (fst k, slots s k j)"
    if "j < NSLOTS" "slots s k j \<noteq> 0" for j
    using view_iupdate_data[OF g i file_ok_slot(1)[OF ok that]] f(2) by simp
  show sl: "slots (iupdate k s) k = slots s k"
  proof
    fix j
    show "slots (iupdate k s) k j = slots s k j"
      using v[of 12] by (cases "j \<le> 12") (auto simp: slots_direct slots_indirect)
  qed
  show "fcontent (iupdate k s) k = fcontent s k"
  proof
    fix p show "fcontent (iupdate k s) k p = fcontent s k p"
      using v[of "slot_of (p div BSIZE)"] slot_of_less(1)[of "p div BSIZE"]
      by (auto simp: fcontent_def Let_def sl)
  qed
  have "used (iupdate k s) (unat (slots s k j))" if "j < NSLOTS" "slots s k j \<noteq> 0" for j
    using file_ok_slot[OF ok that] used_iupdate[OF f(1) i] by (simp add: data_block_def)
  then show "file_ok k (iupdate k s)"
    using ok fs_inv_iupdate[OF f(1) r i] unfolding file_ok_def sl by simp
qed


section \<open>Writing\<close>

lemma div_mod_window:
  fixes off :: nat
  assumes m: "m \<le> 1024 - off mod 1024" and p: "p div 1024 = off div 1024"
  shows "off mod 1024 \<le> p mod 1024 \<and> p mod 1024 < off mod 1024 + m \<longleftrightarrow> off \<le> p \<and> p < off + m"
    "p mod 1024 - off mod 1024 = p - off"
proof -
  have "off = 1024 * (off div 1024) + off mod 1024" "p = 1024 * (off div 1024) + p mod 1024"
    using p by (metis mult_div_mod_eq)+
  then show "off mod 1024 \<le> p mod 1024 \<and> p mod 1024 < off mod 1024 + m \<longleftrightarrow> off \<le> p \<and> p < off + m"
    "p mod 1024 - off mod 1024 = p - off" by linarith+
qed

lemma window_block:
  fixes off :: nat
  assumes m: "m \<le> 1024 - off mod 1024" and p: "off \<le> p" "p < off + m"
  shows "p div 1024 = off div 1024"
proof -
  have "off = 1024 * (off div 1024) + off mod 1024" "off mod 1024 < 1024" by simp_all
  with m p have "1024 * (off div 1024) \<le> p" "p < 1024 * (off div 1024) + 1024" by linarith+
  then show ?thesis by (metis add.commute div_nat_eqI mult.commute mult_Suc_right)
qed

text \<open>Overwriting part of one block of the file.\<close>

lemma write_block:
  assumes ok: "file_ok k s" and r: "room s (Suc n)" and bn: "bn < MAX_FILE" "bn = off div BSIZE"
    and b: "b = slots s k (slot_of bn)" "b \<noteq> 0" and m: "length xs \<le> BSIZE - off mod BSIZE"
    and s': "s' = logd b (put_bytes (view s (fst k, b)) (off mod BSIZE) xs) s"
  shows "extends k s s'" "room s' n" "slots s' k = slots s k" "free_blocks s' = free_blocks s"
    "fcontent s' k p = (if off \<le> p \<and> p < off + length xs then xs ! (p - off) else fcontent s k p)"
proof -
  note f = file_ok_basic[OF ok]
  have sn: "slot_of bn < NSLOTS" "slot_of bn \<noteq> 12" using slot_of_less bn(1) by simp_all
  have o: "data_block s (unat b)" "used s (unat b)" using file_ok_slot(1,2)[OF ok sn(1)] b by simp_all
  have apart: "slots s k j \<noteq> b" if "j < NSLOTS" "j \<noteq> slot_of bn" for j
    using file_ok_slot(3)[OF ok sn(1)] b that by metis
  have lr: "log_room s" using room_log_room[OF r fs_inv_geom(1)[OF f(1)]] .
  have v: "view s' (fst k, c) = (if c = b then put_bytes (view s (fst k, b)) (off mod BSIZE) xs
      else view s (fst k, c))" for c
    using f(2) by (simp add: s' view_logd)
  have td: "the_dinode s' k = the_dinode s k" "inodes s' = inodes s" by (simp_all add: s' the_dinode_def)
  show sl: "slots s' k = slots s k"
  proof
    fix j show "slots s' k j = slots s k j"
      using apart[of 12] sn(2) v[of "slots s k 12"] by (cases "j \<le> 12") (auto simp: slots_direct slots_indirect td)
  qed
  show "room s' n" unfolding s' using r fs_inv_geom(1)[OF f(1)] by (rule room_logd)
  have env: "same_env s s'" by (simp add: same_env_def s')
  have us: "used s' y = used s y" if "y < unat (sb_size s)" for y
    unfolding s' using used_logd_data_block[OF f(1) o(1) that] .
  then show "free_blocks s' = free_blocks s"
    using env by (auto simp: free_blocks_def same_env_def)
  have "fs_inv s'" unfolding s' using fs_inv_logd_data[OF f(1) lr o(1)] .
  moreover have "used s' (unat (slots s k j))" if "j < NSLOTS" "slots s k j \<noteq> 0" for j
    using file_ok_slot[OF ok that] us by (simp add: data_block_def)
  ultimately have ok': "file_ok k s'"
    using ok env unfolding file_ok_def sl td data_block_same_env[OF env] by (simp add: same_env_def)
  have own: "owned s' k = owned s k" by (simp add: owned_def sl)
  have "view s' (fst k, c) = view s (fst k, c)" if "c \<notin> owned s k" for c
    using that b sn(1) v[of c] by (auto simp: owned_def)
  moreover have "inodes s' = (inodes s)(k \<mapsto> (the (inodes s k))\<lparr>i_dinode := (the_dinode s k)\<lparr>di_addrs :=
      di_addrs (the_dinode s k)\<rparr>\<rparr>)"
    using f(3) by (simp add: td the_dinode_def fun_upd_idem)
  ultimately show "extends k s s'"
    using ok' env us own unfolding extends_def sl by blast
  show "fcontent s' k p = (if off \<le> p \<and> p < off + length xs then xs ! (p - off) else fcontent s k p)"
  proof (cases "p div BSIZE = bn")
    case True
    then have pb: "p div 1024 = off div 1024" using bn(2) by simp
    have "fcontent s' k p = put_bytes (view s (fst k, b)) (off mod BSIZE) xs (p mod BSIZE)"
      "fcontent s k p = view s (fst k, b) (p mod BSIZE)"
      using True b bn(1) v[of b] by (simp_all add: fcontent_def sl)
    then show ?thesis using div_mod_window[OF m pb] by (simp add: put_bytes_def)
  next
    case False
    then have "\<not> (off \<le> p \<and> p < off + length xs)" using window_block[OF m] bn(2) by metis
    moreover have "fcontent s' k p = fcontent s k p"
      using False apart[of "slot_of (p div BSIZE)"] slot_of_less(1)[of "p div BSIZE"]
        v[of "slots s k (slot_of (p div BSIZE))"]
      by (auto simp: fcontent_def Let_def sl slot_of_inj)
    ultimately show ?thesis by auto
  qed
qed


text \<open>One turn of the write loop, once the block is mapped.\<close>

lemma write_block_run:
  assumes ok: "file_ok k s" and r: "room s (Suc n)" and b: "data_block s (unat b)"
    and s': "s' = logd b (f (view s (fst k, b))) s"
  shows "bnd (block_read (fst k) b) (\<lambda>bp. bnd (block_data bp) (\<lambda>d.
      bnd (set_block_data bp (f d)) (\<lambda>_. bnd (log_write bp) (\<lambda>_.
      bnd (block_release bp) (\<lambda>_. c))))) s = c s'"
proof -
  note g = file_ok_basic[OF ok]
  let ?q = "(log_dev s, b)"
  have j: "jinv {} s" and fg: "fs_geom s" using g(1) by (simp_all add: fs_inv_def)
  have lr: "log_room s" using room_log_room[OF r fs_inv_geom(1)[OF g(1)]] .
  have hb: "home_block s b" using data_block_home(1)[OF fg b] .
  have rd: "block_read (fst k) b s = Inr (?q, holdd ?q (view s ?q) s)"
    using block_read_j[OF j] hb g(2) by (simp add: home_block_def)
  have w: "log_write ?q (holdd ?q (f (view s ?q)) s) = Inr ((), holdd ?q (f (view s ?q)) s')"
    using log_write_hold[OF j refl _ lr] s' g(2) by simp
  have rl: "block_release ?q (holdd ?q (f (view s ?q)) s') = Inr ((), s')"
    using log_write_release[OF j refl _ lr hb] s' g(2) by simp
  show ?thesis using rd w rl by (simp add: bnd_def)
qed

lemma chunk_left:
  fixes l t r c m :: nat
  shows "(l - t) + r \<le> 1024 + c \<Longrightarrow> r < 1024 \<Longrightarrow> m = 1024 - r \<Longrightarrow> t + m < l \<Longrightarrow> l - (t + m) \<le> c"
  by linarith

lemma paste_chunks:
  fixes t t' m off p :: nat
  assumes "g = (if off + m \<le> p \<and> p < off + m + (t' - (t + m)) then buf ! (t + m + (p - (off + m))) else f)"
    "f = (if off \<le> p \<and> p < off + m then take m (drop t buf) ! (p - off) else h)"
    "t + m \<le> t'" "t' \<le> length buf"
  shows "g = (if off \<le> p \<and> p < off + (t' - t) then buf ! (t + (p - off)) else h)"
proof -
  consider "p < off" | "off \<le> p" "p < off + m" | "off + m \<le> p" by linarith
  then show ?thesis
  proof cases
    case 2
    then have "take m (drop t buf) ! (p - off) = buf ! (t + (p - off))" using assms(3,4) by simp
    then have "g = buf ! (t + (p - off))" using 2 assms(1,2) by simp
    moreover have "off \<le> p \<and> p < off + (t' - t)" using 2 assms(3) by linarith
    ultimately show ?thesis by (simp only: if_P)
  qed (use assms in auto)
qed

lemma INode_write_loop_spec:
  assumes "file_ok k s" "room s (6 * c + q)" "tot \<le> length buf"
    "tot < length buf \<longrightarrow> (length buf - tot) + off mod 1024 \<le> c * 1024" "off + (length buf - tot) \<le> MAX_FILE * BSIZE"
  shows "\<exists>tot' s'. INode_write_loop k buf off tot s = Inr (tot', s') \<and> tot \<le> tot' \<and> tot' \<le> length buf \<and>
    extends k s s' \<and> room s' q \<and>
    (\<forall>p. fcontent s' k p =
      (if off \<le> p \<and> p < off + (tot' - tot) then buf ! (tot + (p - off)) else fcontent s k p)) \<and>
    (\<forall>p. off \<le> p \<and> p < off + (tot' - tot) \<longrightarrow> slots s' k (slot_of (p div BSIZE)) \<noteq> 0) \<and>
    (tot' < length buf \<longrightarrow> card (free_blocks s) < 2 * c)"
  using assms
proof (induction c arbitrary: s off tot)
  case 0
  then have "tot = length buf" by simp
  moreover from this have "INode_write_loop k buf off tot s = Inr (tot, s)"
    by (subst INode_write_loop.simps) simp
  moreover note 0
  ultimately show ?case by (auto simp: extends_refl)
next
  case (Suc c)
  note ok = Suc.prems(1)
  show ?case
  proof (cases "tot < length buf")
    case False
    then have "INode_write_loop k buf off tot s = Inr (tot, s)"
      by (simp add: INode_write_loop.simps[of k buf off tot])
    with False Suc.prems show ?thesis by (auto simp: extends_refl intro: room_le)
  next
    case True
    let ?m = "min (length buf - tot) (BSIZE - off mod BSIZE)" and ?bn = "off div BSIZE"
    let ?xs = "take ?m (drop tot buf)"
    have bn: "?bn < MAX_FILE" using True Suc.prems(5) by simp
    obtain b s1 where pm: "pmap k ?bn s = (b, s1)" by fastforce
    have r1: "room s (Suc (6 * c + q) + 5)" using room_le[OF Suc.prems(2)] by simp
    note ps = pmap_spec[OF ok r1 bn pm]
    have bm: "block_map k ?bn s = Inr (b, s1)"
      using block_map_run[OF ok room_le[OF r1] bn] pm by simp
    have ok1: "file_ok k s1" and ex1: "extends k s s1" and fc1: "fcontent s1 k = fcontent s k"
      using ps by (auto simp: grows_file_ok grows_def)
    show ?thesis
    proof (cases "b = 0")
      case b0: True
      then have "INode_write_loop k buf off tot s = Inr (tot, s1)"
        using True bm by (simp add: INode_write_loop.simps[of k buf off tot] bnd_run)
      moreover have "room s1 q" using ps by (auto intro: room_le)
      ultimately show ?thesis using ps b0 ex1 fc1 True by auto
    next
      case bne: False
      define s2 where "s2 = logd b (put_bytes (view s1 (fst k, b)) (off mod BSIZE) ?xs) s1"
      have sl1: "slots s1 k (slot_of ?bn) = b" and r2: "room s1 (Suc (6 * c + q))" using ps by simp_all
      have db: "data_block s1 (unat b)"
        using file_ok_slot(1)[OF ok1 slot_of_less(1)[OF bn]] sl1 bne by simp
      have lx: "length ?xs = ?m" by simp
      have lm: "length ?xs \<le> BSIZE - off mod BSIZE" by simp
      note wb = write_block[OF ok1 r2 bn refl sl1[symmetric] bne lm s2_def]
      have run: "INode_write_loop k buf off tot s = INode_write_loop k buf (off + ?m) (tot + ?m) s2"
        using True bm bne write_block_run[OF ok1 r2 db, of s2 "\<lambda>d. put_bytes d (off mod BSIZE) ?xs"
            "INode_write_loop k buf (off + ?m) (tot + ?m)"]
        by (simp add: INode_write_loop.simps[of k buf off tot] bnd_run s2_def Let_def)
      have ok2: "file_ok k s2" using wb(1) by (simp add: extends_def)
      have t2: "tot + ?m \<le> length buf" using True by simp
      have c2: "tot + ?m < length buf \<longrightarrow>
          (length buf - (tot + ?m)) + (off + ?m) mod 1024 \<le> c * 1024"
      proof
        assume lt: "tot + ?m < length buf"
        then have m: "?m = 1024 - off mod 1024" by simp
        have r: "off mod 1024 < 1024" by simp
        with m have z: "(off + ?m) mod 1024 = 0"
          by (metis add_diff_inverse_nat less_imp_le_nat mod_add_left_eq mod_self not_le)
        have "(length buf - tot) + off mod 1024 \<le> 1024 + c * 1024" using Suc.prems(4) True by simp
        from chunk_left[OF this r m lt] z
        show "(length buf - (tot + ?m)) + (off + ?m) mod 1024 \<le> c * 1024" by simp
      qed
      have e2: "off + ?m + (length buf - (tot + ?m)) \<le> MAX_FILE * BSIZE" using Suc.prems(5) t2 by simp
      from Suc.IH[OF ok2 wb(2) t2 c2 e2] obtain tot' s' where IH:
        "INode_write_loop k buf (off + ?m) (tot + ?m) s2 = Inr (tot', s')"
        "tot + ?m \<le> tot'" "tot' \<le> length buf" "extends k s2 s'" "room s' q"
        "\<And>p. fcontent s' k p = (if off + ?m \<le> p \<and> p < off + ?m + (tot' - (tot + ?m))
           then buf ! (tot + ?m + (p - (off + ?m))) else fcontent s2 k p)"
        "\<And>p. off + ?m \<le> p \<and> p < off + ?m + (tot' - (tot + ?m)) \<Longrightarrow> slots s' k (slot_of (p div BSIZE)) \<noteq> 0"
        "tot' < length buf \<longrightarrow> card (free_blocks s2) < 2 * c" by blast
      have ex: "extends k s s'" using extends_trans[OF extends_trans[OF ex1 wb(1) ok] IH(4) ok] .
      have "fcontent s' k p = (if off \<le> p \<and> p < off + (tot' - tot) then buf ! (tot + (p - off))
          else fcontent s k p)" for p
        using paste_chunks[OF IH(6) wb(5)[unfolded lx fc1] IH(2,3)] .
      moreover have "slots s' k (slot_of (p div BSIZE)) \<noteq> 0" if "off \<le> p" "p < off + (tot' - tot)" for p
      proof (cases "p < off + ?m")
        case True
        then have "p div 1024 = off div 1024" using that(1) by (intro window_block) auto
        then show ?thesis using IH(4) wb(3) sl1 bne slot_of_less(1)[OF bn] by (simp add: extends_def)
      next
        case False
        then show ?thesis using that IH(2) by (intro IH(7)) auto
      qed
      moreover have "card (free_blocks s) < 2 * Suc c" if "tot' < length buf"
        using IH(8) that ps wb(4) by auto
      ultimately show ?thesis using run IH(1,2,3,5) ex
        by (intro exI[of _ tot'] exI[of _ s']) auto
    qed
  qed
qed


definition fsize :: "'a inode_cache_scheme \<Rightarrow> INodeKey \<Rightarrow> nat" where
  "fsize s k = unat (di_size (the_dinode s k))"

text \<open>Files without holes, the ones the system call layer produces.\<close>

definition dense :: "INodeKey \<Rightarrow> 'a inode_cache_scheme \<Rightarrow> bool" where
  "dense k s \<longleftrightarrow> fsize s k \<le> MAX_FILE * BSIZE \<and>
     (\<forall>p < fsize s k. slots s k (slot_of (p div BSIZE)) \<noteq> 0)"

definition set_size :: "INodeKey \<Rightarrow> u32 \<Rightarrow> 'a inode_cache_scheme \<Rightarrow> 'a inode_cache_scheme" where
  "set_size k n s = put_inode k ((the (inodes s k))\<lparr>i_dinode := (the_dinode s k)\<lparr>di_size := n\<rparr>\<rparr>) s"

lemma set_size_file:
  assumes "file_ok k s"
  shows "file_ok k (set_size k n s)" "slots (set_size k n s) k = slots s k"
    "fcontent (set_size k n s) k = fcontent s k"
proof -
  note f = file_ok_basic[OF assms]
  have a: "di_addrs (the_dinode (set_size k n s) k) = di_addrs (the_dinode s k)"
    by (simp add: set_size_def the_dinode_def)
  have v: "view (set_size k n s) = view s" by (simp add: set_size_def)
  show sl: "slots (set_size k n s) k = slots s k" by (simp add: fun_eq_iff slots_def Let_def a v)
  show "fcontent (set_size k n s) k = fcontent s k" by (simp add: fun_eq_iff fcontent_def Let_def sl v)
  have "\<exists>i. inodes (set_size k n s) k = Some i \<and> dinode_wf (i_dinode i)"
    using f(4) by (simp add: set_size_def dinode_wf_def)
  then show "file_ok k (set_size k n s)"
    using assms unfolding file_ok_def sl by (simp add: set_size_def)
qed

text \<open>What changes on disk outside the file: nothing but its inode.\<close>

definition file_frame :: "INodeKey \<Rightarrow> 'a inode_cache_scheme \<Rightarrow> 'a inode_cache_scheme \<Rightarrow> bool" where
  "file_frame k s s' \<longleftrightarrow> same_env s s' \<and>
     (\<forall>b. data_block s (unat b) \<and> used s (unat b) \<and> b \<notin> owned s k \<longrightarrow>
        used s' (unat b) \<and> view s' (fst k, b) = view s (fst k, b)) \<and>
     owned s' k - owned s k \<subseteq> of_nat ` free_blocks s \<and>
     (\<forall>i. inum_ok s i \<and> i \<noteq> snd k \<longrightarrow> disk_dinode s' i = disk_dinode s i) \<and>
     (\<forall>k'. k' \<noteq> k \<longrightarrow> inodes s' k' = inodes s k')"

lemma inode_block_not_owned:
  assumes "file_ok k s" "inum_ok s i"
  shows "INODE_BLOCK s i \<notin> owned s k"
proof
  assume "INODE_BLOCK s i \<in> owned s k"
  then obtain j where "j < NSLOTS" "slots s k j = INODE_BLOCK s i" "slots s k j \<noteq> 0"
    by (auto simp: owned_def)
  with assms show False
    using file_ok_slot(1)[OF assms(1), of j] data_not_inode_block[of s i "slots s k j"] file_ok_basic(1)[OF assms(1)]
    by (auto simp: fs_inv_def)
qed

lemma extends_inodes_on_disk:
  assumes ok: "file_ok k s" and e: "extends k s s'" and i: "inum_ok s i"
  shows "disk_dinode s' i = disk_dinode s i"
proof -
  note f = file_ok_basic[OF ok]
  have g: "fs_geom s" using f(1) by (simp add: fs_inv_def)
  have "same_env s s'" using e by (simp add: extends_def)
  then have "INODE_BLOCK s' i = INODE_BLOCK s i" "log_dev s' = log_dev s"
    by (simp_all add: same_env_def INODE_BLOCK_def)
  moreover have "view s' (fst k, INODE_BLOCK s i) = view s (fst k, INODE_BLOCK s i)"
    using extends_frame(1)[OF e ok] INODE_BLOCK_content[OF g i] INODE_BLOCK_used[OF f(1) i]
      inode_block_not_owned[OF ok i] by simp
  ultimately show ?thesis using f(2) by (simp add: disk_dinode_def)
qed

lemma disk_dinode_set_size [simp]: "disk_dinode (set_size k n s) = disk_dinode s"
  by (simp add: fun_eq_iff disk_dinode_def set_size_def)

lemma write_finish:
  assumes ok: "file_ok k s" and e: "extends k s s1" and r: "room s1 1" and i: "inum_ok s (snd k)"
    and s': "s' = iupdate k (if c then set_size k n s1 else s1)"
  shows "file_frame k s s'" "disk_dinode s' (snd k) = the_dinode s' k" "file_ok k s'"
    "slots s' k = slots s1 k" "fcontent s' k = fcontent s1 k" "free_blocks s' \<subseteq> free_blocks s"
proof -
  define s2 where "s2 = (if c then set_size k n s1 else s1)"
  have ok1: "file_ok k s1" and env1: "same_env s s1" using e by (simp_all add: extends_def)
  have ok2: "file_ok k s2" and sl2: "slots s2 k = slots s1 k" "fcontent s2 k = fcontent s1 k"
    using set_size_file[OF ok1] ok1 by (simp_all add: s2_def)
  have env2: "same_env s s2" using env1 by (simp add: s2_def same_env_def set_size_def)
  note f = file_ok_basic[OF ok] and f2 = file_ok_basic[OF ok2]
  have i2: "inum_ok s2 (snd k)" using i env2 by (simp add: inum_ok_def same_env_def)
  have "room s2 1" using r by (simp add: s2_def set_size_def)
  then have lr: "log_room s2" using room_log_room[of s2 0] fs_inv_geom(1)[OF f2(1)] by simp
  note u = iupdate_file[OF ok2 lr i2]
  have s'2: "s' = iupdate k s2" using s' by (simp add: s2_def)
  show "file_ok k s'" "slots s' k = slots s1 k" "fcontent s' k = fcontent s1 k"
    using u sl2 by (simp_all add: s'2)
  have wf: "dinode_wf (the_dinode s2 k)" using f2 by (simp add: dinode_wf_def)
  have dd: "disk_dinode s' j = (if j = snd k then the_dinode s2 k else disk_dinode s j)"
    if "inum_ok s j" for j
    using disk_dinode_iupdate[OF f2(1) i2 _ wf, of j] that env2 extends_inodes_on_disk[OF ok e that]
    by (auto simp: s'2 s2_def inum_ok_def same_env_def)
  from dd[OF i] show "disk_dinode s' (snd k) = the_dinode s' k" by (simp add: s'2)
  have "view s' (fst k, b) = view s (fst k, b)"
    if b: "data_block s (unat b)" "used s (unat b)" "b \<notin> owned s k" for b
  proof -
    have "view s' (fst k, b) = view s2 (fst k, b)"
      using view_iupdate_data[OF _ i2, of b] f2 b(1) data_block_same_env[OF env2]
      by (simp add: s'2 fs_inv_def)
    also have "\<dots> = view s1 (fst k, b)" by (simp add: s2_def set_size_def)
    also have "\<dots> = view s (fst k, b)"
      using extends_frame(1)[OF e ok _ b(2,3)] b(1) by (simp add: content_block_def)
    finally show ?thesis .
  qed
  moreover have us: "used s' x" if "x < unat (sb_size s)" "used s x" for x
  proof -
    have "used s1 x" using e that by (simp add: extends_def)
    then have "used s2 x" by (simp add: s2_def set_size_def)
    then show ?thesis
      using used_iupdate[OF f2(1) i2, of x] that(1) env2 by (simp add: s'2 same_env_def)
  qed
  moreover have "used s' (unat b)" if "data_block s (unat b)" "used s (unat b)" for b
    using us[of "unat b"] that by (simp add: data_block_def)
  moreover have "owned s' k - owned s k \<subseteq> of_nat ` free_blocks s"
    using e u(2) sl2(1) by (simp add: s'2 owned_def extends_def)
  moreover have "inodes s' k' = inodes s k'" if "k' \<noteq> k" for k'
    using that e by (auto simp: s'2 s2_def set_size_def extends_def)
  moreover have "same_env s s'" using env2 iupdate_fields(9)[of s2 k] by (simp add: s'2 same_env_def)
  ultimately show "file_frame k s s'" using dd by (auto simp: file_frame_def)
  show "free_blocks s' \<subseteq> free_blocks s"
    using us env2 by (auto simp: free_blocks_def s'2 same_env_def)
qed

lemma INode_write_run:
  assumes ok: "file_ok k s" and i: "inum_ok s (snd k)" and off: "off \<le> fsize s k"
    and e: "off + length buf \<le> MAX_FILE * BSIZE"
    and c: "length buf + off mod BSIZE \<le> c * BSIZE" and r: "room s (6 * c + 1)"
  shows "\<exists>tot s'. INode_write k buf off s = Inr (of_nat tot, s') \<and> tot \<le> length buf \<and>
    (2 * c \<le> card (free_blocks s) \<longrightarrow> tot = length buf) \<and> file_ok k s' \<and> file_frame k s s' \<and>
    the_dinode s' k = (the_dinode s k)\<lparr>di_size := of_nat (max (fsize s k) (off + tot)),
      di_addrs := di_addrs (the_dinode s' k)\<rparr> \<and>
    fsize s' k = max (fsize s k) (off + tot) \<and> disk_dinode s' (snd k) = the_dinode s' k \<and>
    (\<forall>p. fcontent s' k p = (if off \<le> p \<and> p < off + tot then buf ! (p - off) else fcontent s k p)) \<and>
    (dense k s \<longrightarrow> dense k s') \<and> free_blocks s' \<subseteq> free_blocks s \<and>
    inodes s' k = Some ((the (inodes s k))\<lparr>i_dinode := the_dinode s' k\<rparr>) \<and>
    (\<forall>m. room s (6 * c + Suc m) \<longrightarrow> room s' m)"
proof -
  note f = file_ok_basic[OF ok]
  from INode_write_loop_spec[OF ok r, of 0 buf off] c e obtain tot s1 where L:
    "INode_write_loop k buf off 0 s = Inr (tot, s1)" "tot \<le> length buf" "extends k s s1" "room s1 1"
    "\<forall>p. fcontent s1 k p = (if off \<le> p \<and> p < off + tot then buf ! (p - off) else fcontent s k p)"
    "\<forall>p. off \<le> p \<and> p < off + tot \<longrightarrow> slots s1 k (slot_of (p div BSIZE)) \<noteq> 0"
    "tot < length buf \<longrightarrow> card (free_blocks s) < 2 * c"
    by (auto simp: algebra_simps)
  let ?g = "off + tot > fsize s k"
  define s' where "s' = iupdate k (if ?g then set_size k (of_nat (off + tot)) s1 else s1)"
  note w = write_finish[OF ok L(3,4) i s'_def]
  obtain a where a: "inodes s1 = (inodes s)(k \<mapsto> (the (inodes s k))\<lparr>i_dinode := (the_dinode s k)\<lparr>di_addrs := a\<rparr>\<rparr>)"
    using L(3) by (auto simp: extends_def)
  have td1: "the_dinode s1 k = (the_dinode s k)\<lparr>di_addrs := a\<rparr>" by (simp add: a the_dinode_def)
  have un: "unat (of_nat (off + tot) :: u32) = off + tot"
    using e L(2) by (intro unat_block_number) simp
  have td: "the_dinode s' k = (the_dinode s k)\<lparr>di_size := of_nat (max (fsize s k) (off + tot)),
      di_addrs := a\<rparr>"
    using td1 by (auto simp: s'_def set_size_def the_dinode_def fsize_def max_def)
  then have sz: "fsize s' k = max (fsize s k) (off + tot)"
    using un by (auto simp: fsize_def max_def)
  have n1: "inodes s1 k = Some (the (inodes s1 k))" by (simp add: a)
  have run: "INode_write k buf off s = Inr (of_nat tot, s')"
  proof -
    let ?s2 = "if ?g then set_size k (of_nat (off + tot)) s1 else s1"
    have ok1: "file_ok k s1" and env1: "same_env s s1" using L(3) by (simp_all add: extends_def)
    have "file_ok k ?s2" using ok1 set_size_file(1)[OF ok1] by simp
    note f2 = file_ok_basic[OF this]
    have "room ?s2 1" "inum_ok ?s2 (snd k)"
      using L(4) i env1 by (simp_all add: set_size_def inum_ok_def same_env_def)
    then have "INode_update k ?s2 = Inr ((), s')"
      unfolding s'_def using f2 room_log_room[of ?s2 0] fs_inv_geom(1)[OF f2(1)]
      by (intro INode_update_run[OF f2(1)]) auto
    moreover have "when_do ?g (set_dinode k (\<lambda>di. di\<lparr>di_size := of_nat (off + tot)\<rparr>)) s1 = Inr ((), ?s2)"
      using n1 by (simp add: set_dinode_run[OF n1] set_size_def the_dinode_def)
    moreover have "unat (di_size (i_dinode (the (inodes s1 k)))) = fsize s k"
      using td1 by (simp add: the_dinode_def fsize_def)
    moreover have "unat (di_size (i_dinode (the (inodes s k)))) = fsize s k"
      by (simp add: the_dinode_def fsize_def)
    ultimately show ?thesis
      using L(1) off e dinode_run[OF f(3)] dinode_run[OF n1]
      by (cases ?g) (simp_all add: INode_write_def bnd_def Let_def)
  qed
  have "dense k s'" if d: "dense k s"
  proof -
    have "slots s' k (slot_of (p div BSIZE)) \<noteq> 0" if p: "p < fsize s' k" for p
    proof (cases "p < fsize s k")
      case True
      then have "p div BSIZE < MAX_FILE" "slots s k (slot_of (p div BSIZE)) \<noteq> 0"
        using d by (auto simp: dense_def)
      then show ?thesis using L(3) slot_of_less(1) w(4) by (simp add: extends_def)
    next
      case False
      then show ?thesis using p sz off L(6) w(4) by (auto simp: max_def split: if_splits)
    qed
    then show ?thesis using d e L(2) sz by (auto simp: dense_def)
  qed
  moreover have "fcontent s' k p = (if off \<le> p \<and> p < off + tot then buf ! (p - off) else fcontent s k p)" for p
    using L(5) w(5) by simp
  moreover have "2 * c \<le> card (free_blocks s) \<longrightarrow> tot = length buf" using L(2,7) by linarith
  moreover have "inodes s' k = Some ((the (inodes s k))\<lparr>i_dinode := the_dinode s' k\<rparr>)"
    by (simp add: td) (auto simp: s'_def set_size_def a the_dinode_def max_def fsize_def)
  moreover have "room s' m" if rm: "room s (6 * c + Suc m)" for m
  proof -
    from INode_write_loop_spec[OF ok rm, of 0 buf off] c e obtain tot' s1' where
      "INode_write_loop k buf off 0 s = Inr (tot', s1')" "room s1' (Suc m)" by (auto simp: algebra_simps)
    then have "room (if ?g then set_size k (of_nat (off + tot)) s1 else s1) (Suc m)"
      using L(1) by (simp add: set_size_def)
    moreover have "log_geom s1" using fs_inv_geom(1) L(3) by (auto simp: extends_def file_ok_def)
    then have "log_geom (if ?g then set_size k (of_nat (off + tot)) s1 else s1)"
      by (simp add: set_size_def log_geom_def)
    ultimately show ?thesis unfolding s'_def iupdate_def by (rule room_logd)
  qed
  ultimately show ?thesis using run L(2) w td sz
    by (intro exI[of _ tot] exI[of _ s']) simp
qed


section \<open>Reading\<close>

text \<open>Reading blocks that are present changes nothing, so it needs no transaction.\<close>

lemma read_block_run:
  assumes ok: "file_ok k s" and b: "data_block s (unat b)"
  shows "bnd (block_read (fst k) b) (\<lambda>bp. bnd (block_data bp) (\<lambda>d.
      bnd (block_release bp) (\<lambda>_. c d))) s = c (view s (fst k, b)) s"
proof -
  note g = file_ok_basic[OF ok]
  let ?q = "(log_dev s, b)"
  have j: "jinv {} s" and fg: "fs_geom s" using g(1) by (simp_all add: fs_inv_def)
  have hb: "home_block s b" using data_block_home(1)[OF fg b] .
  have rd: "block_read (fst k) b s = Inr (?q, holdd ?q (view s ?q) s)"
    using block_read_j[OF j] hb g(2) by (simp add: home_block_def)
  have rl: "block_release ?q (holdd ?q (view s ?q) s) = Inr ((), s)"
    using block_release_j[OF j] by simp
  show ?thesis using rd rl g(2) by (simp add: bnd_def)
qed

lemma read_window:
  assumes "off div BSIZE < MAX_FILE" "slots s k (slot_of (off div BSIZE)) \<noteq> 0" "m \<le> BSIZE - off mod BSIZE"
  shows "get_bytes m (view s (fst k, slots s k (slot_of (off div BSIZE)))) (off mod BSIZE) =
    map (fcontent s k) [off..<off + m]"
proof (rule nth_equalityI)
  fix i assume "i < length (get_bytes m (view s (fst k, slots s k (slot_of (off div BSIZE)))) (off mod BSIZE))"
  then have i: "i < m" by simp
  then have d: "(off + i) div 1024 = off div 1024" using assms(3) by (intro window_block) auto
  have "off mod 1024 \<le> (off + i) mod 1024" "(off + i) mod 1024 - off mod 1024 = i"
    using div_mod_window[OF assms(3) d] i by simp_all
  then have "(off + i) mod 1024 = off mod 1024 + i" by (metis le_add_diff_inverse)
  with i d assms show "get_bytes m (view s (fst k, slots s k (slot_of (off div BSIZE)))) (off mod BSIZE) ! i =
      map (fcontent s k) [off..<off + m] ! i"
    by (simp add: fcontent_def)
qed simp

lemma INode_read_loop_run:
  assumes ok: "file_ok k s"
    and present: "\<And>p. off \<le> p \<Longrightarrow> p < off + (n - tot) \<Longrightarrow>
      p div BSIZE < MAX_FILE \<and> slots s k (slot_of (p div BSIZE)) \<noteq> 0"
  shows "INode_read_loop k off n tot s = Inr (map (fcontent s k) [off..<off + (n - tot)], s)"
  using present
proof (induction "n - tot" arbitrary: off tot rule: less_induct)
  case (less tot off)
  show ?case
  proof (cases "tot < n")
    case False
    then show ?thesis by (simp add: INode_read_loop.simps[of k off n tot])
  next
    case True
    let ?bn = "off div BSIZE"
    define m where "m = min (n - tot) (BSIZE - off mod BSIZE)"
    have m: "m \<le> BSIZE - off mod BSIZE" "m \<le> n - tot" "0 < m" using True by (simp_all add: m_def)
    have p0: "?bn < MAX_FILE" "slots s k (slot_of ?bn) \<noteq> 0" using less.prems[of off] True by simp_all
    have "INode_read_loop k (off + m) n (tot + m) s =
        Inr (map (fcontent s k) [off + m..<off + m + (n - (tot + m))], s)"
    proof (rule less.hyps)
      show "n - (tot + m) < n - tot" using True m by simp
      show "p div BSIZE < MAX_FILE \<and> slots s k (slot_of (p div BSIZE)) \<noteq> 0"
        if "off + m \<le> p" "p < off + m + (n - (tot + m))" for p
        using less.prems[of p] that m by simp
    qed
    moreover have e: "off + m + (n - (tot + m)) = off + (n - tot)" using m by simp
    moreover have "[off..<off + (n - tot)] = [off..<off + m] @ [off + m..<off + (n - tot)]"
      using upt_add_eq_append[of off "off + m" "n - (tot + m)"] unfolding e by simp
    ultimately have rest: "INode_read_loop k (off + m) n (tot + m) s =
        Inr (map (fcontent s k) [off + m..<off + (n - tot)], s)"
      "[off..<off + (n - tot)] = [off..<off + m] @ [off + m..<off + (n - tot)]" by simp_all
    have db: "data_block s (unat (slots s k (slot_of ?bn)))"
      using file_ok_slot(1)[OF ok slot_of_less(1)[OF p0(1)] p0(2)] .
    note bm = block_map_present[OF ok p0]
    have "INode_read_loop k off n tot s = bnd (INode_read_loop k (off + m) n (tot + m)) (\<lambda>rest.
        ret (get_bytes m (view s (fst k, slots s k (slot_of ?bn))) (off mod BSIZE) @ rest)) s"
      using True p0 bm read_block_run[OF ok db, of "\<lambda>d. bnd (INode_read_loop k (off + m) n (tot + m)) (\<lambda>rest.
        ret (get_bytes m d (off mod BSIZE) @ rest))"]
      by (simp add: INode_read_loop.simps[of k off n tot] bnd_run m_def[symmetric] Let_def)
    also have "\<dots> = Inr (map (fcontent s k) [off..<off + m] @ map (fcontent s k) [off + m..<off + (n - tot)], s)"
      using rest(1) read_window[OF p0 m(1)] by (simp add: bnd_run)
    finally show ?thesis unfolding rest(2) by simp
  qed
qed

lemma INode_read_run:
  assumes ok: "file_ok k s" and d: "dense k s"
  shows "INode_read k off n s = Inr (map (fcontent s k) [off..<min (off + n) (fsize s k)], s)"
proof -
  note f = file_ok_basic[OF ok]
  let ?n = "if off + n > fsize s k then fsize s k - off else n"
  have sz: "unat (di_size (i_dinode (the (inodes s k)))) = fsize s k"
    by (simp add: fsize_def the_dinode_def)
  show ?thesis
  proof (cases "off > fsize s k")
    case True
    then show ?thesis using f(3) sz by (simp add: INode_read_def bnd_def dinode_run[OF f(3)])
  next
    case False
    then have e: "off + ?n = min (off + n) (fsize s k)" by simp
    have "p div BSIZE < MAX_FILE \<and> slots s k (slot_of (p div BSIZE)) \<noteq> 0" if "p < fsize s k" for p
      using d that by (auto simp: dense_def)
    then have "INode_read_loop k off ?n 0 s = Inr (map (fcontent s k) [off..<off + (?n - 0)], s)"
      using e by (intro INode_read_loop_run[OF ok]) simp
    with False sz e show ?thesis
      by (cases "off + n > fsize s k") (simp_all add: INode_read_def bnd_def dinode_run[OF f(3)] Let_def)
  qed
qed


section \<open>Other files\<close>

lemma file_frame_other:
  assumes fr: "file_frame k s s'" and inv: "fs_inv s'" and ok: "file_ok k s" and ok': "file_ok k' s"
    and ne: "k' \<noteq> k" and apart: "owned s k \<inter> owned s k' = {}"
  shows "file_ok k' s'" "slots s' k' = slots s k'" "fcontent s' k' = fcontent s k'"
    "the_dinode s' k' = the_dinode s k'" "owned s' k \<inter> owned s' k' = {}"
proof -
  note f = file_ok_basic[OF ok] and f' = file_ok_basic[OF ok']
  have env: "same_env s s'" using fr by (simp add: file_frame_def)
  have ino: "inodes s' k' = inodes s k'" using fr ne by (simp add: file_frame_def)
  then show td: "the_dinode s' k' = the_dinode s k'" by (simp add: the_dinode_def)
  have vs: "view s' (fst k', slots s k' j) = view s (fst k', slots s k' j) \<and> used s' (unat (slots s k' j))"
    if j: "j < NSLOTS" "slots s k' j \<noteq> 0" for j
  proof -
    have "slots s k' j \<notin> owned s k" using apart j by (auto simp: owned_def)
    with file_ok_slot[OF ok' j] fr f(2) f'(2) show ?thesis by (simp add: file_frame_def)
  qed
  show sl: "slots s' k' = slots s k'"
  proof
    fix j show "slots s' k' j = slots s k' j"
      using vs[of 12] by (cases "j \<le> 12") (auto simp: slots_direct slots_indirect td)
  qed
  show "fcontent s' k' = fcontent s k'"
  proof
    fix p show "fcontent s' k' p = fcontent s k' p"
      using vs[of "slot_of (p div BSIZE)"] slot_of_less(1)[of "p div BSIZE"]
      by (auto simp: fcontent_def Let_def sl)
  qed
  show "file_ok k' s'"
    using ok' vs inv env unfolding file_ok_def sl ino data_block_same_env[OF env]
    by (simp add: same_env_def)
  have own: "owned s' k' = owned s k'" by (simp add: owned_def sl)
  have "b \<notin> of_nat ` free_blocks s" if "b \<in> owned s k'" for b
  proof
    assume "b \<in> of_nat ` free_blocks s"
    then obtain x where x: "x \<in> free_blocks s" "b = of_nat x" by blast
    from that have "used s (unat b)" using file_ok_slot(2)[OF ok'] by (auto simp: owned_def)
    with free_block_number[of s x] free_not_used[OF x(1)] x f(1) show False by (simp add: fs_inv_def)
  qed
  then show "owned s' k \<inter> owned s' k' = {}"
    using fr apart unfolding own file_frame_def by blast
qed

section \<open>Loading an inode\<close>

lemma INode_lock_load:
  assumes i: "fs_inv s" and k: "fst k = log_dev s" "inum_ok s (snd k)"
    and n: "inodes s k = Some n" "i_ref n \<ge> 1" "\<not> i_locked n" "\<not> i_valid n"
  shows "INode_lock k s =
    (if di_type (disk_dinode s (snd k)) = 0 then Inl (Assert ''ilock: no type'')
     else Inr ((), put_inode k (n\<lparr>i_locked := True, i_dinode := disk_dinode s (snd k), i_valid := True\<rparr>) s))"
proof -
  let ?q = "(log_dev s, INODE_BLOCK s (snd k))" and ?n1 = "n\<lparr>i_locked := True\<rparr>"
  let ?s1 = "put_inode k ?n1 s" and ?D = "view s (log_dev s, INODE_BLOCK s (snd k))"
  have j: "jinv {} s" and g: "fs_geom s" using i by (simp_all add: fs_inv_def)
  have hb: "home_block s (INODE_BLOCK s (snd k))" using INODE_BLOCK_home[OF g k(2)] by simp
  have rd: "block_read (log_dev s) (INODE_BLOCK s (snd k)) ?s1 = Inr (?q, holdd ?q ?D ?s1)"
    using block_read_j[of "{}" ?s1] j hb by (simp add: home_block_def)
  let ?s2 = "put_inode k (?n1\<lparr>i_dinode := disk_dinode s (snd k)\<rparr>) s"
  have sd: "set_dinode k (\<lambda>_. get_dinode ?D (inode_pos (snd k))) (holdd ?q ?D ?s1) = Inr ((), holdd ?q ?D ?s2)"
    by (simp add: set_dinode_def bnd_def deref_inode_def set_inode_def put_inode_holdd disk_dinode_def)
  have rl: "block_release ?q (holdd ?q ?D ?s2) = Inr ((), ?s2)"
    using block_release_j[of "{}" ?s2 ?q ?D] j by simp
  have d2: "deref_inode k ?s2 = Inr (?n1\<lparr>i_dinode := disk_dinode s (snd k)\<rparr>, ?s2)" by simp
  show ?thesis
    using rd sd rl d2 n k(1)
    by (simp add: INode_lock_def inode_mutex_lock_def bnd_def set_inode_def Let_def disk_dinode_def)
qed

lemma INode_lock_cached:
  assumes "inodes s k = Some n" "i_ref n \<ge> 1" "\<not> i_locked n" "i_valid n"
  shows "INode_lock k s = Inr ((), put_inode k (n\<lparr>i_locked := True\<rparr>) s)"
  using assms by (simp add: INode_lock_def inode_mutex_lock_def bnd_def set_inode_def)

end
