(* ===== verification/Truncate.thy ===== *)
theory Truncate
  imports File_Content
begin

text \<open>
  \<open>INode::trunc\<close>: every block of the file, and the indirect block, is given back to the bitmap and
  the inode is written with no blocks and size 0. The log has room for the operation when the
  bitmap is one block, as on every image \<open>mkfs\<close> makes (\<open>FSSIZE\<close> is 1000).
\<close>

definition one_bitmap :: "'a log_state_scheme \<Rightarrow> bool" where
  "one_bitmap s \<longleftrightarrow> unat (sb_size s) \<le> BIT_PER_BLOCK"

text \<open>Room for \<open>n\<close> blocks besides the bitmap block.\<close>

definition bm_room :: "'a log_state_scheme \<Rightarrow> nat \<Rightarrow> bool" where
  "bm_room s n \<longleftrightarrow> room s (Suc n) \<or> (BIT_BLOCK s 0 \<in> set (logged s) \<and> room s n)"

definition frees :: "nat list \<Rightarrow> 'a log_state_scheme \<Rightarrow> 'a log_state_scheme" where
  "frees xs s = fold free_result xs s"

lemma frees_simps [simp]:
  "frees [] s = s" "frees (x # xs) s = frees xs (free_result x s)"
  "frees (xs @ [x]) s = free_result x (frees xs s)"
  by (simp_all add: frees_def)

lemma frees_fields [simp]:
  "log_dev (frees xs s) = log_dev s" "sb_size (frees xs s) = sb_size s"
  "BIT_BLOCK (frees xs s) = BIT_BLOCK s" "data_start (frees xs s) = data_start s"
  "fs_geom (frees xs s) = fs_geom s" "data_block (frees xs s) = data_block s"
  "outstanding (frees xs s) = outstanding s" "home_block (frees xs s) = home_block s"
  "sb_ninodes (frees xs s) = sb_ninodes s" "sb_inodestart (frees xs s) = sb_inodestart s"
  "sb_bmapstart (frees xs s) = sb_bmapstart s" "log_size (frees xs s) = log_size s"
  "mmap_base (frees xs s) = mmap_base s" "st_size (frees xs s) = st_size s"
  by (induction xs arbitrary: s) simp_all

lemma log_fields_free [simp]:
  "log_start (free_result x s) = log_start s" "committing (free_result x s) = committing s"
  by (simp_all add: free_result_def Let_def)

lemma frees_inodes [simp]:
  "inodes (frees xs s) = inodes s" "unheld_unlocks (frees xs s) = unheld_unlocks s"
  "log_start (frees xs s) = log_start s" "committing (frees xs s) = committing s"
  by (induction xs arbitrary: s) simp_all

lemma BIT_BLOCK_one: "one_bitmap s \<Longrightarrow> x < unat (sb_size s) \<Longrightarrow> BIT_BLOCK s x = BIT_BLOCK s 0"
  by (simp add: one_bitmap_def BIT_BLOCK_def)

lemma bm_room_log_room:
  assumes "bm_room s (Suc n)" "log_geom s"
  shows "log_room s"
  using assms room_log_room[of s "Suc n"] room_log_room[of s n] by (auto simp: bm_room_def)

lemma bm_room_free:
  assumes i: "fs_inv s" and r: "bm_room s (Suc n)" and x: "data_block s x" and o: "one_bitmap s"
  shows "bm_room (free_result x s) (Suc n)"
proof -
  have g: "log_geom s" using fs_inv_geom(1)[OF i] .
  have w: "log_wf s" using i by (simp add: fs_inv_def jinv_def)
  have bb: "BIT_BLOCK s x = BIT_BLOCK s 0" using BIT_BLOCK_one[OF o, of x] x by (simp add: data_block_def)
  have lg: "BIT_BLOCK s 0 \<in> set (logged (free_result x s))"
    unfolding free_result_def Let_def logged_logd[OF w bm_room_log_room[OF r g] g] bb by simp
  have "room (free_result x s) (Suc n)"
    using r g room_logd[of s "Suc n"] room_logd_same[of s "Suc n"] bb
    by (auto simp: bm_room_def free_result_def Let_def)
  with lg show ?thesis by (simp add: bm_room_def)
qed

lemma one_bitmap_free [simp]: "one_bitmap (free_result x s) = one_bitmap s"
  by (simp add: one_bitmap_def)

lemma frees_inv:
  "fs_inv s \<Longrightarrow> bm_room s (Suc n) \<Longrightarrow> one_bitmap s \<Longrightarrow> \<forall>x \<in> set xs. data_block s x \<Longrightarrow>
     fs_inv (frees xs s) \<and> bm_room (frees xs s) (Suc n)"
proof (induction xs arbitrary: s)
  case (Cons x xs)
  from Cons.prems have lr: "log_room s" using bm_room_log_room fs_inv_geom(1) by blast
  from Cons.prems have "fs_inv (free_result x s)" "bm_room (free_result x s) (Suc n)"
    using fs_inv_free_result[OF _ lr] bm_room_free by auto
  with Cons show ?case by simp
qed simp

lemma used_frees:
  assumes "fs_geom s" "\<forall>x \<in> set xs. data_block s x" "y < unat (sb_size s)"
  shows "used (frees xs s) y \<longleftrightarrow> used s y \<and> y \<notin> set xs"
  unfolding frees_def using bitmap.used_free_all[of s xs y] assms by (simp add: fs_limit_def)

lemma view_frees:
  "fs_inv s \<Longrightarrow> bm_room s (Suc n) \<Longrightarrow> one_bitmap s \<Longrightarrow> \<forall>x \<in> set xs. data_block s x \<Longrightarrow>
     content_block s b \<Longrightarrow> view (frees xs s) (log_dev s, b) = view s (log_dev s, b)"
proof (induction xs arbitrary: s)
  case (Cons x xs)
  from Cons.prems have lr: "log_room s" using bm_room_log_room fs_inv_geom(1) by blast
  from Cons.prems have i: "fs_inv (free_result x s)" "bm_room (free_result x s) (Suc n)"
    using fs_inv_free_result[OF _ lr] bm_room_free by auto
  have "b \<noteq> BIT_BLOCK s x"
    using Cons.prems(1,4,5) BIT_BLOCK_home(1,2)[of s x]
    by (auto simp: content_block_def data_block_def fs_inv_def)
  then have "view (free_result x s) (log_dev s, b) = view s (log_dev s, b)"
    by (simp add: free_result_def Let_def view_logd)
  with Cons.IH[OF i] Cons.prems show ?case by (simp add: content_block_def)
qed simp

lemma put_inode_free: "put_inode k n (free_result x s) = free_result x (put_inode k n s)"
  by (simp add: free_result_def Let_def put_inode_logd)

lemma put_inode_frees: "put_inode k n (frees xs s) = frees xs (put_inode k n s)"
  by (induction xs arbitrary: s) (simp_all add: put_inode_free)

lemma block_free_frees:
  assumes i: "fs_inv s" and r: "bm_room s (Suc n)" and o: "one_bitmap s"
    and xs: "\<forall>x \<in> set xs. data_block s x" and b: "data_block s (unat b)" "used s (unat b)" "unat b \<notin> set xs"
  shows "block_free (log_dev s) b (frees xs s) = Inr ((), frees (xs @ [unat b]) s)"
proof -
  have fi: "fs_inv (frees xs s)" "bm_room (frees xs s) (Suc n)" using frees_inv[OF i r o xs] by auto
  have "used (frees xs s) (unat b)" using used_frees[of s xs "unat b"] i xs b
    by (simp add: fs_inv_def data_block_def)
  moreover have "room (frees xs s) 1"
    using fi(2) by (auto simp: bm_room_def intro: room_le)
  ultimately show ?thesis
    using block_free_run[of "{}" "frees xs s" b] fi(1) b(1) by (simp add: fs_inv_def data_block_def)
qed

lemma block_free_frees_holding:
  assumes i: "fs_inv s" and r: "bm_room s (Suc n)" and o: "one_bitmap s"
    and xs: "\<forall>x \<in> set xs. data_block s x" and b: "data_block s (unat b)" "used s (unat b)" "unat b \<notin> set xs"
    and c: "data_block s (unat c)" and q: "q = (log_dev s, c)" and D: "D = view s q"
  shows "block_free (log_dev s) b (holdd q D (frees xs s)) = Inr ((), holdd q D (frees (xs @ [unat b]) s))"
proof -
  let ?t = "frees xs s"
  have fi: "fs_inv ?t" "bm_room ?t (Suc n)" using frees_inv[OF i r o xs] by auto
  have g: "fs_geom s" using i by (simp add: fs_inv_def)
  have D': "D = view ?t q" using view_frees[OF i r o xs, of c] c by (simp add: content_block_def q D)
  have ne: "c \<noteq> BIT_BLOCK s y" if "y < unat (sb_size s)" for y
    using data_block_home(2)[OF g c that] .
  have bs: "unat b < unat (sb_size s)" using b(1) by (simp add: data_block_def)
  have "used ?t (unat b)" using used_frees[of s xs "unat b"] g xs b bs by simp
  moreover have "room (holdd q D ?t) 1" using fi(2) by (auto simp: bm_room_def intro: room_le)
  moreover have "jinv {q} (holdd q D ?t)" using jinv_holdd[of "{}" ?t q D] fi(1) by (simp add: fs_inv_def)
  moreover have "used (holdd q D ?t) = used ?t" unfolding D' by simp
  ultimately have "block_free (log_dev s) b (holdd q D ?t) = Inr ((), free_result (unat b) (holdd q D ?t))"
    using block_free_run[of "{q}" "holdd q D ?t" b] g bs ne[OF bs] by (simp add: q)
  moreover have "free_result (unat b) (holdd q D ?t) = holdd q D (free_result (unat b) ?t)"
    using ne[OF bs] by (intro free_result_holdd) (simp add: q)
  ultimately show ?thesis by simp
qed


section \<open>The loops\<close>

declare upt_rec_numeral [simp del]

definition used_slots :: "'a inode_cache_scheme \<Rightarrow> INodeKey \<Rightarrow> nat list \<Rightarrow> nat list" where
  "used_slots s k is = map unat (filter (\<lambda>b. b \<noteq> 0) (map (slots s k) is))"

definition put_addrs :: "INodeKey \<Rightarrow> u32 list \<Rightarrow> 'a inode_cache_scheme \<Rightarrow> 'a inode_cache_scheme" where
  "put_addrs k a s = put_inode k ((the (inodes s k))\<lparr>i_dinode := (the_dinode s k)\<lparr>di_addrs := a\<rparr>\<rparr>) s"

lemma used_slots_simps [simp]:
  "used_slots s k [] = []" "used_slots s k (is @ js) = used_slots s k is @ used_slots s k js"
  "used_slots s k [i] = (if slots s k i = 0 then [] else [unat (slots s k i)])"
  by (simp_all add: used_slots_def)

lemma used_slots_data:
  assumes "file_ok k s" "set is \<subseteq> {..<NSLOTS}"
  shows "\<forall>x \<in> set (used_slots s k is). data_block s x"
  using assms file_ok_slot(1)[OF assms(1)] by (auto simp: used_slots_def subset_iff)

lemma used_slots_fresh:
  assumes "file_ok k s" "set is \<subseteq> {..<NSLOTS}" "i < NSLOTS" "i \<notin> set is" "slots s k i \<noteq> 0"
  shows "unat (slots s k i) \<notin> set (used_slots s k is)"
proof
  assume "unat (slots s k i) \<in> set (used_slots s k is)"
  then obtain j where "j \<in> set is" "slots s k j = slots s k i"
    by (auto simp: used_slots_def) (metis unsigned_word_eqI)
  with assms file_ok_slot(3)[OF assms(1,3,5)] show False by (metis lessThan_iff subset_iff)
qed

lemma put_addrs_derived [simp]:
  "fs_inv (put_addrs k a s) = fs_inv s" "bm_room (put_addrs k a s) n = bm_room s n"
  "one_bitmap (put_addrs k a s) = one_bitmap s" "data_block (put_addrs k a s) = data_block s"
  "used (put_addrs k a s) = used s" "log_dev (put_addrs k a s) = log_dev s"
  "view (put_addrs k a s) = view s" "the_dinode (put_addrs k a s) k = (the_dinode s k)\<lparr>di_addrs := a\<rparr>"
  "content_block (put_addrs k a s) = content_block s" "fs_geom (put_addrs k a s) = fs_geom s"
  "home_block (put_addrs k a s) = home_block s"
  "inodes (put_addrs k a s) =
     (inodes s)(k \<mapsto> (the (inodes s k))\<lparr>i_dinode := (the_dinode s k)\<lparr>di_addrs := a\<rparr>\<rparr>)"
  by (simp_all add: put_addrs_def bm_room_def one_bitmap_def the_dinode_def content_block_def fun_eq_iff)

lemma put_addrs_put_addrs [simp]: "put_addrs k a (put_addrs k b s) = put_addrs k a s"
  by (simp add: put_addrs_def the_dinode_def)

lemma put_addrs_frees: "put_addrs k a (frees xs s) = frees xs (put_addrs k a s)"
  by (simp add: put_addrs_def the_dinode_def put_inode_frees)

text \<open>The state before turn \<open>i\<close> of the loop over the direct blocks.\<close>

definition direct_state :: "INodeKey \<Rightarrow> 'a inode_cache_scheme \<Rightarrow> nat \<Rightarrow> 'a inode_cache_scheme" where
  "direct_state k s i = frees (used_slots s k [0..<i])
     (put_addrs k (replicate i 0 @ drop i (di_addrs (the_dinode s k))) s)"

lemma trunc_direct_step:
  assumes ok: "file_ok k s" and r: "bm_room s (Suc n)" and o: "one_bitmap s" and i: "i < 12"
  shows "trunc_direct k i (direct_state k s i) = Inr ((), direct_state k s (Suc i))"
proof -
  note f = file_ok_basic[OF ok]
  let ?a = "di_addrs (the_dinode s k)"
  let ?ai = "replicate i 0 @ drop i ?a" and ?p = "put_addrs k (replicate i 0 @ drop i (di_addrs (the_dinode s k))) s"
  have ai: "?ai ! i = slots s k i" using i f(4) by (simp add: nth_append slots_direct)
  have up: "?ai[i := 0] = replicate (Suc i) 0 @ drop (Suc i) ?a"
    using i f(4) by (simp add: list_update_append replicate_app_Cons_same Cons_nth_drop_Suc[symmetric])
  have din: "dinode k (direct_state k s i) = Inr ((the_dinode s k)\<lparr>di_addrs := ?ai\<rparr>, direct_state k s i)"
    by (simp add: direct_state_def dinode_def bnd_def deref_inode_def)
  show ?thesis
  proof (cases "slots s k i = 0")
    case True
    have "?ai[i := 0] = ?ai" using True ai by (metis list_update_id)
    with True up have "direct_state k s (Suc i) = direct_state k s i" by (simp add: direct_state_def)
    with True din ai show ?thesis by (simp add: trunc_direct_def bnd_def)
  next
    case False
    have sub: "set [0..<i] \<subseteq> {..<NSLOTS}" using i by auto
    have d: "data_block s (unat (slots s k i))" "used s (unat (slots s k i))"
      using file_ok_slot[OF ok _ False] i by simp_all
    have "unat (slots s k i) \<notin> set (used_slots s k [0..<i])"
      using used_slots_fresh[OF ok sub _ _ False] i by simp
    then have bf: "block_free (fst k) (slots s k i) (direct_state k s i) =
        Inr ((), frees (used_slots s k [0..<i] @ [unat (slots s k i)]) ?p)"
      unfolding direct_state_def
      using block_free_frees[of ?p n "used_slots s k [0..<i]" "slots s k i"] f r o
        used_slots_data[OF ok sub] d by simp
    let ?t = "frees (used_slots s k [0..<i] @ [unat (slots s k i)]) ?p"
    have "set_dinode k (\<lambda>di. di\<lparr>di_addrs := (di_addrs di)[i := 0]\<rparr>) ?t = Inr ((), put_addrs k (?ai[i := 0]) ?t)"
      by (simp add: set_dinode_def bnd_def deref_inode_def set_inode_def put_addrs_def the_dinode_def)
    also have "put_addrs k (?ai[i := 0]) ?t = direct_state k s (Suc i)"
      unfolding put_addrs_frees up using False by (simp add: direct_state_def)
    finally show ?thesis using din ai bf False by (simp add: trunc_direct_def bnd_def)
  qed
qed


lemma direct_loop_run:
  assumes ok: "file_ok k s" and r: "bm_room s (Suc n)" and o: "one_bitmap s"
  shows "for_each [0..<NDIRECT] (trunc_direct k) s = Inr ((), direct_state k s 12)"
proof -
  note f = file_ok_basic[OF ok]
  have "put_addrs k (di_addrs (the_dinode s k)) s = s"
    using f(3) by (simp add: put_addrs_def the_dinode_def put_inode_same)
  then have "direct_state k s 0 = s" by (simp add: direct_state_def)
  with for_each_upto[of 12 "trunc_direct k" "direct_state k s"] trunc_direct_step[OF ok r o]
  show ?thesis by simp
qed

text \<open>The loop over the entries of the indirect block, which is held.\<close>

lemma trunc_indirect_loop:
  assumes ok: "file_ok k s" and r: "bm_room s (Suc n)" and o: "one_bitmap s" and ind: "slots s k 12 \<noteq> 0"
    and q: "q = (log_dev s, slots s k 12)" and D: "D = view s q" and p: "p = put_addrs k a s"
  shows "for_each [0..<NINDIRECT] (trunc_indirect k q) (holdd q D (frees (used_slots s k [0..<12]) p)) =
    Inr ((), holdd q D (frees (used_slots s k ([0..<12] @ [13..<NSLOTS])) p))"
proof -
  note f = file_ok_basic[OF ok]
  let ?st = "\<lambda>j. holdd q D (frees (used_slots s k ([0..<12] @ [13..<13 + j])) p)"
  have step: "trunc_indirect k q j (?st j) = Inr ((), ?st (Suc j))" if j: "j < 256" for j
  proof -
    have e: "get_u32 D (4 * j) = slots s k (13 + j)"
      using ind f(2) by (simp add: slots_indirect[of "13 + j"] D q)
    have ext: "[13..<13 + Suc j] = [13..<13 + j] @ [13 + j]"
      using upt_Suc_append[of 13 "13 + j"] by (simp only: add_Suc_right le_add1)
    show ?thesis
    proof (cases "slots s k (13 + j) = 0")
      case True
      then show ?thesis using e unfolding ext by (simp add: trunc_indirect_def bnd_def)
    next
      case False
      let ?is = "[0..<12] @ [13..<13 + j]"
      have sub: "set ?is \<subseteq> {..<NSLOTS}" using j by auto
      have d: "data_block s (unat (slots s k (13 + j)))" "used s (unat (slots s k (13 + j)))"
        using file_ok_slot[OF ok _ False] j by simp_all
      have c: "data_block s (unat (slots s k 12))" using file_ok_slot(1)[OF ok _ ind] by simp
      have fresh: "unat (slots s k (13 + j)) \<notin> set (used_slots s k ?is)"
        using used_slots_fresh[OF ok sub _ _ False] j by simp
      have "block_free (log_dev p) (slots s k (13 + j)) (holdd q D (frees (used_slots s k ?is) p)) =
          Inr ((), holdd q D (frees (used_slots s k ?is @ [unat (slots s k (13 + j))]) p))"
        by (rule block_free_frees_holding[where n = n and c = "slots s k 12"])
           (use f r o used_slots_data[OF ok sub] d c fresh in \<open>simp_all add: p q D\<close>)
      then show ?thesis using e False f(2) unfolding ext by (simp add: trunc_indirect_def bnd_def p)
    qed
  qed
  show ?thesis using for_each_upto[of 256 "trunc_indirect k q" ?st] step by simp
qed

definition all_slots :: "nat list" where
  "all_slots = [0..<12] @ [13..<NSLOTS] @ [12]"

lemma set_all_slots [simp]: "set all_slots = {..<NSLOTS}"
  by (auto simp: all_slots_def)

definition trunc_state :: "INodeKey \<Rightarrow> 'a inode_cache_scheme \<Rightarrow> 'a inode_cache_scheme" where
  "trunc_state k s = set_size k 0 (frees (used_slots s k all_slots)
     (put_addrs k (replicate 13 0) s))"

lemma no_indirect_slots: "slots s k 12 = 0 \<Longrightarrow> used_slots s k [13..<NSLOTS] = []"
  by (simp add: used_slots_def filter_empty_conv slots_indirect)

lemma INode_trunc_body:
  assumes ok: "file_ok k s" and r: "bm_room s (Suc n)" and o: "one_bitmap s"
  shows "INode_trunc k s = INode_update k (trunc_state k s)"
proof -
  note f = file_ok_basic[OF ok]
  let ?a = "replicate 12 0 @ drop 12 (di_addrs (the_dinode s k))"
  let ?p = "put_addrs k (replicate 12 0 @ drop 12 (di_addrs (the_dinode s k))) s"
  let ?all = "used_slots s k ([0..<12] @ [13..<NSLOTS] @ [12])"
  have a: "?a = replicate 12 0 @ [slots s k 12]"
    using f(4) by (simp add: slots_direct Cons_nth_drop_Suc[symmetric])
  have a12: "?a ! 12 = slots s k 12" unfolding a by (simp add: nth_append)
  have a0: "?a[12 := 0] = replicate 13 0" unfolding a by (simp add: list_update_append replicate_append_same numeral_eq_Suc)
  let ?t = "direct_state k s 12"
  have din: "dinode k ?t = Inr ((the_dinode s k)\<lparr>di_addrs := ?a\<rparr>, ?t)"
    by (simp add: direct_state_def dinode_def bnd_def deref_inode_def)
  have fin: "set_dinode k (\<lambda>di. di\<lparr>di_size := 0\<rparr>) u = Inr ((), set_size k 0 u)"
    if "inodes u k = Some m" for u :: "'a inode_cache_scheme" and m
    using that by (simp add: set_size_def the_dinode_def)
  show ?thesis
  proof (cases "slots s k 12 = 0")
    case True
    have "?a[12 := 0] = ?a" using True a12 by (metis list_update_id)
    then have "frees ?all (put_addrs k (replicate 13 0) s) = ?t"
      using True a0 by (simp add: direct_state_def no_indirect_slots)
    then show ?thesis
      using direct_loop_run[OF ok r o] din a12 True fin[of ?t]
      by (simp add: INode_trunc_def bnd_def trunc_state_def all_slots_def direct_state_def)
  next
    case False
    let ?q = "(log_dev s, slots s k 12)"
    let ?D = "view s ?q" and ?xs = "used_slots s k ([0..<12] @ [13..<NSLOTS])"
    have sub: "set [0..<12] \<subseteq> {..<NSLOTS}" "set ([0..<12] @ [13..<NSLOTS]) \<subseteq> {..<NSLOTS}" by auto
    note dat = used_slots_data[OF ok sub(1)] used_slots_data[OF ok sub(2)]
    have d: "data_block s (unat (slots s k 12))" "used s (unat (slots s k 12))"
      using file_ok_slot[OF ok _ False] by simp_all
    have it: "fs_inv ?t" unfolding direct_state_def
      using frees_inv[of ?p n "used_slots s k [0..<12]"] f r o dat by simp
    have vt: "view ?t ?q = ?D" unfolding direct_state_def
      using view_frees[of ?p n "used_slots s k [0..<12]"] f r o dat d by (simp add: content_block_def)
    have hb: "home_block s (slots s k 12)" using data_block_home(1)[of s] f d by (simp add: fs_inv_def)
    have "home_block ?t (slots s k 12)" using hb by (simp add: direct_state_def)
    then have rd: "block_read (fst k) (slots s k 12) ?t = Inr (?q, holdd ?q ?D ?t)"
      using block_read_j[of "{}" ?t "fst k"] it vt f(2) by (simp add: fs_inv_def home_block_def)
    have lp: "for_each [0..<NINDIRECT] (trunc_indirect k ?q) (holdd ?q ?D ?t) =
        Inr ((), holdd ?q ?D (frees ?xs ?p))"
      using trunc_indirect_loop[OF ok r o False refl refl refl] by (simp add: direct_state_def)
    have i2: "fs_inv (frees ?xs ?p)" "view (frees ?xs ?p) ?q = ?D"
      using frees_inv[of ?p n ?xs] view_frees[of ?p n ?xs] f r o dat d by (simp_all add: content_block_def)
    have rl: "block_release ?q (holdd ?q ?D (frees ?xs ?p)) = Inr ((), frees ?xs ?p)"
      using block_release_j[of "{}" "frees ?xs ?p" ?q ?D] i2 by (simp add: fs_inv_def)
    have "unat (slots s k 12) \<notin> set ?xs"
      using used_slots_fresh[OF ok sub(2) _ _ False] by simp
    then have bf: "block_free (fst k) (slots s k 12) (frees ?xs ?p) = Inr ((), frees ?all ?p)"
      using block_free_frees[of ?p n ?xs "slots s k 12"] f r o dat d False by simp
    have sa: "set_dinode k (\<lambda>di. di\<lparr>di_addrs := (di_addrs di)[NDIRECT := 0]\<rparr>) (frees ?all ?p) =
        Inr ((), frees ?all (put_addrs k (replicate 13 0) s))"
    proof -
      have "set_dinode k (\<lambda>di. di\<lparr>di_addrs := (di_addrs di)[NDIRECT := 0]\<rparr>) (frees ?all ?p) =
          Inr ((), put_addrs k (?a[12 := 0]) (frees ?all ?p))"
        by (simp add: set_dinode_def bnd_def deref_inode_def set_inode_def put_addrs_def the_dinode_def)
      then show ?thesis unfolding put_addrs_frees a0 by simp
    qed
    show ?thesis
      using direct_loop_run[OF ok r o] din a12 False rd lp rl bf sa
        fin[of "frees ?all (put_addrs k (replicate 13 0) s)"]
      by (simp add: INode_trunc_def bnd_def trunc_state_def all_slots_def)
  qed
qed


section \<open>The result\<close>

lemma set_used_slots: "set (used_slots s k all_slots) = unat ` owned s k"
proof -
  have "{x \<in> slots s k ` {..<NSLOTS}. x \<noteq> 0} = owned s k" by (auto simp: owned_def)
  then show ?thesis by (simp add: used_slots_def)
qed

lemma trunc_state_spec:
  assumes ok: "file_ok k s" and r: "bm_room s (Suc n)" and o: "one_bitmap s" and t: "t = trunc_state k s"
  shows "file_ok k t" "bm_room t (Suc n)" "same_env s t" "i < NSLOTS \<Longrightarrow> slots t k i = 0"
    "the_dinode t k = (the_dinode s k)\<lparr>di_addrs := replicate 13 0, di_size := 0\<rparr>"
    "y < unat (sb_size s) \<Longrightarrow> used t y \<longleftrightarrow> used s y \<and> y \<notin> unat ` owned s k"
    "content_block s b \<Longrightarrow> view t (log_dev s, b) = view s (log_dev s, b)"
    "k' \<noteq> k \<Longrightarrow> inodes t k' = inodes s k'"
proof -
  note f = file_ok_basic[OF ok]
  let ?p = "put_addrs k (replicate 13 0) s" and ?xs = "used_slots s k all_slots"
  have sub: "set all_slots \<subseteq> {..<NSLOTS}" by simp
  note dat = used_slots_data[OF ok sub]
  have inv: "fs_inv (frees ?xs ?p)" "bm_room (frees ?xs ?p) (Suc n)"
    using frees_inv[of ?p n ?xs] f r o dat by simp_all
  show td: "the_dinode t k = (the_dinode s k)\<lparr>di_addrs := replicate 13 0, di_size := 0\<rparr>"
    by (simp add: t trunc_state_def set_size_def the_dinode_def)
  show env: "same_env s t"
    by (simp add: t trunc_state_def set_size_def put_addrs_def same_env_def)
  have sl: "slots t k i = 0" if "i < NSLOTS" for i
    using that by (simp add: slots_def Let_def td)
  then show "slots t k i = 0" if "i < NSLOTS" using that by simp
  show "bm_room t (Suc n)" using inv(2) by (simp add: t trunc_state_def set_size_def bm_room_def)
  have fi: "fs_inv t" using inv(1) by (simp add: t trunc_state_def set_size_def)
  have "\<exists>i. inodes t k = Some i \<and> dinode_wf (i_dinode i)"
    by (simp add: t trunc_state_def set_size_def dinode_wf_def the_dinode_def)
  then show "file_ok k t" using f(2) fi sl env by (simp add: file_ok_def same_env_def)
  show "used t y \<longleftrightarrow> used s y \<and> y \<notin> unat ` owned s k" if "y < unat (sb_size s)"
    using used_frees[of ?p ?xs y] f(1) dat that set_used_slots[of s k]
    by (simp add: t trunc_state_def set_size_def fs_inv_def) (simp add: put_addrs_def)
  show "view t (log_dev s, b) = view s (log_dev s, b)" if "content_block s b"
    using view_frees[of ?p n ?xs b] f r o dat that by (simp add: t trunc_state_def set_size_def)
  show "inodes t k' = inodes s k'" if "k' \<noteq> k"
    using that by (simp add: t trunc_state_def set_size_def)
qed

lemma INode_trunc_run:
  assumes ok: "file_ok k s" and i: "inum_ok s (snd k)" and r: "bm_room s (Suc n)" and o: "one_bitmap s"
  shows "INode_trunc k s = Inr ((), iupdate k (trunc_state k s))"
    "file_ok k (iupdate k (trunc_state k s))" "log_room (trunc_state k s)"
proof -
  let ?t = "trunc_state k s"
  note ts = trunc_state_spec[OF ok r o refl]
  note f = file_ok_basic[OF ts(1)]
  show lr: "log_room ?t" using bm_room_log_room[OF ts(2)] fs_inv_geom(1)[OF f(1)] .
  have it: "inum_ok ?t (snd k)" using i ts(3) by (simp add: inum_ok_def same_env_def)
  show "INode_trunc k s = Inr ((), iupdate k ?t)"
    using INode_trunc_body[OF ok r o] INode_update_run[OF f(1) lr f(2) it f(3)] by simp
  show "file_ok k (iupdate k ?t)" using iupdate_file(1)[OF ts(1) lr it] .
qed

lemma INode_trunc_effect:
  assumes ok: "file_ok k s" and i: "inum_ok s (snd k)" and r: "bm_room s (Suc n)" and o: "one_bitmap s"
    and s': "s' = iupdate k (trunc_state k s)"
  shows "file_frame k s s'" "free_blocks s' = free_blocks s \<union> unat ` owned s k" "owned s' k = {}"
    "the_dinode s' k = (the_dinode s k)\<lparr>di_addrs := replicate 13 0, di_size := 0\<rparr>"
    "disk_dinode s' (snd k) = the_dinode s' k"
proof -
  let ?t = "trunc_state k s"
  note ts = trunc_state_spec[OF ok r o refl] and tr = INode_trunc_run[OF ok i r o]
  note f = file_ok_basic[OF ok] and ft = file_ok_basic[OF ts(1)]
  have it: "inum_ok ?t (snd k)" using i ts(3) by (simp add: inum_ok_def same_env_def)
  have sz: "sb_size ?t = sb_size s" "log_dev ?t = log_dev s" using ts(3) by (simp_all add: same_env_def)
  have g: "fs_geom s" "fs_geom ?t" using f(1) ft(1) by (simp_all add: fs_inv_def)
  have us: "used s' y \<longleftrightarrow> used s y \<and> y \<notin> unat ` owned s k" if "y < unat (sb_size s)" for y
    using used_iupdate[OF ft(1) it, of y] ts(6)[OF that] that sz by (simp add: s')
  show own: "owned s' k = {}"
    using iupdate_file(2)[OF ts(1) tr(3) it] ts(4) by (auto simp: s' owned_def)
  have ow: "x < unat (sb_size s)" if "x \<in> unat ` owned s k" for x
    using that file_ok_slot(1)[OF ok] by (auto simp: owned_def data_block_def)
  show "free_blocks s' = free_blocks s \<union> unat ` owned s k"
    using us ow sz by (auto simp: free_blocks_def s')
  show td: "the_dinode s' k = (the_dinode s k)\<lparr>di_addrs := replicate 13 0, di_size := 0\<rparr>"
    using ts(5) by (simp add: s')
  have wf: "dinode_wf (the_dinode ?t k)" using ft by (simp add: dinode_wf_def)
  have dd: "disk_dinode s' j = (if j = snd k then the_dinode ?t k else disk_dinode ?t j)"
    if "inum_ok s j" for j
    using disk_dinode_iupdate[OF ft(1) it _ wf, of j] that ts(3) by (simp add: s' inum_ok_def same_env_def)
  then show "disk_dinode s' (snd k) = the_dinode s' k" using i by (simp add: s')
  have "INODE_BLOCK ?t = INODE_BLOCK s" using ts(3) by (simp add: INODE_BLOCK_def same_env_def fun_eq_iff)
  then have dt: "disk_dinode ?t j = disk_dinode s j" if "inum_ok s j" for j
    using ts(7)[OF INODE_BLOCK_content[OF g(1) that]] sz by (simp add: disk_dinode_def)
  have vb: "used s' (unat b) \<and> view s' (fst k, b) = view s (fst k, b)"
    if "data_block s (unat b)" "used s (unat b)" "b \<notin> owned s k" for b
  proof -
    have "unat b \<notin> unat ` owned s k" using that(3) by (metis imageE unsigned_word_eqI)
    moreover have "view s' (fst k, b) = view ?t (fst k, b)"
      using view_iupdate_data[OF g(2) it, of b] that(1) data_block_same_env[OF ts(3)] sz f(2) by (simp add: s')
    ultimately show ?thesis
      using us that ts(7)[of b] f(2) by (simp add: content_block_def data_block_def)
  qed
  have "same_env s s'" using ts(3) iupdate_fields(9)[of ?t k] by (simp add: s' same_env_def)
  moreover have "disk_dinode s' j = disk_dinode s j" if "inum_ok s j" "j \<noteq> snd k" for j
    using dd[OF that(1)] dt[OF that(1)] that(2) by simp
  moreover have "inodes s' k' = inodes s k'" if "k' \<noteq> k" for k' using ts(8)[OF that] by (simp add: s')
  ultimately show "file_frame k s s'" using vb own by (simp add: file_frame_def)
qed

end
