(* ===== verification/File_Properties.thy ===== *)
theory File_Properties
  imports Truncate
begin

text \<open>
  The properties of the inode layer: writing and reading back, short writes, reads outside a
  transaction, the stability of the block map, truncation, and loading what was written.
\<close>

section \<open>A file for the examples\<close>

text \<open>The file system \<open>demo_fs\<close> with an empty regular file as inode 1, locked by the caller.\<close>

definition demo_inode :: INode where
  "demo_inode = \<lparr>i_ref = 1, i_locked = True, i_valid = True,
     i_dinode = \<lparr>di_type = T_FILE, di_major = 0, di_minor = 0, di_nlink = 1, di_size = 0,
       di_addrs = replicate 13 0\<rparr>\<rparr>"

definition demo_file :: inode_cache where
  "demo_file = log_state.extend demo_fs
     (inode_cache.fields [(1, 1) \<mapsto> demo_inode, (1, 2) \<mapsto> demo_inode\<lparr>i_valid := False, i_locked := False\<rparr>] 0)"

lemmas demo_file_defs = demo_file_def demo_fs_def log_state.defs inode_cache.defs

lemma demo_file_fields [simp]:
  "mmap_base demo_file = mmap_base demo_fs" "st_size demo_file = st_size demo_fs"
  "blocks demo_file = Map.empty" "sb_size demo_file = sb_size demo_fs"
  "sb_ninodes demo_file = 200" "sb_inodestart demo_file = sb_inodestart demo_fs"
  "sb_bmapstart demo_file = sb_bmapstart demo_fs" "log_start demo_file = log_start demo_fs"
  "log_size demo_file = log_size demo_fs" "outstanding demo_file = outstanding demo_fs"
  "log_dev demo_file = 1" "log_hdr demo_file = log_hdr demo_fs"
  "inodes demo_file (1, 1) = Some demo_inode"
  "inodes demo_file (1, 2) = Some (demo_inode\<lparr>i_valid := False, i_locked := False\<rparr>)"
  by (simp_all add: demo_file_defs)

lemma demo_file_derived [simp]:
  "view demo_file = view demo_fs" "BIT_BLOCK demo_file = BIT_BLOCK demo_fs"
  "data_start demo_file = 46" "logged demo_file = logged demo_fs"
  "in_image demo_file = in_image demo_fs" "in_log demo_file = in_log demo_fs"
proof -
  show "view demo_file = view demo_fs" by (simp add: view_def fun_eq_iff) (simp add: demo_fs_def)
  show "data_start demo_file = 46"
    using demo_fs_fields(3) by (simp add: data_start_def)
qed (simp_all add: BIT_BLOCK_def logged_def in_image_def in_log_def fun_eq_iff)

lemma demo_file_inv [simp]: "fs_inv demo_file"
proof -
  have i: "fs_inv demo_fs" by simp
  have "jinv {} demo_file"
    by (simp add: jinv_def log_geom_def log_wf_def logged_def cache_inv_def pins_def)
       (simp add: demo_fs_def)
  moreover have "used demo_file = used demo_fs" by (simp add: used_def fun_eq_iff)
  moreover have "fs_geom demo_file" using i by (simp add: fs_inv_def fs_geom_def) (simp add: demo_fs_def)
  ultimately show ?thesis using i by (simp add: fs_inv_def meta_used_def)
qed

lemma demo_file_ok [simp]: "file_ok (1, 1) demo_file"
proof -
  have td: "di_addrs (the_dinode demo_file (1, 1)) = replicate 13 0"
    by (simp add: the_dinode_def demo_inode_def)
  have "slots demo_file (1, 1) i = 0" if "i < NSLOTS" for i
    using that by (simp add: slots_def Let_def td)
  then show ?thesis by (simp add: file_ok_def demo_inode_def dinode_wf_def)
qed

lemma demo_file_facts [simp]:
  "room demo_file k \<longleftrightarrow> k < 30" "inum_ok demo_file 1" "fsize demo_file (1, 1) = 0"
  "dense (1, 1) demo_file" "free_blocks demo_file = {46..<64}" "one_bitmap demo_file"
proof -
  have "used demo_file = used demo_fs" by (simp add: used_def fun_eq_iff)
  then show "free_blocks demo_file = {46..<64}"
    using demo_fs_free by (simp add: free_blocks_def)
  show "room demo_file k \<longleftrightarrow> k < 30" using demo_fs_room[of k] by (simp add: room_def)
  show z: "fsize demo_file (1, 1) = 0" by (simp add: fsize_def the_dinode_def demo_inode_def)
  then show "dense (1, 1) demo_file" by (simp add: dense_def)
qed (simp_all add: inum_ok_def one_bitmap_def)

section \<open>Limits\<close>

text \<open>The blocks of a well-formed file are few, and lie in the data area of the image.\<close>

lemma owned_bounds:
  assumes ok: "file_ok k s"
  shows "card (owned s k) \<le> NSLOTS"
    "b \<in> owned s k \<Longrightarrow> data_start s \<le> unat b \<and> unat b * BSIZE + BSIZE \<le> st_size s \<and>
      unat (b * of_nat BSIZE) = unat b * BSIZE"
proof -
  have "owned s k \<subseteq> slots s k ` {..<NSLOTS}" by (auto simp: owned_def)
  then have "card (owned s k) \<le> card (slots s k ` {..<NSLOTS})" by (intro card_mono) simp_all
  also have "\<dots> \<le> NSLOTS" using card_image_le[of "{..<NSLOTS}" "slots s k"] by simp
  finally show "card (owned s k) \<le> NSLOTS" .
  show "data_start s \<le> unat b \<and> unat b * BSIZE + BSIZE \<le> st_size s \<and> unat (b * of_nat BSIZE) = unat b * BSIZE"
    if b: "b \<in> owned s k"
  proof -
    have d: "data_block s (unat b)" using b file_ok_slot(1)[OF ok] by (auto simp: owned_def)
    have g: "fs_geom s" using file_ok_basic(1)[OF ok] by (simp add: fs_inv_def)
    then have l: "unat b < 2 ^ 22" "unat b < unat (sb_size s)" "unat (sb_size s) * BSIZE \<le> st_size s"
      using d by (simp_all add: data_block_def fs_geom_def)
    have "unat (b * of_nat BSIZE) = unat b * BSIZE" using l(1) by (simp add: unat_word_ariths)
    then show ?thesis using d l by (simp add: data_block_def)
  qed
qed

section \<open>Properties\<close>

text \<open>
  C6: bytes written to a file read back. With enough free blocks and room in the log, \<open>INode::write\<close>
  stores the whole buffer at the offset; a read of that range returns the buffer, in the same
  state; the other bytes of the file and every byte of every other file are as before; the inode on
  disk is the one in memory.
\<close>

theorem INode_write_read_back:
  assumes ok: "file_ok k s" and d: "dense k s" and i: "inum_ok s (snd k)" and off: "off \<le> fsize s k"
    and e: "off + length buf \<le> MAX_FILE * BSIZE"
    and c: "length buf + off mod BSIZE \<le> c * BSIZE" and r: "room s (6 * c + 1)"
    and free: "2 * c \<le> card (free_blocks s)"
  shows "\<exists>s'. INode_write k buf off s = Inr (of_nat (length buf), s') \<and>
    INode_read k off (length buf) s' = Inr (buf, s') \<and> file_ok k s' \<and> dense k s' \<and>
    fsize s' k = max (fsize s k) (off + length buf) \<and> disk_dinode s' (snd k) = the_dinode s' k \<and>
    (\<forall>p. p < off \<or> off + length buf \<le> p \<longrightarrow> fcontent s' k p = fcontent s k p) \<and>
    (\<forall>k'. k' \<noteq> k \<and> file_ok k' s \<and> owned s k \<inter> owned s k' = {} \<longrightarrow>
      file_ok k' s' \<and> fcontent s' k' = fcontent s k' \<and> owned s' k \<inter> owned s' k' = {})"
proof -
  from INode_write_run[OF ok i off e c r] free obtain s' where w:
    "INode_write k buf off s = Inr (of_nat (length buf), s')" "file_ok k s'" "file_frame k s s'"
    "fsize s' k = max (fsize s k) (off + length buf)" "disk_dinode s' (snd k) = the_dinode s' k"
    "\<forall>p. fcontent s' k p = (if off \<le> p \<and> p < off + length buf then buf ! (p - off) else fcontent s k p)"
    "dense k s'" using d by blast
  have "map (fcontent s' k) [off..<off + length buf] = buf"
    using w(6) by (intro nth_equalityI) simp_all
  then have "INode_read k off (length buf) s' = Inr (buf, s')"
    using INode_read_run[OF w(2,7), of off "length buf"] w(4) by (simp add: max_def min_def)
  moreover note fo = file_frame_other[OF w(3) file_ok_basic(1)[OF w(2)] ok]
  ultimately show ?thesis using w by (intro exI[of _ s']) auto
qed

theorem INode_write_read_back_witness:
  "file_ok (1, 1) demo_file \<and> dense (1, 1) demo_file \<and>
   (\<exists>s'. INode_write (1, 1) (cstr ''hello'') 0 demo_file = Inr (5, s') \<and>
      INode_read (1, 1) 0 5 s' = Inr (cstr ''hello'', s') \<and> fsize s' (1, 1) = 5)"
proof -
  have l: "length (cstr ''hello'') = 5" by (simp add: cstr_def)
  show ?thesis using INode_write_read_back[of "(1, 1)" demo_file 0 "cstr ''hello''" 1, unfolded l] by auto
qed

text \<open>
  C7: a write is never torn. Whatever the number of free blocks, \<open>INode::write\<close> returns the number
  \<open>tot\<close> of bytes stored; exactly the first \<open>tot\<close> bytes of the buffer are in the file, the size is that
  of the longer of the old and the written part, type, device and link count are untouched, and
  the call is short only when the disk is nearly full.
\<close>

theorem INode_write_short:
  assumes ok: "file_ok k s" and i: "inum_ok s (snd k)" and off: "off \<le> fsize s k"
    and e: "off + length buf \<le> MAX_FILE * BSIZE"
    and c: "length buf + off mod BSIZE \<le> c * BSIZE" and r: "room s (6 * c + 1)"
  shows "\<exists>tot s'. INode_write k buf off s = Inr (of_nat tot, s') \<and> tot \<le> length buf \<and>
    (tot < length buf \<longrightarrow> card (free_blocks s) < 2 * c) \<and> file_ok k s' \<and> file_frame k s s' \<and>
    the_dinode s' k = (the_dinode s k)\<lparr>di_size := of_nat (max (fsize s k) (off + tot)),
      di_addrs := di_addrs (the_dinode s' k)\<rparr> \<and> disk_dinode s' (snd k) = the_dinode s' k \<and>
    (\<forall>p. fcontent s' k p = (if off \<le> p \<and> p < off + tot then buf ! (p - off) else fcontent s k p))"
proof -
  from INode_write_run[OF assms] obtain tot s' where
    "INode_write k buf off s = Inr (of_nat tot, s')" "tot \<le> length buf"
    "2 * c \<le> card (free_blocks s) \<longrightarrow> tot = length buf" "file_ok k s'" "file_frame k s s'"
    "the_dinode s' k = (the_dinode s k)\<lparr>di_size := of_nat (max (fsize s k) (off + tot)),
      di_addrs := di_addrs (the_dinode s' k)\<rparr>" "disk_dinode s' (snd k) = the_dinode s' k"
    "\<forall>p. fcontent s' k p = (if off \<le> p \<and> p < off + tot then buf ! (p - off) else fcontent s k p)"
    by blast
  then show ?thesis by (intro exI[of _ tot] exI[of _ s']) auto
qed

theorem INode_write_short_witness:
  "file_ok (1, 1) demo_file \<and> (\<exists>s'. INode_write (1, 1) (cstr ''abc'') 0 demo_file = Inr (3, s') \<and>
     file_ok (1, 1) s')"
  using INode_write_short[of "(1, 1)" demo_file 0 "cstr ''abc''" 1]
  by (auto simp: cstr_def)

text \<open>
  A read of a file without holes returns the bytes of the file from the offset on, cut at the
  end of the file, and changes nothing at all: it needs no transaction. An offset behind the end
  gives no byte.
\<close>

theorem INode_read_spec:
  assumes "file_ok k s" "dense k s"
  shows "INode_read k off n s = Inr (map (fcontent s k) [off..<min (off + n) (fsize s k)], s)"
  by (rule INode_read_run[OF assms])

theorem INode_read_spec_witness:
  "file_ok (1, 1) demo_file \<and> dense (1, 1) demo_file \<and> INode_read (1, 1) 0 100 demo_file = Inr ([], demo_file)"
  using INode_read_spec[of "(1, 1)" demo_file 0 100] by simp

text \<open>
  A write behind the end of the file, or past the largest file, is refused with \<open>-1\<close> and
  changes nothing.
\<close>

theorem INode_write_refused:
  assumes "inodes s k = Some n"
    and "unat (di_size (i_dinode n)) < off \<or> MAX_FILE * BSIZE < off + length buf"
  shows "INode_write k buf off s = Inr (-1, s)"
  using assms by (auto simp: INode_write_def bnd_def)

theorem INode_write_refused_witness:
  "inodes demo_file (1, 1) = Some demo_inode \<and> INode_write (1, 1) (cstr ''x'') 1 demo_file = Inr (-1, demo_file)"
  using INode_write_refused[of demo_file "(1, 1)" demo_inode 1 "cstr ''x''"] by (simp add: demo_inode_def)



text \<open>
  C8: \<open>block_map\<close> returns a block of the file, adding a fresh one when the slot is empty. Slots that
  were filled keep their block, the bytes of the file do not change (a fresh block reads as zeros),
  and \<open>0\<close> is returned only when at most one block is left.
\<close>

theorem block_map_spec:
  assumes ok: "file_ok k s" and r: "room s 5" and bn: "bn < MAX_FILE"
  shows "\<exists>b s'. block_map k bn s = Inr (b, s') \<and> file_ok k s' \<and> slots s' k (slot_of bn) = b \<and>
    (\<forall>i < NSLOTS. slots s k i \<noteq> 0 \<longrightarrow> slots s' k i = slots s k i) \<and>
    fcontent s' k = fcontent s k \<and> owned s' k - owned s k \<subseteq> of_nat ` free_blocks s \<and>
    (b = 0 \<longrightarrow> card (free_blocks s) \<le> 1)"
proof -
  obtain b s' where p: "pmap k bn s = (b, s')" by fastforce
  have "room s (0 + 5)" using r by simp
  from pmap_spec[OF ok this bn p] block_map_run[OF ok r bn] p show ?thesis
    by (intro exI[of _ b] exI[of _ s']) (simp add: grows_def extends_def)
qed

theorem block_map_spec_witness:
  "file_ok (1, 1) demo_file \<and> room demo_file 5 \<and>
   (\<exists>b s'. block_map (1, 1) 20 demo_file = Inr (b, s') \<and> slots s' (1, 1) 21 = b \<and> b \<noteq> 0)"
  using block_map_spec[of "(1, 1)" demo_file 20] by (auto simp: slot_of_def)

text \<open>
  C9: \<open>INode::trunc\<close> gives back exactly the blocks of the file, indirect block included, writes an
  empty inode to disk, and leaves every other file and every other inode as it was.
\<close>

theorem INode_trunc_spec:
  assumes ok: "file_ok k s" and i: "inum_ok s (snd k)" and r: "room s 2" and o: "one_bitmap s"
  shows "\<exists>s'. INode_trunc k s = Inr ((), s') \<and> file_ok k s' \<and> owned s' k = {} \<and> fsize s' k = 0 \<and>
    free_blocks s' = free_blocks s \<union> unat ` owned s k \<and> disk_dinode s' (snd k) = the_dinode s' k \<and>
    di_type (the_dinode s' k) = di_type (the_dinode s k) \<and> file_frame k s s'"
proof -
  have "bm_room s (Suc 0)" using r by (simp add: bm_room_def numeral_2_eq_2)
  note run = INode_trunc_run[OF ok i this o] and ef = INode_trunc_effect[OF ok i this o refl]
  show ?thesis
    by (rule exI[of _ "iupdate k (trunc_state k s)"]) (use run ef in \<open>simp add: fsize_def\<close>)
qed

theorem INode_trunc_spec_witness:
  "file_ok (1, 1) demo_file \<and> room demo_file 2 \<and> one_bitmap demo_file \<and>
   (\<exists>s'. INode_trunc (1, 1) demo_file = Inr ((), s') \<and> owned s' (1, 1) = {} \<and> fsize s' (1, 1) = 0)"
  using INode_trunc_spec[of "(1, 1)" demo_file] by auto

text \<open>
  What \<open>INode::update\<close> writes is what \<open>INode::lock\<close> loads: for any reference to the inode that
  has not been read yet, locking after the update yields the same type, size, link count and block
  numbers.
\<close>

theorem update_lock_roundtrip:
  assumes i: "fs_inv s" and r: "room s 1" and k: "fst k = log_dev s" "inum_ok s (snd k)"
    and n: "inodes s k = Some n" and wf: "dinode_wf (i_dinode n)" and ty: "di_type (i_dinode n) \<noteq> 0"
    and m: "i_ref m \<ge> 1" "\<not> i_locked m" "\<not> i_valid m"
  shows "\<exists>s' s''. INode_update k s = Inr ((), s') \<and>
    INode_lock k (put_inode k m s') = Inr ((), s'') \<and> the_dinode s'' k = i_dinode n \<and>
    (\<forall>j. inum_ok s j \<and> j \<noteq> snd k \<longrightarrow> disk_dinode s'' j = disk_dinode s j)"
proof -
  have lr: "log_room s" using room_log_room[of s 0] r fs_inv_geom(1)[OF i] by simp
  let ?s1 = "iupdate k s"
  let ?s2 = "put_inode k m ?s1"
  have d2: "disk_dinode ?s2 = disk_dinode ?s1" by (simp add: disk_dinode_def fun_eq_iff)
  have dd: "disk_dinode ?s2 (snd k) = i_dinode n" "inum_ok s j \<and> j \<noteq> snd k \<Longrightarrow> disk_dinode ?s2 j = disk_dinode s j" for j
    using disk_dinode_iupdate[OF i k(2)] k(2) wf n unfolding d2 by (simp_all add: the_dinode_def)
  have "INode_lock k ?s2 = Inr ((), put_inode k (m\<lparr>i_locked := True, i_dinode := i_dinode n, i_valid := True\<rparr>) ?s2)"
    using INode_lock_load[of ?s2 k m] fs_inv_iupdate[OF i lr k(2)] k m dd(1) ty by simp
  then show ?thesis
    using INode_update_run[OF i lr k n] dd(2)
    by (intro exI[of _ ?s1] exI conjI) (auto simp: the_dinode_def disk_dinode_def)
qed

theorem update_lock_roundtrip_witness:
  "fs_inv demo_file \<and> (\<exists>s' s''. INode_update (1, 1) demo_file = Inr ((), s') \<and>
     INode_lock (1, 1) (put_inode (1, 1) (demo_inode\<lparr>i_locked := False, i_valid := False\<rparr>) s') = Inr ((), s'') \<and>
     the_dinode s'' (1, 1) = i_dinode demo_inode)"
  using update_lock_roundtrip[of demo_file "(1, 1)" demo_inode "demo_inode\<lparr>i_locked := False, i_valid := False\<rparr>"]
  by (auto simp: demo_inode_def dinode_wf_def)

end
