(* ===== verification/Inode_Cache.thy ===== *)
theory Inode_Cache
  imports File_Properties
begin

text \<open>
  \<open>src/INodeCache.cxx\<close>: the table of in-memory inodes. \<open>inode_get\<close> hands out references,
  \<open>inode_put\<close> drops them and deletes an inode that has neither references nor links, \<open>inode_alloc\<close>
  searches the inode blocks for a free inode. The mutex of the table is taken and dropped inside
  each operation.
\<close>

section \<open>Operations\<close>

definition INodeKey_less :: "INodeKey \<Rightarrow> INodeKey \<Rightarrow> bool" where
  "INodeKey_less k other =
     (if fst k \<noteq> fst other then fst k < fst other else snd k < snd other)"

definition new_inode :: INode where
  "new_inode = \<lparr>i_ref = 1, i_locked = False, i_valid = False, i_dinode = zero_dinode\<rparr>"

definition inode_get :: "u32 \<Rightarrow> u32 \<Rightarrow> (INodeKey, 'a inode_cache_scheme) m" where
  "inode_get dev inum =
     bnd (gets (\<lambda>s. inodes s (dev, inum))) (\<lambda>it. case it of
       Some ip \<Rightarrow> bnd (set_inode (dev, inum) (ip\<lparr>i_ref := i_ref ip + 1\<rparr>)) (\<lambda>_. ret (dev, inum))
     | None \<Rightarrow> bnd (set_inode (dev, inum) new_inode) (\<lambda>_. ret (dev, inum)))"

function inode_alloc_loop :: "u32 \<Rightarrow> FileType \<Rightarrow> nat \<Rightarrow> nat \<Rightarrow> (INodeKey option, 'a inode_cache_scheme) m" where
  "inode_alloc_loop dev type ninodes inum =
     (if inum < ninodes then
        bnd (gets (\<lambda>s. INODE_BLOCK s (of_nat inum))) (\<lambda>ib.
        bnd (block_read dev ib) (\<lambda>bp.
        bnd (block_data bp) (\<lambda>d.
        if di_type (get_dinode d (inode_pos (of_nat inum))) = 0 then
          bnd (set_block_data bp
            (put_dinode d (inode_pos (of_nat inum)) (zero_dinode\<lparr>di_type := type\<rparr>))) (\<lambda>_.
          bnd (log_write bp) (\<lambda>_.
          bnd (block_release bp) (\<lambda>_.
          bnd (inode_get dev (of_nat inum)) (\<lambda>ip.
          ret (Some ip)))))
        else
          bnd (block_release bp) (\<lambda>_.
          inode_alloc_loop dev type ninodes (Suc inum)))))
      else ret None)"
  by pat_completeness auto
termination
  by (relation "measure (\<lambda>(dev, type, ninodes, inum). ninodes - inum)") auto

declare inode_alloc_loop.simps [simp del]

definition inode_alloc :: "u32 \<Rightarrow> FileType \<Rightarrow> (INodeKey option, 'a inode_cache_scheme) m" where
  "inode_alloc dev type =
     bnd (gets (\<lambda>s. unat (sb_ninodes s))) (\<lambda>n. inode_alloc_loop dev type n 1)"

definition inode_dup :: "INodeKey \<Rightarrow> (INodeKey, 'a inode_cache_scheme) m" where
  "inode_dup ip =
     bnd (deref_inode ip) (\<lambda>i.
     bnd (set_inode ip (i\<lparr>i_ref := i_ref i + 1\<rparr>)) (\<lambda>_.
     ret ip))"

definition inode_put :: "INodeKey \<Rightarrow> (unit, 'a inode_cache_scheme) m" where
  "inode_put ip =
     bnd (deref_inode ip) (\<lambda>i.
     bnd (when_do (i_ref i = 1 \<and> i_valid i \<and> di_nlink (i_dinode i) = 0)
       (bnd (inode_mutex_lock ip) (\<lambda>_.
        bnd (INode_trunc ip) (\<lambda>_.
        bnd (set_dinode ip (\<lambda>di. di\<lparr>di_type := FT_Invalid\<rparr>)) (\<lambda>_.
        bnd (INode_update ip) (\<lambda>_.
        bnd (deref_inode ip) (\<lambda>i'.
        bnd (set_inode ip (i'\<lparr>i_valid := False\<rparr>)) (\<lambda>_.
        inode_mutex_unlock ip)))))))) (\<lambda>_.
     bnd (deref_inode ip) (\<lambda>i.
     let i' = i\<lparr>i_ref := i_ref i - 1\<rparr> in
     if i_ref i' = 0
     then modify (\<lambda>s. s\<lparr>inodes := (inodes s)(ip := None)\<rparr>)
     else set_inode ip i')))"

definition inode_unlock_put :: "INodeKey \<Rightarrow> (unit, 'a inode_cache_scheme) m" where
  "inode_unlock_put ip = bnd (INode_unlock ip) (\<lambda>_. inode_put ip)"

section \<open>References\<close>

lemma inode_get_run:
  "inode_get dev inum s = Inr ((dev, inum), put_inode (dev, inum)
     (case inodes s (dev, inum) of None \<Rightarrow> new_inode | Some n \<Rightarrow> n\<lparr>i_ref := i_ref n + 1\<rparr>) s)"
  by (simp add: inode_get_def bnd_def set_inode_def split: option.split)

definition drop_inode :: "INodeKey \<Rightarrow> 'a inode_cache_scheme \<Rightarrow> 'a inode_cache_scheme" where
  "drop_inode k s = s\<lparr>inodes := (inodes s)(k := None)\<rparr>"

lemma drop_put_inode: "inodes s k = None \<Longrightarrow> drop_inode k (put_inode k n s) = s"
  by (simp add: drop_inode_def put_inode_def fun_upd_idem)

lemma inode_put_keep:
  assumes "inodes s k = Some n" "\<not> (i_ref n = 1 \<and> i_valid n \<and> di_nlink (i_dinode n) = 0)"
  shows "inode_put k s = Inr ((), if i_ref n = 1 then drop_inode k s else put_inode k (n\<lparr>i_ref := i_ref n - 1\<rparr>) s)"
  using assms by (auto simp: inode_put_def bnd_def Let_def set_inode_def drop_inode_def)

lemma INode_unlock_run:
  "inodes s k = Some n \<Longrightarrow> i_ref n \<ge> 1 \<Longrightarrow> i_locked n \<Longrightarrow>
     INode_unlock k s = Inr ((), put_inode k (n\<lparr>i_locked := False\<rparr>) s)"
  by (simp add: INode_unlock_def inode_mutex_unlock_def bnd_def set_inode_def)

section \<open>Allocation\<close>

definition ialloc_result :: "u32 \<Rightarrow> FileType \<Rightarrow> 'a inode_cache_scheme \<Rightarrow> 'a inode_cache_scheme" where
  "ialloc_result i type s =
     logd (INODE_BLOCK s i) (put_dinode (view s (log_dev s, INODE_BLOCK s i)) (inode_pos i)
       (zero_dinode\<lparr>di_type := type\<rparr>)) s"

lemma inode_alloc_step:
  assumes i: "fs_inv s" and r: "log_room s" and n: "inum_ok s (of_nat x)" "x < unat (sb_ninodes s)"
  shows "inode_alloc_loop (log_dev s) type (unat (sb_ninodes s)) x s =
    (if di_type (disk_dinode s (of_nat x)) = 0
     then bnd (inode_get (log_dev s) (of_nat x)) (\<lambda>ip. ret (Some ip)) (ialloc_result (of_nat x) type s)
     else inode_alloc_loop (log_dev s) type (unat (sb_ninodes s)) (Suc x) s)"
proof -
  let ?ib = "INODE_BLOCK s (of_nat x)"
  let ?q = "(log_dev s, ?ib)"
  let ?D = "view s ?q"
  let ?D' = "put_dinode ?D (inode_pos (of_nat x)) (zero_dinode\<lparr>di_type := type\<rparr>)"
  have j: "jinv {} s" and g: "fs_geom s" using i by (simp_all add: fs_inv_def)
  have hb: "home_block s ?ib" using INODE_BLOCK_home[OF g n(1)] by simp
  have rd: "block_read (log_dev s) ?ib s = Inr (?q, holdd ?q ?D s)"
    using block_read_j[OF j] hb by (simp add: home_block_def)
  have rel: "block_release ?q (holdd ?q ?D s) = Inr ((), s)" using block_release_j[OF j] by simp
  have w: "log_write ?q (holdd ?q ?D' s) = Inr ((), holdd ?q ?D' (logd ?ib ?D' s))"
    using log_write_hold[OF j refl _ r] by simp
  have rl: "block_release ?q (holdd ?q ?D' (logd ?ib ?D' s)) = Inr ((), logd ?ib ?D' s)"
    using log_write_release[OF j refl _ r hb] by simp
  show ?thesis
    using rd rel w rl n(2)
    by (simp add: inode_alloc_loop.simps[of _ _ _ x] bnd_def disk_dinode_def ialloc_result_def)
qed

lemma inum_ok_of_nat: "x < unat (sb_ninodes s) \<Longrightarrow> inum_ok s (of_nat x) \<and> unat (of_nat x :: u32) = x"
proof -
  assume x: "x < unat (sb_ninodes s)"
  moreover have "unat (sb_ninodes s) < 2 ^ 32" using unsigned_less[of "sb_ninodes s"] by simp
  ultimately have "unat (of_nat x :: u32) = x" by (simp add: unat_of_nat)
  with x show ?thesis by (simp add: inum_ok_def)
qed

lemma inode_alloc_loop_run:
  assumes i: "fs_inv s" and r: "log_room s" and N: "N = unat (sb_ninodes s)"
  shows "inode_alloc_loop (log_dev s) type N x s =
    (case find (\<lambda>y. di_type (disk_dinode s (of_nat y)) = 0) [x..<N] of
       None \<Rightarrow> Inr (None, s)
     | Some y \<Rightarrow> bnd (inode_get (log_dev s) (of_nat y)) (\<lambda>ip. ret (Some ip)) (ialloc_result (of_nat y) type s))"
proof (induction "N - x" arbitrary: x rule: less_induct)
  case (less x)
  show ?case
  proof (cases "x < N")
    case False
    then show ?thesis by (simp add: inode_alloc_loop.simps[of _ _ _ x])
  next
    case True
    then have "[x..<N] = x # [Suc x..<N]" by (simp add: upt_conv_Cons)
    with True less[of "Suc x"] inode_alloc_step[OF i r, of x type] inum_ok_of_nat[of x s] N show ?thesis
      by simp
  qed
qed


lemma inode_block_disjoint:
  assumes g: "fs_geom s" and i: "inum_ok s i" and j: "inum_ok s j" and ne: "i \<noteq> j"
    and b: "INODE_BLOCK s j = INODE_BLOCK s i"
  shows "inode_pos i + 64 \<le> inode_pos j \<or> inode_pos j + 64 \<le> inode_pos i"
proof (rule inode_pos_apart)
  have "unat j div 16 = unat i div 16"
    using INODE_BLOCK_home(1)[OF g j] INODE_BLOCK_home(1)[OF g i] b by simp
  then show "unat i mod 16 \<noteq> unat j mod 16"
    using ne by (metis div_mult_mod_eq unsigned_word_eqI)
qed

lemma disk_dinode_ialloc:
  assumes i: "fs_inv s" and n: "inum_ok s i" and j: "inum_ok s j"
  shows "disk_dinode (ialloc_result i type s) j =
    (if j = i then zero_dinode\<lparr>di_type := type\<rparr> else disk_dinode s j)"
proof -
  have g: "fs_geom s" using i by (simp add: fs_inv_def)
  have wf: "dinode_wf (zero_dinode\<lparr>di_type := type\<rparr>)" by (simp add: dinode_wf_def zero_dinode_def)
  show ?thesis
  proof (cases "INODE_BLOCK s j = INODE_BLOCK s i")
    case True
    then show ?thesis using inode_block_disjoint[OF g n j] wf
      by (auto simp: disk_dinode_def ialloc_result_def view_logd dinodec.get_put intro!: dinodec.get_put_apart)
  next
    case False
    then show ?thesis by (auto simp: disk_dinode_def ialloc_result_def view_logd)
  qed
qed

lemma fs_inv_ialloc:
  assumes "fs_inv s" "log_room s" "inum_ok s i"
  shows "fs_inv (ialloc_result i type s)"
  unfolding ialloc_result_def
  using assms INODE_BLOCK_home(3)[of s i] INODE_BLOCK_not_bitmap[of s i]
  by (intro fs_inv_logd) (auto simp: fs_inv_def)

section \<open>Deletion\<close>

lemma file_ok_put_inode:
  assumes ok: "file_ok k s" and a: "di_addrs (i_dinode m) = di_addrs (the_dinode s k)"
  shows "file_ok k (put_inode k m s)" "slots (put_inode k m s) k = slots s k"
    "owned (put_inode k m s) k = owned s k" "fcontent (put_inode k m s) k = fcontent s k"
proof -
  note f = file_ok_basic[OF ok]
  have td: "di_addrs (the_dinode (put_inode k m s) k) = di_addrs (the_dinode s k)"
    using a by (simp add: the_dinode_def)
  show sl: "slots (put_inode k m s) k = slots s k" by (simp add: fun_eq_iff slots_def Let_def td)
  then show "owned (put_inode k m s) k = owned s k" by (simp add: owned_def)
  show "fcontent (put_inode k m s) k = fcontent s k" by (simp add: fun_eq_iff fcontent_def Let_def sl)
  have "dinode_wf (i_dinode m)" using f(4) a by (simp add: dinode_wf_def)
  then show "file_ok k (put_inode k m s)" using ok unfolding file_ok_def sl by simp
qed

lemma file_frame_put_inode:
  "file_frame k (put_inode k m s) s' \<Longrightarrow> owned (put_inode k m s) k = owned s k \<Longrightarrow> file_frame k s s'"
  by (auto simp: file_frame_def same_env_def disk_dinode_def)

lemma iupdate_put_inode_frame:
  assumes ok: "file_ok k s" and lr: "log_room s" and i: "inum_ok s (snd k)" and own: "owned s k = {}"
    and m: "di_addrs (i_dinode m) = di_addrs (the_dinode s k)" and s': "s' = iupdate k (put_inode k m s)"
  shows "fs_inv s'" "file_frame k s s'" "disk_dinode s' (snd k) = i_dinode m" "free_blocks s' = free_blocks s"
proof -
  let ?t = "put_inode k m s"
  note p = file_ok_put_inode[OF ok m]
  note f = file_ok_basic[OF p(1)]
  have g: "fs_geom ?t" using f(1) by (simp add: fs_inv_def)
  have it: "inum_ok ?t (snd k)" using i by simp
  have lrt: "log_room ?t" using lr by simp
  show "fs_inv s'" unfolding s' using fs_inv_iupdate[OF f(1) lrt it] .
  have wf: "dinode_wf (the_dinode ?t k)" using f by (simp add: dinode_wf_def)
  have dd: "disk_dinode s' j = (if j = snd k then i_dinode m else disk_dinode s j)" if "inum_ok s j" for j
    using disk_dinode_iupdate[OF f(1) it _ wf, of j] that
    by (simp add: s' the_dinode_def disk_dinode_def)
  show "disk_dinode s' (snd k) = i_dinode m" using dd[OF i] by simp
  have us: "used s' y = used s y" if "y < unat (sb_size s)" for y
    using used_iupdate[OF f(1) it, of y] that by (simp add: s')
  then show "free_blocks s' = free_blocks s" by (auto simp: free_blocks_def s')
  have own': "owned s' k = {}"
    unfolding s' using iupdate_file(2)[OF p(1) lrt it] p(3) own by (simp add: owned_def)
  have "view s' (fst k, b) = view s (fst k, b)" if "data_block s (unat b)" for b
    using view_iupdate_data[OF g it, of b] that f(2) by (simp add: s')
  moreover have "used s' (unat b)" if "data_block s (unat b)" "used s (unat b)" for b
    using us that by (simp add: data_block_def)
  moreover have "same_env s s'" using iupdate_fields(9)[of ?t k] by (simp add: s' same_env_def)
  moreover have "\<forall>k'. k' \<noteq> k \<longrightarrow> inodes s' k' = inodes s k'" by (simp add: s')
  ultimately show "file_frame k s s'" using dd own' by (auto simp: file_frame_def)
qed

lemma file_frame_trans:
  assumes a: "file_frame k s t" and b: "file_frame k t u" and own: "owned t k = {}" "owned u k = {}"
  shows "file_frame k s u"
proof -
  have env: "same_env s t" "same_env t u" using a b by (simp_all add: file_frame_def)
  have db: "data_block t = data_block s" using data_block_same_env[OF env(1)] .
  have io: "inum_ok t = inum_ok s" using env by (simp add: inum_ok_def same_env_def fun_eq_iff)
  have "same_env s u" using env by (simp add: same_env_def)
  then show ?thesis using a b own unfolding file_frame_def db io by auto
qed


lemma put_drop_inode [simp]: "put_inode k n (drop_inode k s) = put_inode k n s"
  by (simp add: put_inode_def drop_inode_def)

lemma drop_inode_derived [simp]:
  "view (drop_inode k s) = view s" "used (drop_inode k s) = used s" "fs_inv (drop_inode k s) = fs_inv s"
  "free_blocks (drop_inode k s) = free_blocks s" "data_block (drop_inode k s) = data_block s"
  "INODE_BLOCK (drop_inode k s) = INODE_BLOCK s" "room (drop_inode k s) = room s"
  "log_dev (drop_inode k s) = log_dev s"
proof -
  show "log_dev (drop_inode k s) = log_dev s" by (simp add: drop_inode_def)
qed (metis put_drop_inode view_put_inode put_inode_derived put_inode_derived2 put_inode_inv)+

lemma file_drop_other:
  assumes "k' \<noteq> k"
  shows "file_ok k' (drop_inode k s) = file_ok k' s" "fcontent (drop_inode k s) k' = fcontent s k'"
proof -
  have td: "the_dinode (drop_inode k s) k' = the_dinode s k'" "inodes (drop_inode k s) k' = inodes s k'"
    using assms by (simp_all add: drop_inode_def the_dinode_def)
  have sl: "slots (drop_inode k s) k' = slots s k'" by (simp add: fun_eq_iff slots_def Let_def td)
  show "file_ok k' (drop_inode k s) = file_ok k' s" by (simp add: file_ok_def sl td)
  show "fcontent (drop_inode k s) k' = fcontent s k'" by (simp add: fun_eq_iff fcontent_def Let_def sl)
qed

lemma file_put_other:
  assumes "k' \<noteq> k"
  shows "file_ok k' (put_inode k n s) = file_ok k' s" "fcontent (put_inode k n s) k' = fcontent s k'"
    "owned (put_inode k n s) k' = owned s k'"
proof -
  have td: "the_dinode (put_inode k n s) k' = the_dinode s k'" "inodes (put_inode k n s) k' = inodes s k'"
    using assms by (simp_all add: the_dinode_def)
  have sl: "slots (put_inode k n s) k' = slots s k'" by (simp add: fun_eq_iff slots_def Let_def td)
  show "file_ok k' (put_inode k n s) = file_ok k' s" unfolding file_ok_def sl td by simp
  show "fcontent (put_inode k n s) k' = fcontent s k'" by (simp add: fun_eq_iff fcontent_def Let_def sl)
  show "owned (put_inode k n s) k' = owned s k'" by (simp add: owned_def sl)
qed

text \<open>The steps of the deletion branch of \<open>inode_put\<close>.\<close>

lemma inode_put_delete:
  assumes ok: "file_ok k s" and i: "inum_ok s (snd k)" and r: "bm_room s 2" and o: "one_bitmap s"
    and n: "inodes s k = Some n" "i_ref n = 1" "i_valid n" "\<not> i_locked n" "di_nlink (i_dinode n) = 0"
  shows "\<exists>u. inode_put k s = Inr ((), drop_inode k u) \<and> file_frame k s u \<and> fs_inv u \<and>
    free_blocks u = free_blocks s \<union> unat ` owned s k \<and> di_type (disk_dinode u (snd k)) = 0"
proof -
  let ?s1 = "put_inode k (n\<lparr>i_locked := True\<rparr>) s"
  let ?s2 = "iupdate k (trunc_state k ?s1)"
  have a1: "di_addrs (i_dinode (n\<lparr>i_locked := True\<rparr>)) = di_addrs (the_dinode s k)"
    using n by (simp add: the_dinode_def)
  note p1 = file_ok_put_inode[OF ok a1]
  have i1: "inum_ok ?s1 (snd k)" and r1: "bm_room ?s1 (Suc 1)" and o1: "one_bitmap ?s1"
    using i r o by (simp_all add: bm_room_def one_bitmap_def numeral_2_eq_2)
  note run = INode_trunc_run[OF p1(1) i1 r1 o1] and ef = INode_trunc_effect[OF p1(1) i1 r1 o1 refl]
  note ts = trunc_state_spec[OF p1(1) r1 o1 refl]
  note f2 = file_ok_basic[OF run(2)]
  obtain n2 where n2: "inodes ?s2 k = Some n2" using f2(3) by blast
  have n2f: "i_locked n2" "i_ref n2 = 1"
    using n2 n(2) by (auto simp: trunc_state_def set_size_def the_dinode_def)
  have room_t: "room (trunc_state k ?s1) 2"
    using ts(2) by (auto simp: bm_room_def numeral_2_eq_2 intro: room_le)
  have lr2: "log_room ?s2"
  proof -
    have g: "log_geom (trunc_state k ?s1)" using fs_inv_geom(1)[OF file_ok_basic(1)[OF ts(1)]] .
    have "room ?s2 1" unfolding iupdate_def using room_logd[of "trunc_state k ?s1" 1] room_t g
      by (simp add: numeral_2_eq_2)
    then show ?thesis using room_log_room[of ?s2 0] fs_inv_geom(1)[OF f2(1)] by simp
  qed
  have i2: "inum_ok ?s2 (snd k)" using i1 ts(3) by (simp add: same_env_def inum_ok_def)
  let ?m = "n2\<lparr>i_dinode := (i_dinode n2)\<lparr>di_type := FT_Invalid\<rparr>\<rparr>"
  have m: "di_addrs (i_dinode ?m) = di_addrs (the_dinode ?s2 k)" using n2 by (simp add: the_dinode_def)
  define u where "u = iupdate k (put_inode k ?m ?s2)"
  note un = iupdate_put_inode_frame[OF run(2) lr2 i2 ef(3) m u_def]
  have up: "INode_update k (put_inode k ?m ?s2) = Inr ((), u)"
    unfolding u_def using file_ok_basic[OF file_ok_put_inode(1)[OF run(2) m]] lr2 i2
    by (intro INode_update_run) auto
  have iu: "inodes u k = Some ?m" by (simp add: u_def)
  have lk: "inode_mutex_lock k s = Inr ((), ?s1)"
    using n by (simp add: inode_mutex_lock_def bnd_def set_inode_def)
  have "inode_put k s = Inr ((), drop_inode k u)"
    using n lk run(1) n2 n2f up iu
    by (simp add: inode_put_def inode_mutex_unlock_def bnd_def Let_def set_inode_def drop_inode_def put_inode_def)
  moreover have own_u: "owned u k = {}"
  proof -
    have "slots u k = slots ?s2 k" unfolding u_def
      using iupdate_file(2)[OF file_ok_put_inode(1)[OF run(2) m]] file_ok_put_inode(2)[OF run(2) m] lr2 i2
      by simp
    then show ?thesis using ef(3) by (simp add: owned_def)
  qed
  have "file_frame k s u"
    using file_frame_trans[OF file_frame_put_inode[OF ef(1) p1(3)] un(2) ef(3) own_u] .
  ultimately show ?thesis using un ef(2) p1(3) by (intro exI[of _ u]) simp
qed


section \<open>Properties\<close>

definition free_inums :: "'a log_state_scheme \<Rightarrow> nat set" where
  "free_inums s = {x. 1 \<le> x \<and> x < unat (sb_ninodes s) \<and> di_type (disk_dinode s (of_nat x)) = 0}"

lemma find_free_inum:
  "find (\<lambda>y. di_type (disk_dinode s (of_nat y)) = 0) [1..<unat (sb_ninodes s)] =
     (if free_inums s = {} then None else Some (Min (free_inums s)))"
proof -
  let ?P = "\<lambda>y. di_type (disk_dinode s (of_nat y)) = 0"
  have fin: "finite (free_inums s)" by (simp add: free_inums_def)
  show ?thesis
  proof (cases "find ?P [1..<unat (sb_ninodes s)]")
    case None
    then show ?thesis by (auto simp: find_None_iff free_inums_def)
  next
    case (Some x)
    then obtain i where i: "i < unat (sb_ninodes s) - 1" "x = 1 + i" "?P x" "\<forall>j < i. \<not> ?P (1 + j)"
      by (auto simp: find_Some_iff)
    then have "x \<in> free_inums s" by (auto simp: free_inums_def)
    moreover have "x \<le> y" if "y \<in> free_inums s" for y
    proof (rule ccontr)
      assume "\<not> x \<le> y"
      then have "y - 1 < i" "1 + (y - 1) = y" using that i by (auto simp: free_inums_def)
      then show False using that i(4) by (metis (mono_tags, lifting) free_inums_def mem_Collect_eq)
    qed
    ultimately have "Min (free_inums s) = x" using fin by (intro Min_eqI) auto
    with Some \<open>x \<in> free_inums s\<close> show ?thesis by auto
  qed
qed

lemma inode_alloc_run:
  assumes i: "fs_inv s" and r: "room s 1"
  shows "inode_alloc (log_dev s) type s = (if free_inums s = {} then Inr (None, s)
      else bnd (inode_get (log_dev s) (of_nat (Min (free_inums s)))) (\<lambda>ip. ret (Some ip))
        (ialloc_result (of_nat (Min (free_inums s))) type s))"
proof -
  have lr: "log_room s" using room_log_room[of s 0] r fs_inv_geom(1)[OF i] by simp
  show ?thesis using inode_alloc_loop_run[OF i lr refl, of type 1] find_free_inum[of s] by (simp add: inode_alloc_def)
qed

text \<open>
  C10: \<open>inode_alloc\<close> takes the lowest free inode number above 0, writes an inode of the given type
  with no links, no blocks and size 0 for it, takes a reference to it and leaves every other inode
  on disk and all blocks as they are. Without a free inode it returns the null pointer and changes
  nothing.
\<close>

theorem inode_alloc_spec:
  assumes i: "fs_inv s" and r: "room s 1"
  shows "if free_inums s = {} then inode_alloc (log_dev s) type s = Inr (None, s)
    else \<exists>x s'. inode_alloc (log_dev s) type s = Inr (Some (log_dev s, of_nat x), s') \<and>
      x \<in> free_inums s \<and> (\<forall>y \<in> free_inums s. x \<le> y) \<and> fs_inv s' \<and> free_blocks s' = free_blocks s \<and>
      disk_dinode s' (of_nat x) = zero_dinode\<lparr>di_type := type\<rparr> \<and>
      (\<forall>j. inum_ok s j \<and> unat j \<noteq> x \<longrightarrow> disk_dinode s' j = disk_dinode s j) \<and>
      inodes s' (log_dev s, of_nat x) = Some (case inodes s (log_dev s, of_nat x) of
        None \<Rightarrow> new_inode | Some n \<Rightarrow> n\<lparr>i_ref := i_ref n + 1\<rparr>)"
proof -
  have lr: "log_room s" using room_log_room[of s 0] r fs_inv_geom(1)[OF i] by simp
  note run = inode_alloc_run[OF i r, of type]
  show ?thesis
  proof (cases "free_inums s = {}")
    case False
    define x where "x = Min (free_inums s)"
    have fin: "finite (free_inums s)" by (simp add: free_inums_def)
    have x: "x \<in> free_inums s" "\<forall>y \<in> free_inums s. x \<le> y" using Min_in[OF fin False] Min_le[OF fin] by (simp_all add: x_def)
    then have io: "inum_ok s (of_nat x)" "unat (of_nat x :: u32) = x"
      using inum_ok_of_nat[of x s] by (simp_all add: free_inums_def)
    let ?s1 = "ialloc_result (of_nat x) type s"
    let ?n = "case inodes s (log_dev s, of_nat x) of None \<Rightarrow> new_inode | Some n \<Rightarrow> n\<lparr>i_ref := i_ref n + 1\<rparr>"
    let ?s' = "put_inode (log_dev s, of_nat x) ?n ?s1"
    have il: "inodes ?s1 = inodes s" by (simp add: ialloc_result_def)
    have "inode_alloc (log_dev s) type s = Inr (Some (log_dev s, of_nat x), ?s')"
      using run False by (simp add: x_def[symmetric] inode_get_run bnd_def il)
    moreover have "fs_inv ?s'" using fs_inv_ialloc[OF i lr io(1)] by simp
    moreover have dd: "disk_dinode ?s' j = disk_dinode ?s1 j" for j by (simp add: disk_dinode_def)
    have "used ?s1 y = used s y" if "y < unat (sb_size s)" for y
      unfolding ialloc_result_def using INODE_BLOCK_not_bitmap[of s "of_nat x" y] i io that
      by (intro used_logd_other) (simp add: fs_inv_def)
    then have "free_blocks ?s' = free_blocks s" by (auto simp: free_blocks_def ialloc_result_def)
    moreover have "disk_dinode ?s' (of_nat x) = zero_dinode\<lparr>di_type := type\<rparr>"
      using disk_dinode_ialloc[OF i io(1) io(1), of type] by (simp add: dd)
    moreover have "disk_dinode ?s' j = disk_dinode s j" if "inum_ok s j" "unat j \<noteq> x" for j
      using disk_dinode_ialloc[OF i io(1) that(1), of type] that(2) io(2) unfolding dd by auto
    ultimately show ?thesis using False x
      by simp (intro exI[of _ x] exI[of _ ?s'] conjI, simp_all)
  qed (simp add: run)
qed

theorem inode_alloc_spec_witness:
  "fs_inv demo_file \<and> room demo_file 1 \<and> (if free_inums demo_file = {} then inode_alloc 1 T_DIR demo_file = Inr (None, demo_file)
    else \<exists>x s'. inode_alloc 1 T_DIR demo_file = Inr (Some (1, of_nat x), s') \<and> x \<in> free_inums demo_file)"
  using inode_alloc_spec[of demo_file T_DIR] by (auto split: if_splits)

text \<open>
  C11: dropping the last reference to an unlinked inode deletes the file: its blocks and indirect
  block are free again, its inode on disk is marked free, it leaves the table of in-memory inodes,
  and the other files and inodes are as before.
\<close>

theorem inode_put_last:
  assumes ok: "file_ok k s" and i: "inum_ok s (snd k)" and r: "room s 3" and o: "one_bitmap s"
    and n: "inodes s k = Some n" "i_ref n = 1" "i_valid n" "\<not> i_locked n" "di_nlink (i_dinode n) = 0"
  shows "\<exists>s'. inode_put k s = Inr ((), s') \<and> inodes s' k = None \<and> fs_inv s' \<and>
    di_type (disk_dinode s' (snd k)) = 0 \<and> free_blocks s' = free_blocks s \<union> unat ` owned s k \<and>
    (\<forall>j. inum_ok s j \<and> j \<noteq> snd k \<longrightarrow> disk_dinode s' j = disk_dinode s j) \<and>
    (\<forall>k'. k' \<noteq> k \<and> file_ok k' s \<and> owned s k \<inter> owned s k' = {} \<longrightarrow>
      file_ok k' s' \<and> fcontent s' k' = fcontent s k')"
proof -
  have "bm_room s 2" using r by (simp add: bm_room_def numeral_3_eq_3 numeral_2_eq_2)
  from inode_put_delete[OF ok i this o n] obtain u where u:
    "inode_put k s = Inr ((), drop_inode k u)" "file_frame k s u" "fs_inv u"
    "free_blocks u = free_blocks s \<union> unat ` owned s k" "di_type (disk_dinode u (snd k)) = 0" by blast
  have dd: "disk_dinode (drop_inode k u) = disk_dinode u" by (simp add: disk_dinode_def fun_eq_iff)
  have "inodes (drop_inode k u) k = None" by (simp add: drop_inode_def)
  moreover have "file_ok k' (drop_inode k u) \<and> fcontent (drop_inode k u) k' = fcontent s k'"
    if "k' \<noteq> k" "file_ok k' s" "owned s k \<inter> owned s k' = {}" for k'
    using file_frame_other[OF u(2,3) ok that(2,1,3)] file_drop_other[OF that(1), where s = u] by simp
  moreover have "disk_dinode u j = disk_dinode s j" if "inum_ok s j" "j \<noteq> snd k" for j
    using u(2) that by (simp add: file_frame_def)
  ultimately show ?thesis using u dd by (intro exI[of _ "drop_inode k u"]) simp
qed

definition unlinked_inode :: INode where
  "unlinked_inode = demo_inode\<lparr>i_locked := False, i_dinode := (i_dinode demo_inode)\<lparr>di_nlink := 0\<rparr>\<rparr>"

definition demo_unlinked :: inode_cache where
  "demo_unlinked = put_inode (1, 1) unlinked_inode demo_file"

lemma demo_unlinked_facts [simp]:
  "file_ok (1, 1) demo_unlinked" "inum_ok demo_unlinked 1" "room demo_unlinked 3" "one_bitmap demo_unlinked"
  unfolding demo_unlinked_def
  by (rule file_ok_put_inode(1)) (simp_all add: the_dinode_def one_bitmap_def unlinked_inode_def)

lemma unlinked_inode_facts [simp]:
  "inodes demo_unlinked (1, 1) = Some unlinked_inode" "i_ref unlinked_inode = 1" "i_valid unlinked_inode"
  "\<not> i_locked unlinked_inode" "di_nlink (i_dinode unlinked_inode) = 0"
  by (simp_all add: demo_unlinked_def unlinked_inode_def demo_inode_def)

theorem inode_put_last_witness:
  "file_ok (1, 1) demo_unlinked \<and> room demo_unlinked 3 \<and>
   (\<exists>s'. inode_put (1, 1) demo_unlinked = Inr ((), s') \<and> inodes s' (1, 1) = None \<and>
      di_type (disk_dinode s' 1) = 0)"
  using inode_put_last[of "(1, 1)" demo_unlinked unlinked_inode] by auto

lemma get_put_identity:
  assumes "\<And>n. inodes s (dev, i) = Some n \<Longrightarrow> i_ref n \<noteq> 0 \<and> i_ref n \<noteq> -1"
  shows "bnd (inode_get dev i) inode_put s = Inr ((), s)"
proof (cases "inodes s (dev, i)")
  case None
  let ?t = "put_inode (dev, i) new_inode s"
  have "inode_put (dev, i) ?t = Inr ((), drop_inode (dev, i) ?t)"
    using inode_put_keep[of ?t "(dev, i)" new_inode] by (simp add: new_inode_def)
  with None show ?thesis by (simp add: inode_get_run bnd_def drop_put_inode)
next
  case (Some n)
  let ?n = "n\<lparr>i_ref := i_ref n + 1\<rparr>"
  have ne: "i_ref n + 1 \<noteq> 1" using assms[OF Some] by simp
  have "inode_put (dev, i) (put_inode (dev, i) ?n s) = Inr ((), put_inode (dev, i) n (put_inode (dev, i) ?n s))"
    using inode_put_keep[of "put_inode (dev, i) ?n s" "(dev, i)" ?n] ne by simp
  then show ?thesis using Some by (simp add: inode_get_run bnd_def put_inode_same)
qed

text \<open>
  \<open>inode_get\<close> followed by \<open>inode_put\<close> of the same inode is the identity on the whole state, as
  long as the reference count of an inode in the table is neither 0 nor the largest number.
\<close>

theorem inode_get_put:
  assumes "\<And>n. inodes s (dev, i) = Some n \<Longrightarrow> i_ref n \<noteq> 0 \<and> i_ref n \<noteq> -1"
  shows "bnd (inode_get dev i) inode_put s = Inr ((), s)"
  by (rule get_put_identity[OF assms])

theorem inode_get_put_witness:
  "inodes demo_file (1, 1) = Some demo_inode \<and> bnd (inode_get 1 1) inode_put demo_file = Inr ((), demo_file)"
  using inode_get_put[of demo_file 1 1] by (simp add: demo_inode_def)

end
