(* ===== verification/Directory.thy ===== *)
theory Directory
  imports Inode_Cache
begin

text \<open>
  The directory part of \<open>src/fs.cxx\<close>: a directory is a file of 16-byte entries. A name is a C string
  in some buffer: the list of the bytes from the pointer to the end of the buffer. Comparing runs
  off a buffer that has no terminator; the model stops with \<open>Out_of_bounds\<close> there.

  The size of the directory is read once: nothing in the loops changes it.
\<close>

section \<open>Operations\<close>

definition dirent_of :: "byte list \<Rightarrow> DirEntry" where
  "dirent_of bs = get_dirent (\<lambda>i. bs ! i) 0"

definition dirent_bytes :: "DirEntry \<Rightarrow> byte list" where
  "dirent_bytes de = get_bytes sizeof_DirEntry (put_dirent (\<lambda>_. 0) 0 de) 0"

function dirlookup_loop :: "INodeKey \<Rightarrow> byte list \<Rightarrow> nat \<Rightarrow> nat \<Rightarrow> ((INodeKey \<times> nat) option, 'a inode_cache_scheme) m" where
  "dirlookup_loop dp name sz off =
     (if off < sz then
        bnd (INode_read dp off sizeof_DirEntry) (\<lambda>bs.
        bnd (assert_that ''dirlockup read'' (length bs = sizeof_DirEntry)) (\<lambda>_.
        let de = dirent_of bs in
        if de_inum de = 0 then dirlookup_loop dp name sz (off + sizeof_DirEntry)
        else
          case strcmp_eq name (de_name de) of
            None \<Rightarrow> fail Out_of_bounds
          | Some True \<Rightarrow>
              bnd (inode_get (fst dp) (ucast (de_inum de))) (\<lambda>ip.
              ret (Some (ip, off)))
          | Some False \<Rightarrow> dirlookup_loop dp name sz (off + sizeof_DirEntry)))
      else ret None)"
  by pat_completeness auto
termination
  by (relation "measure (\<lambda>(dp, name, sz, off). sz - off)") auto

definition dirlookup :: "INodeKey \<Rightarrow> byte list \<Rightarrow> ((INodeKey \<times> nat) option, 'a inode_cache_scheme) m" where
  "dirlookup dp name =
     bnd (dinode dp) (\<lambda>di.
     bnd (assert_that ''dirlookup not DIR'' (di_type di = T_DIR)) (\<lambda>_.
     dirlookup_loop dp name (unat (di_size di)) 0))"

text \<open>The search for an empty entry: its offset, or the end of the directory.\<close>

function dirlink_loop :: "INodeKey \<Rightarrow> nat \<Rightarrow> nat \<Rightarrow> (nat, 'a inode_cache_scheme) m" where
  "dirlink_loop dp sz off =
     (if off < sz then
        bnd (INode_read dp off sizeof_DirEntry) (\<lambda>bs.
        bnd (assert_that ''dirlink read'' (length bs = sizeof_DirEntry)) (\<lambda>_.
        if de_inum (dirent_of bs) = 0 then ret off
        else dirlink_loop dp sz (off + sizeof_DirEntry)))
      else ret off)"
  by pat_completeness auto
termination
  by (relation "measure (\<lambda>(dp, sz, off). sz - off)") auto

declare dirlookup_loop.simps [simp del] dirlink_loop.simps [simp del]

definition dirlink :: "INodeKey \<Rightarrow> byte list \<Rightarrow> u32 \<Rightarrow> (int, 'a inode_cache_scheme) m" where
  "dirlink dp name inum =
     bnd (dirlookup dp name) (\<lambda>found. case found of
       Some (ip, _) \<Rightarrow> bnd (inode_put ip) (\<lambda>_. ret (-1))
     | None \<Rightarrow>
         bnd (dinode dp) (\<lambda>di.
         bnd (dirlink_loop dp (unat (di_size di)) 0) (\<lambda>off.
         case strncpy name DIRSIZ of
           None \<Rightarrow> fail Out_of_bounds
         | Some nm \<Rightarrow>
             bnd (INode_write dp (dirent_bytes \<lparr>de_inum = ucast inum, de_name = nm\<rparr>) off) (\<lambda>r.
             ret (if r \<noteq> of_nat sizeof_DirEntry then -1 else 0)))))"

section \<open>The entries of a directory\<close>

definition dir_entry :: "'a inode_cache_scheme \<Rightarrow> INodeKey \<Rightarrow> nat \<Rightarrow> DirEntry" where
  "dir_entry s k j = get_dirent (fcontent s k) (sizeof_DirEntry * j)"

definition dir_ok :: "INodeKey \<Rightarrow> 'a inode_cache_scheme \<Rightarrow> bool" where
  "dir_ok k s \<longleftrightarrow> file_ok k s \<and> dense k s \<and> di_type (the_dinode s k) = T_DIR \<and>
     16 dvd fsize s k"

definition dir_len :: "'a inode_cache_scheme \<Rightarrow> INodeKey \<Rightarrow> nat" where
  "dir_len s k = fsize s k div sizeof_DirEntry"

lemma get_dirent_shift: "get_dirent (\<lambda>i. f (off + i)) 0 = get_dirent f off"
  by (simp add: get_dirent_def get_u16_def get_bytes_def algebra_simps)

lemma dirent_of_window:
  "dirent_of (map f [off..<off + 16]) = get_dirent f off"
proof -
  have "get_dirent (\<lambda>i. map f [off..<off + 16] ! i) 0 = get_dirent (\<lambda>i. f (off + i)) 0"
    by (rule direntc.get_frame) simp
  then show ?thesis by (simp only: dirent_of_def get_dirent_shift)
qed

lemma dir_entry_read:
  assumes ok: "dir_ok k s" and j: "j < dir_len s k"
  obtains bs where "INode_read k (16 * j) 16 s = Inr (bs, s)" "length bs = 16" "dirent_of bs = dir_entry s k j"
proof -
  obtain q where q: "fsize s k = 16 * q" using ok by (auto simp: dir_ok_def)
  then have "min (16 * j + 16) (fsize s k) = 16 * j + 16" using j by (simp add: dir_len_def)
  then have "INode_read k (16 * j) 16 s = Inr (map (fcontent s k) [16 * j..<16 * j + 16], s)"
    using INode_read_run[of k s "16 * j" 16] ok by (simp add: dir_ok_def)
  moreover have "dirent_of (map (fcontent s k) [16 * j..<16 * j + 16]) = dir_entry s k j"
    by (simp only: dirent_of_window dir_entry_def)
  ultimately show thesis by (intro that) simp_all
qed

text \<open>What the lookup loop computes, over the entries.\<close>

definition matches :: "byte list \<Rightarrow> DirEntry \<Rightarrow> bool option" where
  "matches name de = (if de_inum de = 0 then Some False else strcmp_eq name (de_name de))"

fun scan :: "byte list \<Rightarrow> (nat \<Rightarrow> DirEntry) \<Rightarrow> nat list \<Rightarrow> nat option option" where
  "scan name e [] = Some None"
| "scan name e (j # js) = (case matches name (e j) of
     None \<Rightarrow> None | Some True \<Rightarrow> Some (Some j) | Some False \<Rightarrow> scan name e js)"

lemma dirlookup_loop_run:
  assumes ok: "dir_ok k s"
  shows "j \<le> dir_len s k \<Longrightarrow> dirlookup_loop k name (fsize s k) (16 * j) s =
    (case scan name (dir_entry s k) [j..<dir_len s k] of
       None \<Rightarrow> Inl Out_of_bounds
     | Some None \<Rightarrow> Inr (None, s)
     | Some (Some i) \<Rightarrow> bnd (inode_get (fst k) (ucast (de_inum (dir_entry s k i))))
         (\<lambda>ip. ret (Some (ip, 16 * i))) s)"
proof (induction "dir_len s k - j" arbitrary: j rule: less_induct)
  case less
  obtain q where q: "fsize s k = 16 * q" using ok by (auto simp: dir_ok_def)
  then have dl: "dir_len s k = q" by (simp add: dir_len_def)
  show ?case
  proof (cases "j < dir_len s k")
    case False
    then have "j = q" using less.prems dl by simp
    then show ?thesis using q dl by (subst dirlookup_loop.simps) simp
  next
    case True
    have up: "[j..<dir_len s k] = j # [Suc j..<dir_len s k]" using True by (simp add: upt_conv_Cons)
    obtain bs where bs: "INode_read k (16 * j) 16 s = Inr (bs, s)" "length bs = 16"
      "dirent_of bs = dir_entry s k j" by (rule dir_entry_read[OF ok True])
    have lt: "16 * j < fsize s k" using True q dl by simp
    have "dirlookup_loop k name (fsize s k) (16 * j) s = (case matches name (dir_entry s k j) of
        None \<Rightarrow> Inl Out_of_bounds
      | Some True \<Rightarrow> bnd (inode_get (fst k) (ucast (de_inum (dir_entry s k j)))) (\<lambda>ip. ret (Some (ip, 16 * j))) s
      | Some False \<Rightarrow> dirlookup_loop k name (fsize s k) (16 * Suc j) s)"
      using lt bs
      by (simp add: dirlookup_loop.simps[of k name _ "16 * j"] bnd_run matches_def Let_def add.commute
          split: option.split bool.split)
    also have "\<dots> = (case scan name (dir_entry s k) [j..<dir_len s k] of
       None \<Rightarrow> Inl Out_of_bounds
     | Some None \<Rightarrow> Inr (None, s)
     | Some (Some i) \<Rightarrow> bnd (inode_get (fst k) (ucast (de_inum (dir_entry s k i))))
         (\<lambda>ip. ret (Some (ip, 16 * i))) s)"
      using less.hyps[of "Suc j"] True by (simp add: up split: option.split bool.split)
    finally show ?thesis .
  qed
qed


definition free_slot :: "'a inode_cache_scheme \<Rightarrow> INodeKey \<Rightarrow> nat" where
  "free_slot s k = (case find (\<lambda>j. de_inum (dir_entry s k j) = 0) [0..<dir_len s k] of
     None \<Rightarrow> dir_len s k | Some j \<Rightarrow> j)"

lemma dirlink_loop_run:
  assumes ok: "dir_ok k s"
  shows "j \<le> dir_len s k \<Longrightarrow> dirlink_loop k (fsize s k) (16 * j) s =
    Inr (16 * (case find (\<lambda>j. de_inum (dir_entry s k j) = 0) [j..<dir_len s k] of
      None \<Rightarrow> dir_len s k | Some j \<Rightarrow> j), s)"
proof (induction "dir_len s k - j" arbitrary: j rule: less_induct)
  case less
  obtain q where q: "fsize s k = 16 * q" using ok by (auto simp: dir_ok_def)
  then have dl: "dir_len s k = q" by (simp add: dir_len_def)
  show ?case
  proof (cases "j < dir_len s k")
    case False
    then have "j = q" using less.prems dl by simp
    then show ?thesis using q dl by (subst dirlink_loop.simps) simp
  next
    case True
    have up: "[j..<dir_len s k] = j # [Suc j..<dir_len s k]" using True by (simp add: upt_conv_Cons)
    obtain bs where bs: "INode_read k (16 * j) 16 s = Inr (bs, s)" "length bs = 16"
      "dirent_of bs = dir_entry s k j" by (rule dir_entry_read[OF ok True])
    have lt: "16 * j < fsize s k" using True q dl by simp
    have "dirlink_loop k (fsize s k) (16 * j) s = (if de_inum (dir_entry s k j) = 0 then Inr (16 * j, s)
        else dirlink_loop k (fsize s k) (16 * Suc j) s)"
      using lt bs by (simp add: dirlink_loop.simps[of k _ "16 * j"] bnd_run add.commute)
    with less.hyps[of "Suc j"] True show ?thesis by (simp add: up)
  qed
qed

lemma find_Some_in: "find P xs = Some x \<Longrightarrow> x \<in> set xs \<and> P x"
  by (auto simp: find_Some_iff)

lemma free_slot_cases:
  "free_slot s k \<le> dir_len s k"
  "free_slot s k < dir_len s k \<Longrightarrow> de_inum (dir_entry s k (free_slot s k)) = 0"
  using find_Some_in[of "\<lambda>j. de_inum (dir_entry s k j) = 0" "[0..<dir_len s k]"]
  by (auto simp: free_slot_def split: option.splits)

section \<open>A directory as a map from names\<close>

text \<open>Names that fit into an entry with their terminator.\<close>

definition legal_name :: "byte list \<Rightarrow> bool" where
  "legal_name nm \<longleftrightarrow> 0 \<notin> set nm \<and> length nm < DIRSIZ"

definition entry_is :: "byte list \<Rightarrow> DirEntry \<Rightarrow> bool" where
  "entry_is nm de \<longleftrightarrow> de_inum de \<noteq> 0 \<and> take (Suc (length nm)) (de_name de) = nm @ [0]"

definition dir_lookup :: "'a inode_cache_scheme \<Rightarrow> INodeKey \<Rightarrow> byte list \<Rightarrow> (u16 \<times> nat) option" where
  "dir_lookup s k nm = map_option (\<lambda>j. (de_inum (dir_entry s k j), j))
     (find (\<lambda>j. entry_is nm (dir_entry s k j)) [0..<dir_len s k])"

lemma strcmp_eq_short:
  "0 \<notin> set nm \<Longrightarrow> length nm < length d \<Longrightarrow>
     strcmp_eq (nm @ 0 # r) d = Some (take (Suc (length nm)) d = nm @ [0])"
proof (induction nm arbitrary: d)
  case Nil
  then show ?case by (cases d) auto
next
  case (Cons c nm)
  then show ?case by (cases d) auto
qed

lemma matches_legal:
  assumes "legal_name nm" "dirent_wf de"
  shows "matches (nm @ 0 # r) de = Some (entry_is nm de)"
  using strcmp_eq_short[of nm "de_name de" r] assms
  by (auto simp: matches_def entry_is_def legal_name_def dirent_wf_def)

lemma dir_entry_wf [simp]: "dirent_wf (dir_entry s k j)"
  unfolding dir_entry_def by (rule direntc.wf_get)

lemma scan_legal:
  "legal_name nm \<Longrightarrow> scan (nm @ 0 # r) (dir_entry s k) js = Some (find (\<lambda>j. entry_is nm (dir_entry s k j)) js)"
  by (induction js) (auto simp: matches_legal split: bool.split)

lemma dirlookup_run:
  assumes ok: "dir_ok k s" and nm: "legal_name nm"
  shows "dirlookup k (nm @ 0 # r) s = (case dir_lookup s k nm of
      None \<Rightarrow> Inr (None, s)
    | Some (i, j) \<Rightarrow> bnd (inode_get (fst k) (ucast i)) (\<lambda>ip. ret (Some (ip, 16 * j))) s)"
proof -
  note f = file_ok_basic[of k s]
  have fk: "file_ok k s" using ok by (simp add: dir_ok_def)
  have ty: "di_type (i_dinode (the (inodes s k))) = T_DIR" "unat (di_size (i_dinode (the (inodes s k)))) = fsize s k"
    using ok by (simp_all add: dir_ok_def the_dinode_def fsize_def)
  show ?thesis
    using dirlookup_loop_run[OF ok, of 0 "nm @ 0 # r"] f(3)[OF fk] ty
    by (simp add: dirlookup_def bnd_def dinode_run[OF f(3)[OF fk]] scan_legal[OF nm] dir_lookup_def
        split: option.split)
qed

section \<open>Adding an entry\<close>

lemma dirent_of_bytes: "dirent_wf de \<Longrightarrow> dirent_of (dirent_bytes de) = de"
proof -
  assume wf: "dirent_wf de"
  have "get_dirent (\<lambda>i. dirent_bytes de ! i) 0 = get_dirent (put_dirent (\<lambda>_. 0) 0 de) 0"
    by (rule direntc.get_frame) (simp add: dirent_bytes_def)
  with wf show ?thesis by (simp add: dirent_of_def direntc.get_put)
qed

lemma dir_entry_write:
  assumes w: "\<forall>p. fcontent s' k p = (if 16 * j \<le> p \<and> p < 16 * j + 16 then dirent_bytes de ! (p - 16 * j)
      else fcontent s k p)" and wf: "dirent_wf de"
  shows "dir_entry s' k i = (if i = j then de else dir_entry s k i)"
proof (cases "i = j")
  case True
  have "get_dirent (fcontent s' k) (16 * j) = get_dirent (\<lambda>i. fcontent s' k (16 * j + i)) 0"
    by (rule get_dirent_shift[symmetric])
  also have "\<dots> = get_dirent (\<lambda>i. dirent_bytes de ! i) 0"
    by (rule direntc.get_frame) (simp add: w)
  also have "\<dots> = de" using dirent_of_bytes[OF wf] by (simp add: dirent_of_def)
  finally show ?thesis using True by (simp add: dir_entry_def)
next
  case False
  then consider "Suc i \<le> j" | "Suc j \<le> i" by linarith
  then have "16 * i + 16 \<le> 16 * j \<or> 16 * j + 16 \<le> 16 * i" by cases auto
  then have "get_dirent (fcontent s' k) (16 * i) = get_dirent (fcontent s k) (16 * i)"
    by (intro direntc.get_frame) (use w in auto)
  with False show ?thesis by (simp add: dir_entry_def)
qed

lemma find_upt_extend:
  assumes "\<And>i. i < n \<Longrightarrow> P' i = P i" "n \<le> n'" "\<And>i. n \<le> i \<Longrightarrow> i < n' \<Longrightarrow> \<not> P' i"
  shows "find P' [0..<n'] = find P [0..<n]"
proof -
  have "[0..<n'] = [0..<n] @ [n..<n']" using assms(2) upt_add_eq_append[of 0 n "n' - n"] by simp
  moreover have "find P' [n..<n'] = None" using assms(3) by (auto simp: find_None_iff)
  moreover have "find P' [0..<n] = find P [0..<n]" using assms(1) by (intro find_cong) auto
  moreover have "find Q (xs @ ys) = (case find Q xs of None \<Rightarrow> find Q ys | Some x \<Rightarrow> Some x)" for Q and xs ys :: "nat list"
    by (induction xs) auto
  ultimately show ?thesis by (simp split: option.split)
qed


definition name_field :: "byte list \<Rightarrow> byte list" where
  "name_field nm = nm @ replicate (DIRSIZ - length nm) 0"

lemma name_field_strncpy: "legal_name nm \<Longrightarrow> strncpy (nm @ 0 # r) DIRSIZ = Some (name_field nm)"
  by (simp add: strncpy_terminated legal_name_def name_field_def)

lemma takeWhile_before_zero: "0 \<notin> set nm \<Longrightarrow> takeWhile (\<lambda>c. c \<noteq> 0) (nm @ 0 # r) = nm"
  by (induction nm) auto

lemma entry_is_name_field:
  assumes "legal_name nm" "legal_name nm'" "i \<noteq> 0"
  shows "entry_is nm' \<lparr>de_inum = i, de_name = name_field nm\<rparr> \<longleftrightarrow> nm' = nm"
proof
  obtain m where m: "DIRSIZ - length nm = Suc m" using assms(1) by (cases "DIRSIZ - length nm") (auto simp: legal_name_def)
  {
    assume "entry_is nm' \<lparr>de_inum = i, de_name = name_field nm\<rparr>"
    then have "take (Suc (length nm')) (name_field nm) = nm' @ [0]" by (simp add: entry_is_def)
    then have "name_field nm = nm' @ 0 # drop (Suc (length nm')) (name_field nm)"
      by (metis append_Cons append_Nil append_assoc append_take_drop_id)
    then have "takeWhile (\<lambda>c. c \<noteq> 0) (name_field nm) = nm'"
      using assms(2) by (metis legal_name_def takeWhile_before_zero)
    moreover have "takeWhile (\<lambda>c. c \<noteq> 0) (name_field nm) = nm"
      using takeWhile_before_zero[of nm "replicate m 0"] assms(1) m by (simp add: name_field_def legal_name_def)
    ultimately show "nm' = nm" by simp
  }
  {
    assume "nm' = nm"
    then show "entry_is nm' \<lparr>de_inum = i, de_name = name_field nm\<rparr>"
      using assms m by (simp add: entry_is_def name_field_def)
  }
qed

text \<open>
  The directory after one entry was stored in a slot that was free or behind the end: the new name
  is bound, every other name is bound as before.
\<close>

lemma dir_lookup_store:
  assumes e: "\<And>i. dir_entry s' k i = (if i = j then \<lparr>de_inum = n, de_name = name_field nm\<rparr> else dir_entry s k i)"
    and len: "dir_len s' k = max (dir_len s k) (Suc j)" and j: "j \<le> dir_len s k"
    and free: "j < dir_len s k \<Longrightarrow> de_inum (dir_entry s k j) = 0"
    and nm: "legal_name nm" "legal_name nm'" "n \<noteq> 0" and new: "dir_lookup s k nm = None"
  shows "dir_lookup s' k nm' = (if nm' = nm then Some (n, j) else dir_lookup s k nm')"
proof (cases "nm' = nm")
  case False
  have "find (\<lambda>i. entry_is nm' (dir_entry s' k i)) [0..<dir_len s' k] =
      find (\<lambda>i. entry_is nm' (dir_entry s k i)) [0..<dir_len s k]"
  proof (rule find_upt_extend)
    show "entry_is nm' (dir_entry s' k i) = entry_is nm' (dir_entry s k i)" if "i < dir_len s k" for i
      using that e[of i] free entry_is_name_field[OF nm] False by (auto simp: entry_is_def)
    show "\<not> entry_is nm' (dir_entry s' k i)" if "dir_len s k \<le> i" "i < dir_len s' k" for i
      using that e[of i] len j entry_is_name_field[OF nm] False by auto
  qed (simp add: len)
  moreover have "i \<noteq> j" if "find (\<lambda>i. entry_is nm' (dir_entry s k i)) [0..<dir_len s k] = Some i" for i
    using find_Some_in[OF that] free by (auto simp: entry_is_def)
  ultimately show ?thesis using False e
    by (cases "find (\<lambda>i. entry_is nm' (dir_entry s k i)) [0..<dir_len s k]") (simp_all add: dir_lookup_def)
next
  case True
  have none: "\<not> entry_is nm (dir_entry s k i)" if "i < dir_len s k" for i
    using new that by (auto simp: dir_lookup_def find_None_iff)
  have "find (\<lambda>i. entry_is nm (dir_entry s' k i)) [0..<dir_len s' k] = Some j"
    unfolding find_Some_iff
  proof (intro exI[of _ j] conjI allI impI)
    show "j < length [0..<dir_len s' k]" using len by simp
    then show "j = [0..<dir_len s' k] ! j" by simp
    show "entry_is nm (dir_entry s' k ([0..<dir_len s' k] ! j))"
      using \<open>j < length [0..<dir_len s' k]\<close> e entry_is_name_field[OF nm(1,1,3)] by simp
    show "\<not> entry_is nm (dir_entry s' k ([0..<dir_len s' k] ! i))" if "i < j" for i
      using that j len e none[of i] by simp
  qed
  with True e show ?thesis by (simp add: dir_lookup_def)
qed

text \<open>
  Directories in which no name is in two entries: \<open>dirlink\<close> refuses a name that is there, and clearing an
  entry takes its name away.
\<close>

definition bound_once :: "'a inode_cache_scheme \<Rightarrow> INodeKey \<Rightarrow> byte list \<Rightarrow> bool" where
  "bound_once s k nm \<longleftrightarrow> (\<forall>i < dir_len s k. \<forall>j < dir_len s k.
     entry_is nm (dir_entry s k i) \<and> entry_is nm (dir_entry s k j) \<longrightarrow> i = j)"

definition unique_names :: "'a inode_cache_scheme \<Rightarrow> INodeKey \<Rightarrow> bool" where
  "unique_names s k \<longleftrightarrow> (\<forall>nm. legal_name nm \<longrightarrow> bound_once s k nm)"

lemma unique_names_cong:
  assumes "dir_entry s' k' = dir_entry s k" "dir_len s' k' = dir_len s k"
  shows "unique_names s' k' = unique_names s k"
  by (simp add: unique_names_def bound_once_def assms)

lemma unique_names_store:
  assumes e: "\<And>i. dir_entry s' k i = (if i = j then \<lparr>de_inum = n, de_name = name_field nm\<rparr> else dir_entry s k i)"
    and len: "dir_len s' k = max (dir_len s k) (Suc j)" and j: "j \<le> dir_len s k"
    and nm: "legal_name nm" "n \<noteq> 0" and new: "dir_lookup s k nm = None" and u: "unique_names s k"
  shows "unique_names s' k"
  unfolding unique_names_def bound_once_def
proof (intro allI impI)
  fix nm' i1 i2
  assume l: "legal_name nm'" "i1 < dir_len s' k" "i2 < dir_len s' k"
    and m: "entry_is nm' (dir_entry s' k i1) \<and> entry_is nm' (dir_entry s' k i2)"
  have lt: "i < dir_len s k" if "i < dir_len s' k" "i \<noteq> j" for i using that len j by auto
  have none: "\<not> entry_is nm (dir_entry s k i)" if "i < dir_len s k" for i
    using new that by (auto simp: dir_lookup_def find_None_iff)
  show "i1 = i2"
  proof (cases "nm' = nm")
    case True
    then show ?thesis using m e none lt l(2,3) by (metis (full_types))
  next
    case False
    then have ne: "i1 \<noteq> j" "i2 \<noteq> j" using m e entry_is_name_field[OF nm(1) l(1) nm(2)] by auto
    then show ?thesis using u l m e lt unfolding unique_names_def bound_once_def by metis
  qed
qed

text \<open>Storing an entry in a slot.\<close>

lemma dir_store_run:
  assumes ok: "dir_ok k s" and i: "inum_ok s (snd k)" and r: "room s 7" and fr: "2 \<le> card (free_blocks s)"
    and p: "p \<le> dir_len s k" and cap: "16 * p + 16 \<le> MAX_FILE * BSIZE" and wf: "dirent_wf de"
  shows "\<exists>s'. INode_write k (dirent_bytes de) (16 * p) s = Inr (16, s') \<and> dir_ok k s' \<and>
    file_frame k s s' \<and> (\<forall>i. dir_entry s' k i = (if i = p then de else dir_entry s k i)) \<and>
    dir_len s' k = max (dir_len s k) (Suc p) \<and> disk_dinode s' (snd k) = the_dinode s' k \<and>
    di_nlink (the_dinode s' k) = di_nlink (the_dinode s k) \<and> free_blocks s' \<subseteq> free_blocks s \<and>
    inodes s' k = Some ((the (inodes s k))\<lparr>i_dinode := the_dinode s' k\<rparr>) \<and> (\<forall>m. room s (7 + m) \<longrightarrow> room s' m)"
proof -
  let ?off = "16 * p"
  have fk: "file_ok k s" and dk: "dense k s" using ok by (simp_all add: dir_ok_def)
  obtain q where q: "fsize s k = 16 * q" using ok by (auto simp: dir_ok_def)
  have off: "?off \<le> fsize s k" using p q by (simp add: dir_len_def)
  have l: "length (dirent_bytes de) = 16" by (simp add: dirent_bytes_def)
  have "?off mod 1024 = 16 * (p mod 64)" by (simp add: mult_mod_right)
  moreover have "p mod 64 < 64" by simp
  ultimately have c: "length (dirent_bytes de) + ?off mod BSIZE \<le> 1 * BSIZE" using l by simp
  from INode_write_run[OF fk i off _ c] l cap r fr dk obtain s' where w:
    "INode_write k (dirent_bytes de) ?off s = Inr (16, s')" "file_ok k s'" "file_frame k s s'"
    "the_dinode s' k = (the_dinode s k)\<lparr>di_size := of_nat (max (fsize s k) (?off + 16)),
      di_addrs := di_addrs (the_dinode s' k)\<rparr>"
    "fsize s' k = max (fsize s k) (?off + 16)" "disk_dinode s' (snd k) = the_dinode s' k"
    "\<forall>x. fcontent s' k x = (if ?off \<le> x \<and> x < ?off + 16 then dirent_bytes de ! (x - ?off) else fcontent s k x)"
    "dense k s'" "free_blocks s' \<subseteq> free_blocks s" "inodes s' k = Some ((the (inodes s k))\<lparr>i_dinode := the_dinode s' k\<rparr>)"
    "\<forall>m. room s (7 + m) \<longrightarrow> room s' m"
    by auto
  have "di_type (the_dinode s' k) = T_DIR" using ok arg_cong[OF w(4), of di_type] by (simp add: dir_ok_def)
  moreover have "16 dvd fsize s' k" using w(5) q by (auto simp: max_def)
  ultimately have "dir_ok k s'" using w by (simp add: dir_ok_def)
  moreover have "dir_len s' k = max (dir_len s k) (Suc p)"
    using w(5) q by (auto simp: dir_len_def max_def)
  moreover have "di_nlink (the_dinode s' k) = di_nlink (the_dinode s k)" using arg_cong[OF w(4), of di_nlink] by simp
  ultimately show ?thesis using w dir_entry_write[OF w(7) wf] by (intro exI[of _ s']) simp
qed

lemma dirlink_run:
  assumes ok: "dir_ok k s" and nm: "legal_name nm" and new: "dir_lookup s k nm = None"
  shows "dirlink k (nm @ 0 # r) inum s =
    bnd (INode_write k (dirent_bytes \<lparr>de_inum = ucast inum, de_name = name_field nm\<rparr>) (16 * free_slot s k))
      (\<lambda>r. ret (if r \<noteq> of_nat sizeof_DirEntry then -1 else 0)) s"
proof -
  have fk: "file_ok k s" using ok by (simp add: dir_ok_def)
  note f = file_ok_basic[OF fk]
  have sz: "unat (di_size (i_dinode (the (inodes s k)))) = fsize s k" by (simp add: fsize_def the_dinode_def)
  have lp: "dirlink_loop k (fsize s k) 0 s = Inr (16 * free_slot s k, s)"
    using dirlink_loop_run[OF ok, of 0] by (simp add: free_slot_def)
  show ?thesis
    using dirlookup_run[OF ok nm, of r] new lp sz
    by (simp add: dirlink_def bnd_def dinode_run[OF f(3)] name_field_strncpy[OF nm])
qed


lemma dirlink_effect:
  assumes ok: "dir_ok k s" and i: "inum_ok s (snd k)" and r: "room s 7" and fr: "2 \<le> card (free_blocks s)"
    and cap: "16 * free_slot s k + 16 \<le> MAX_FILE * BSIZE"
    and nm: "legal_name nm" and new: "dir_lookup s k nm = None" and inum: "(ucast inum :: u16) \<noteq> 0"
  shows "\<exists>s'. dirlink k (nm @ 0 # rest) inum s = Inr (0, s') \<and> dir_ok k s' \<and> file_frame k s s' \<and>
    dir_lookup s' k nm = Some (ucast inum, free_slot s k) \<and>
    (\<forall>nm'. legal_name nm' \<and> nm' \<noteq> nm \<longrightarrow> dir_lookup s' k nm' = dir_lookup s k nm') \<and>
    disk_dinode s' (snd k) = the_dinode s' k \<and> di_nlink (the_dinode s' k) = di_nlink (the_dinode s k) \<and>
    free_blocks s' \<subseteq> free_blocks s \<and> inodes s' k = Some ((the (inodes s k))\<lparr>i_dinode := the_dinode s' k\<rparr>) \<and>
    (unique_names s k \<longrightarrow> unique_names s' k)"
proof -
  let ?de = "\<lparr>de_inum = ucast inum, de_name = name_field nm\<rparr> :: DirEntry"
  have wf: "dirent_wf ?de" using nm by (simp add: dirent_wf_def name_field_def legal_name_def)
  from dir_store_run[OF ok i r fr free_slot_cases(1) cap wf] obtain s' where w:
    "INode_write k (dirent_bytes ?de) (16 * free_slot s k) s = Inr (16, s')" "dir_ok k s'" "file_frame k s s'"
    "\<And>i. dir_entry s' k i = (if i = free_slot s k then ?de else dir_entry s k i)"
    "dir_len s' k = max (dir_len s k) (Suc (free_slot s k))" "disk_dinode s' (snd k) = the_dinode s' k"
    "di_nlink (the_dinode s' k) = di_nlink (the_dinode s k)" "free_blocks s' \<subseteq> free_blocks s"
    "inodes s' k = Some ((the (inodes s k))\<lparr>i_dinode := the_dinode s' k\<rparr>)" by blast
  have "dir_lookup s' k nm' = (if nm' = nm then Some (ucast inum, free_slot s k) else dir_lookup s k nm')"
    if "legal_name nm'" for nm'
    using dir_lookup_store[OF w(4,5) free_slot_cases nm that inum new] by simp
  moreover have "unique_names s k \<longrightarrow> unique_names s' k"
    using unique_names_store[OF w(4,5) free_slot_cases(1) nm inum new] by blast
  moreover have "dirlink k (nm @ 0 # rest) inum s = Inr (0, s')"
    using dirlink_run[OF ok nm new, of rest inum] w(1) by (simp add: bnd_run)
  ultimately show ?thesis using w nm by (intro exI[of _ s']) simp
qed

section \<open>Properties\<close>

definition demo_dir_inode :: INode where
  "demo_dir_inode = demo_inode\<lparr>i_dinode := (i_dinode demo_inode)\<lparr>di_type := T_DIR\<rparr>\<rparr>"

definition demo_dir :: inode_cache where
  "demo_dir = put_inode (1, 1) demo_dir_inode demo_file"

lemma demo_dir_facts [simp]:
  "dir_ok (1, 1) demo_dir" "inum_ok demo_dir 1" "room demo_dir k \<longleftrightarrow> k < 30"
  "free_blocks demo_dir = {46..<64}" "dir_len demo_dir (1, 1) = 0"
proof -
  have "file_ok (1, 1) demo_dir" unfolding demo_dir_def
    by (rule file_ok_put_inode(1)) (simp_all add: demo_dir_inode_def the_dinode_def)
  moreover have z: "fsize demo_dir (1, 1) = 0" "di_type (the_dinode demo_dir (1, 1)) = T_DIR"
    by (simp_all add: demo_dir_def demo_dir_inode_def demo_inode_def fsize_def the_dinode_def)
  ultimately show "dir_ok (1, 1) demo_dir" by (simp add: dir_ok_def dense_def)
  show "dir_len demo_dir (1, 1) = 0" using z by (simp add: dir_len_def)
qed (simp_all add: demo_dir_def)

text \<open>
  C12: \<open>dirlookup\<close> of a name of at most 13 bytes finds the first used entry with exactly that name,
  reports its offset and takes a reference to its inode; nothing else changes. Without such an entry
  it returns the null pointer and changes nothing.
\<close>

theorem dirlookup_spec:
  assumes ok: "dir_ok k s" and nm: "legal_name nm"
  shows "dirlookup k (nm @ 0 # r) s =
    (case find (\<lambda>j. de_inum (dir_entry s k j) \<noteq> 0 \<and>
        take (Suc (length nm)) (de_name (dir_entry s k j)) = nm @ [0]) [0..<dir_len s k] of
      None \<Rightarrow> Inr (None, s)
    | Some j \<Rightarrow> (let ip = (log_dev s, ucast (de_inum (dir_entry s k j)))
        in Inr (Some (ip, 16 * j), put_inode ip
          (case inodes s ip of None \<Rightarrow> new_inode | Some n \<Rightarrow> n\<lparr>i_ref := i_ref n + 1\<rparr>) s)))"
proof -
  have "fst k = log_dev s" using ok file_ok_basic(2)[of k s] by (simp add: dir_ok_def)
  then show ?thesis
    using dirlookup_run[OF ok nm, of r]
    by (simp add: dir_lookup_def entry_is_def inode_get_run bnd_def Let_def split: option.split)
qed

theorem dirlookup_spec_witness:
  "dir_ok (1, 1) demo_dir \<and> legal_name (cstr ''etc'') \<and>
   dirlookup (1, 1) (cstr ''etc'' @ 0 # []) demo_dir = Inr (None, demo_dir)"
  using dirlookup_spec[of "(1, 1)" demo_dir "cstr ''etc''" "[]"]
  by (simp add: legal_name_def cstr_def)

text \<open>
  C13: \<open>dirlink\<close> of a new name binds it: afterwards the name is found with the given inode number,
  every other name is found as before, with the same number and at the same place, outside the
  directory nothing changed, and its own inode is on disk, with the same link count.
\<close>

theorem dirlink_spec:
  assumes ok: "dir_ok k s" and i: "inum_ok s (snd k)" and r: "room s 7" and fr: "2 \<le> card (free_blocks s)"
    and cap: "16 * free_slot s k + 16 \<le> MAX_FILE * BSIZE"
    and nm: "legal_name nm" and new: "dir_lookup s k nm = None" and inum: "(ucast inum :: u16) \<noteq> 0"
  shows "\<exists>s'. dirlink k (nm @ 0 # rest) inum s = Inr (0, s') \<and> dir_ok k s' \<and> file_frame k s s' \<and>
    dir_lookup s' k nm = Some (ucast inum, free_slot s k) \<and>
    (\<forall>nm'. legal_name nm' \<and> nm' \<noteq> nm \<longrightarrow> dir_lookup s' k nm' = dir_lookup s k nm') \<and>
    disk_dinode s' (snd k) = the_dinode s' k \<and> di_nlink (the_dinode s' k) = di_nlink (the_dinode s k)"
  using dirlink_effect[OF assms] by blast

theorem dirlink_spec_witness:
  "dir_ok (1, 1) demo_dir \<and> legal_name (cstr ''etc'') \<and> dir_lookup demo_dir (1, 1) (cstr ''etc'') = None \<and>
   (\<exists>s'. dirlink (1, 1) (cstr ''etc'' @ 0 # []) 7 demo_dir = Inr (0, s') \<and>
      dir_lookup s' (1, 1) (cstr ''etc'') = Some (7, 0))"
proof -
  have "legal_name (cstr ''etc'')" by (simp add: legal_name_def cstr_def)
  moreover have "dir_lookup demo_dir (1, 1) (cstr ''etc'') = None" "free_slot demo_dir (1, 1) = 0"
    by (simp_all add: dir_lookup_def free_slot_def)
  ultimately show ?thesis
    using dirlink_spec[of "(1, 1)" demo_dir "cstr ''etc''" 7 "[]"] by auto
qed

text \<open>
  \<open>dirlink\<close> of a name that is already there returns \<open>-1\<close> and leaves the whole state as it was
  (the reference taken by the lookup is dropped again).
\<close>

theorem dirlink_exists:
  assumes ok: "dir_ok k s" and nm: "legal_name nm" and old: "dir_lookup s k nm = Some (i, j)"
    and ref: "\<And>n. inodes s (log_dev s, ucast i) = Some n \<Longrightarrow> i_ref n \<noteq> 0 \<and> i_ref n \<noteq> -1"
  shows "dirlink k (nm @ 0 # rest) inum s = Inr (-1, s)"
proof -
  have dev: "fst k = log_dev s" using ok file_ok_basic(2)[of k s] by (simp add: dir_ok_def)
  obtain ip t where g: "inode_get (log_dev s) (ucast i) s = Inr (ip, t)" by (simp add: inode_get_run)
  have "inode_put ip t = Inr ((), s)"
    using get_put_identity[of s "log_dev s" "ucast i"] ref g by (simp add: bnd_run)
  then show ?thesis
    using dirlookup_run[OF ok nm, of rest] old g dev by (simp add: dirlink_def bnd_def)
qed


theorem dirlink_exists_witness:
  "\<exists>s. dir_ok (1, 1) s \<and> dir_lookup s (1, 1) (cstr ''etc'') = Some (7, 0) \<and>
     dirlink (1, 1) (cstr ''etc'' @ 0 # []) 9 (s :: inode_cache) = Inr (-1, s)"
proof -
  have l: "legal_name (cstr ''etc'')" by (simp add: legal_name_def cstr_def)
  have "dir_lookup demo_dir (1, 1) (cstr ''etc'') = None" "free_slot demo_dir (1, 1) = 0"
    by (simp_all add: dir_lookup_def free_slot_def)
  then obtain s' :: inode_cache where s': "dir_ok (1, 1) s'" "file_frame (1, 1) demo_dir s'"
    "dir_lookup s' (1, 1) (cstr ''etc'') = Some (7, 0)"
    using dirlink_effect[of "(1, 1)" demo_dir "cstr ''etc''" 7 "[]"] l by auto
  have "log_dev s' = 1" "inodes s' (1, 7) = None"
    using s'(2) by (auto simp: file_frame_def same_env_def demo_dir_def demo_file_defs)
  with dirlink_exists[OF s'(1) l s'(3), of "[]" 9] s' show ?thesis by auto
qed

end
