(* ===== verification/Path_Names.thy ===== *)
theory Path_Names
  imports Directory
begin

text \<open>
  Path resolution of \<open>src/fs.cxx\<close>. A path is a C string: the model holds the bytes before its
  terminator, so \<open>*path == 0\<close> is the empty list. The buffer \<open>name\<close> has \<open>DIRSIZ\<close> bytes; an element
  of \<open>DIRSIZ\<close> or more bytes fills it and leaves no terminator.
\<close>

section \<open>Operations\<close>

abbreviation slash :: byte where "slash \<equiv> 47"

definition skipelem :: "byte list \<Rightarrow> byte list \<Rightarrow> (byte list \<times> byte list) option" where
  "skipelem path name =
     (let s = dropWhile (\<lambda>c. c = slash) path
      in if s = [] then None
         else
           let e = takeWhile (\<lambda>c. c \<noteq> slash) s;
               path' = dropWhile (\<lambda>c. c \<noteq> slash) s;
               name' = (if length e \<ge> DIRSIZ then take DIRSIZ e
                        else e @ [0] @ drop (Suc (length e)) name)
           in Some (dropWhile (\<lambda>c. c = slash) path', name'))"

lemma skipelem_shorter: "skipelem path name = Some (path', name') \<Longrightarrow> length path' < length path"
proof -
  assume a: "skipelem path name = Some (path', name')"
  let ?s = "dropWhile (\<lambda>c. c = slash) path"
  have p': "path' = dropWhile (\<lambda>c. c = slash) (dropWhile (\<lambda>c. c \<noteq> slash) ?s)" and ne: "?s \<noteq> []"
    using a by (auto simp: skipelem_def Let_def split: if_splits)
  obtain c r where s: "?s = c # r" using ne by (cases ?s) auto
  then have "c \<noteq> slash" using hd_dropWhile[of "\<lambda>c. c = slash" path] by simp
  then have "length (dropWhile (\<lambda>c. c \<noteq> slash) ?s) \<le> length r" using s by (simp add: length_dropWhile_le)
  moreover have "length ?s \<le> length path" by (rule length_dropWhile_le)
  ultimately show ?thesis
    using length_dropWhile_le[of "\<lambda>c. c = slash" "dropWhile (\<lambda>c. c \<noteq> slash) ?s"] s p' by simp
qed

text \<open>The loop of \<open>inode_name_x\<close>; the result is the inode, or null, and the last name.\<close>

function inode_name_loop :: "bool \<Rightarrow> INodeKey \<Rightarrow> byte list \<Rightarrow> byte list \<Rightarrow>
    (INodeKey option \<times> byte list, 'a inode_cache_scheme) m" where
  "inode_name_loop nameiparent ip path name =
     (case skipelem path name of
       Some (path', name') \<Rightarrow>
         bnd (INode_lock ip) (\<lambda>_.
         bnd (dinode ip) (\<lambda>di.
         if di_type di \<noteq> T_DIR then
           bnd (inode_unlock_put ip) (\<lambda>_. ret (None, name'))
         else if nameiparent \<and> path' = [] then
           bnd (INode_unlock ip) (\<lambda>_. ret (Some ip, name'))
         else
           bnd (dirlookup ip name') (\<lambda>found. case found of
             None \<Rightarrow> bnd (inode_unlock_put ip) (\<lambda>_. ret (None, name'))
           | Some (nxt, _) \<Rightarrow>
               bnd (inode_unlock_put ip) (\<lambda>_.
               inode_name_loop nameiparent nxt path' name'))))
     | None \<Rightarrow>
         if nameiparent then bnd (inode_put ip) (\<lambda>_. ret (None, name))
         else ret (Some ip, name))"
  by pat_completeness auto
termination
  by (relation "measure (\<lambda>(np, ip, path, name). length path)") (auto simp: skipelem_shorter)

declare inode_name_loop.simps [simp del]

definition inode_name_x :: "byte list \<Rightarrow> bool \<Rightarrow> byte list \<Rightarrow> (INodeKey option \<times> byte list, 'a inode_cache_scheme) m" where
  "inode_name_x path nameiparent name =
     bnd (assert_that ''should start with /'' (path \<noteq> [] \<and> hd path = slash)) (\<lambda>_.
     bnd (inode_get ROOTDEV ROOTINO) (\<lambda>ip.
     inode_name_loop nameiparent ip path name))"

text \<open>The buffers of the callers are uninitialised; zeros stand for their contents.\<close>

definition name_buffer :: "byte list" where
  "name_buffer = replicate DIRSIZ 0"

definition inode_name :: "byte list \<Rightarrow> (INodeKey option, 'a inode_cache_scheme) m" where
  "inode_name path = bnd (inode_name_x path False name_buffer) (\<lambda>(ip, _). ret ip)"

definition inode_name_parent :: "byte list \<Rightarrow> (INodeKey option \<times> byte list, 'a inode_cache_scheme) m" where
  "inode_name_parent path = inode_name_x path True name_buffer"

section \<open>Splitting a path\<close>

text \<open>The sequence of names that repeated calls of \<open>skipelem\<close> produce.\<close>

function path_names :: "byte list \<Rightarrow> byte list \<Rightarrow> byte list list" where
  "path_names path name = (case skipelem path name of
     None \<Rightarrow> [] | Some (path', name') \<Rightarrow> name' # path_names path' name')"
  by pat_completeness auto
termination
  by (relation "measure (\<lambda>(path, name). length path)") (auto simp: skipelem_shorter)

declare path_names.simps [simp del]

text \<open>The reference: cut at every slash and drop the empty pieces.\<close>

fun pieces :: "byte list \<Rightarrow> byte list list" where
  "pieces [] = [[]]"
| "pieces (c # cs) = (if c = slash then [] # pieces cs
     else (c # hd (pieces cs)) # tl (pieces cs))"

definition elements :: "byte list \<Rightarrow> byte list list" where
  "elements path = filter (\<lambda>e. e \<noteq> []) (pieces path)"

lemma pieces_not_Nil [simp]: "pieces p \<noteq> []"
  by (cases p) auto

lemma elements_slash [simp]: "elements (slash # p) = elements p"
  by (simp add: elements_def)

lemma elements_dropWhile: "elements (dropWhile (\<lambda>c. c = slash) p) = elements p"
  by (induction p) auto

lemma pieces_takeWhile:
  "pieces p = takeWhile (\<lambda>c. c \<noteq> slash) p #
     (case dropWhile (\<lambda>c. c \<noteq> slash) p of [] \<Rightarrow> [] | c # r \<Rightarrow> pieces r)"
  by (induction p) auto

lemma dropWhile_head: "dropWhile P p = c # r \<Longrightarrow> \<not> P c"
  by (metis hd_dropWhile list.sel(1) list.simps(3))

lemma elements_step:
  assumes "p \<noteq> []" "hd p \<noteq> slash"
  shows "elements p = takeWhile (\<lambda>c. c \<noteq> slash) p # elements (dropWhile (\<lambda>c. c \<noteq> slash) p)"
proof -
  have t: "takeWhile (\<lambda>c. c \<noteq> slash) p \<noteq> []" using assms by (cases p) auto
  show ?thesis
  proof (cases "dropWhile (\<lambda>c. c \<noteq> slash) p")
    case Nil
    have "elements [] = []" by (simp add: elements_def)
    moreover have "pieces p = [takeWhile (\<lambda>c. c \<noteq> slash) p]"
      using pieces_takeWhile[of p] unfolding Nil by simp
    ultimately show ?thesis unfolding Nil using t by (simp add: elements_def)
  next
    case (Cons c r)
    then have "c = slash" using dropWhile_head[of "\<lambda>c. c \<noteq> slash" p c r] by simp
    with Cons t pieces_takeWhile[of p] show ?thesis by (simp add: elements_def)
  qed
qed

text \<open>The name buffer after an element was copied to it.\<close>

definition name_result :: "byte list \<Rightarrow> byte list \<Rightarrow> byte list" where
  "name_result e name = (if length e \<ge> DIRSIZ then take DIRSIZ e else e @ [0] @ drop (Suc (length e)) name)"

lemma skipelem_elements:
  "skipelem path name = (case elements path of
     [] \<Rightarrow> None
   | e # _ \<Rightarrow> Some (dropWhile (\<lambda>c. c = slash)
       (dropWhile (\<lambda>c. c \<noteq> slash) (dropWhile (\<lambda>c. c = slash) path)), name_result e name))"
  "skipelem path name = Some (path', name') \<Longrightarrow> elements path' = tl (elements path)"
proof -
  let ?s = "dropWhile (\<lambda>c. c = slash) path"
  have e: "elements path = elements ?s" by (simp add: elements_dropWhile)
  have step: "elements ?s = takeWhile (\<lambda>c. c \<noteq> slash) ?s # elements (dropWhile (\<lambda>c. c \<noteq> slash) ?s)" if "?s \<noteq> []"
    using that hd_dropWhile[of "\<lambda>c. c = slash" path] by (intro elements_step) auto
  show "skipelem path name = (case elements path of
     [] \<Rightarrow> None
   | e # _ \<Rightarrow> Some (dropWhile (\<lambda>c. c = slash)
       (dropWhile (\<lambda>c. c \<noteq> slash) (dropWhile (\<lambda>c. c = slash) path)), name_result e name))"
  proof (cases "?s = []")
    case True
    have "elements [] = []" by (simp add: elements_def)
    then have "elements path = []" unfolding e True .
    with True show ?thesis by (simp add: skipelem_def del: dropWhile_eq_Nil_conv)
  next
    case False
    then show ?thesis using e step by (simp add: skipelem_def Let_def name_result_def)
  qed
  show "elements path' = tl (elements path)" if "skipelem path name = Some (path', name')"
    using that e step by (auto simp: skipelem_def Let_def elements_dropWhile split: if_splits)
qed

lemma name_result_length: "length name = DIRSIZ \<Longrightarrow> length (name_result e name) = DIRSIZ"
  by (simp add: name_result_def)

lemma path_names_spec:
  "length name = DIRSIZ \<Longrightarrow>
   length (path_names path name) = length (elements path) \<and>
   (\<forall>i < length (elements path).
      let e = elements path ! i; nm = path_names path name ! i
      in length nm = DIRSIZ \<and> (if length e < DIRSIZ then take (Suc (length e)) nm = e @ [0] else nm = take DIRSIZ e))"
proof (induction path name rule: path_names.induct)
  case (1 path name)
  show ?case
  proof (cases "skipelem path name")
    case None
    then have "elements path = []" by (auto simp: skipelem_elements(1) split: list.splits)
    with None show ?thesis by (simp add: path_names.simps[of path])
  next
    case (Some a)
    obtain path' name' where a: "a = (path', name')" by (cases a)
    obtain e es where es: "elements path = e # es" "name' = name_result e name"
      using Some a by (auto simp: skipelem_elements(1) split: list.splits)
    have tl: "elements path' = es" using skipelem_elements(2) Some a es by (metis list.sel(3))
    have l: "length name' = DIRSIZ" using es(2) 1(2) name_result_length by simp
    have IH: "length (path_names path' name') = length es \<and> (\<forall>i < length es.
      let e = es ! i; nm = path_names path' name' ! i
      in length nm = DIRSIZ \<and> (if length e < DIRSIZ then take (Suc (length e)) nm = e @ [0] else nm = take DIRSIZ e))"
      using "1.IH"[OF Some a[symmetric] l] tl by simp
    have pn: "path_names path name = name' # path_names path' name'"
      using Some a by (simp add: path_names.simps[of path])
    show ?thesis
      unfolding pn es(1) using IH es(2) l
      by (auto simp: Let_def less_Suc_eq_0_disj name_result_def)
  qed
qed


section \<open>Properties\<close>

text \<open>
  C14: repeated \<open>skipelem\<close> cuts a path exactly at its slashes: it yields the non-empty pieces in
  order, each in a buffer of \<open>DIRSIZ\<close> bytes, terminated when the piece has fewer than \<open>DIRSIZ\<close> bytes
  and cut to \<open>DIRSIZ\<close> bytes otherwise.
\<close>

theorem skipelem_splits:
  assumes "length name = DIRSIZ"
  shows "length (path_names path name) = length (elements path) \<and>
    (\<forall>i < length (elements path).
      let e = elements path ! i; nm = path_names path name ! i
      in length nm = DIRSIZ \<and> (if length e < DIRSIZ then take (Suc (length e)) nm = e @ [0] else nm = take DIRSIZ e))"
  by (rule path_names_spec[OF assms])

theorem skipelem_splits_witness:
  "length name_buffer = DIRSIZ \<and> elements (cstr ''///a//bb'') = [cstr ''a'', cstr ''bb''] \<and>
   length (path_names (cstr ''///a//bb'') name_buffer) = 2"
proof -
  have "elements (cstr ''///a//bb'') = [cstr ''a'', cstr ''bb'']" by (simp add: cstr_def elements_def)
  then show ?thesis using skipelem_splits[of name_buffer "cstr ''///a//bb''"] by (simp add: name_buffer_def)
qed

text \<open>
  C15: an entry whose name fills all \<open>DIRSIZ\<close> bytes cannot be looked up. The name buffer of
  \<open>skipelem\<close> has no terminator then, nor has the entry, and \<open>strcmp\<close> runs off both: the lookup does
  not return when such an entry is the first used one that agrees with the name.
\<close>

theorem dirlookup_full_name_overrun:
  assumes ok: "dir_ok k s" and nm: "0 \<notin> set nm" "length nm = DIRSIZ"
    and j: "j < dir_len s k" "de_inum (dir_entry s k j) \<noteq> 0" "de_name (dir_entry s k j) = nm"
    and first: "\<And>i. i < j \<Longrightarrow> de_inum (dir_entry s k i) = 0 \<or> strcmp_eq nm (de_name (dir_entry s k i)) = Some False"
  shows "dirlookup k nm s = Inl Out_of_bounds"
proof -
  have self: "strcmp_eq xs xs = None" if "0 \<notin> set xs" for xs
    using that by (induction xs) auto
  have "scan nm (dir_entry s k) [i..<dir_len s k] = None" if "i \<le> j" for i
    using that
  proof (induction "j - i" arbitrary: i)
    case 0
    then have "[i..<dir_len s k] = j # [Suc j..<dir_len s k]" using j by (simp add: upt_conv_Cons)
    then show ?case using j self[OF nm(1)] by (simp add: matches_def)
  next
    case (Suc d)
    then have "[i..<dir_len s k] = i # [Suc i..<dir_len s k]" using j by (simp add: upt_conv_Cons)
    moreover have "matches nm (dir_entry s k i) = Some False"
      using first[of i] Suc by (auto simp: matches_def)
    ultimately show ?case using Suc by simp
  qed
  from this[of 0] have "dirlookup_loop k nm (fsize s k) 0 s = Inl Out_of_bounds"
    using dirlookup_loop_run[OF ok, of 0 nm] by simp
  moreover have fk: "file_ok k s" using ok by (simp add: dir_ok_def)
  ultimately show ?thesis
    using ok file_ok_basic(3)[OF fk]
    by (simp add: dirlookup_def bnd_def dinode_run[OF file_ok_basic(3)[OF fk]] dir_ok_def the_dinode_def fsize_def)
qed

theorem dirlookup_full_name_overrun_witness:
  "\<exists>s. dir_ok (1, 1) s \<and> de_name (dir_entry s (1, 1) 0) = cstr ''fourteen-bytes'' \<and>
     dirlookup (1, 1) (cstr ''fourteen-bytes'') (s :: inode_cache) = Inl Out_of_bounds"
proof -
  let ?nm = "cstr ''fourteen-bytes''"
  let ?de = "\<lparr>de_inum = 7, de_name = ?nm\<rparr> :: DirEntry"
  have nm: "0 \<notin> set ?nm" "length ?nm = 14" by (simp_all add: cstr_def)
  obtain s' :: inode_cache where s': "dir_ok (1, 1) s'" "dir_entry s' (1, 1) 0 = ?de" "dir_len s' (1, 1) = 1"
    using dir_store_run[of "(1, 1)" demo_dir 0 ?de] nm by (auto simp: dirent_wf_def)
  show ?thesis
    using dirlookup_full_name_overrun[OF s'(1) nm, of 0] s' by (intro exI[of _ s']) simp
qed

end
