(* ===== verification/Pipe_Ring.thy ===== *)
theory Pipe_Ring
  imports Prelude
begin

text \<open>
  \<open>src/Pipe.cxx\<close>: the ring buffer of a pipe with its two free-running counters. One thread runs; a
  wait on a condition variable that nobody can end is \<open>Deadlock\<close>. The read loop may spin for ever,
  so it has fuel: \<open>None\<close> is a loop that has not returned yet.

  The locale \<open>fifo\<close> is the contract of a bounded queue; the pipe is shown to be one across the
  wrap-around of both the ring index and the 32-bit counters.
\<close>

section \<open>State and operations\<close>

abbreviation PIPESIZE :: nat where "PIPESIZE \<equiv> 512"

record Pipe =
  p_data :: bytes
  p_nread :: u32
  p_nwrite :: u32
  p_readopen :: bool
  p_writeopen :: bool

definition pipe_full :: "Pipe \<Rightarrow> bool" where
  "pipe_full p \<longleftrightarrow> p_nwrite p = p_nread p + of_nat PIPESIZE"

definition pipe_empty :: "Pipe \<Rightarrow> bool" where
  "pipe_empty p \<longleftrightarrow> p_nwrite p = p_nread p"

definition pipe_put :: "byte \<Rightarrow> Pipe \<Rightarrow> Pipe" where
  "pipe_put c p = p\<lparr>p_data := (p_data p)(unat (p_nwrite p mod of_nat PIPESIZE) := c),
     p_nwrite := p_nwrite p + 1\<rparr>"

definition pipe_get :: "Pipe \<Rightarrow> byte \<times> Pipe" where
  "pipe_get p = (p_data p (unat (p_nread p mod of_nat PIPESIZE)), p\<lparr>p_nread := p_nread p + 1\<rparr>)"

text \<open>The loop of \<open>Pipe::write\<close> over the bytes that are left.\<close>

fun Pipe_write_loop :: "nat \<Rightarrow> byte list \<Rightarrow> (int, Pipe) m" where
  "Pipe_write_loop i [] = ret (int i)"
| "Pipe_write_loop i (ch # cs) =
     bnd (gets p_readopen) (\<lambda>ro.
     if \<not> ro then ret (-1)
     else
       bnd (gets pipe_full) (\<lambda>full.
       if full then fail Deadlock
       else bnd (modify (pipe_put ch)) (\<lambda>_. Pipe_write_loop (Suc i) cs)))"

definition Pipe_write :: "byte list \<Rightarrow> (int, Pipe) m" where
  "Pipe_write addr = Pipe_write_loop 0 addr"

text \<open>The inner loop of \<open>Pipe::read\<close>: up to \<open>n\<close> bytes, until the pipe is empty.\<close>

fun pipe_take :: "nat \<Rightarrow> Pipe \<Rightarrow> byte list \<times> Pipe" where
  "pipe_take 0 p = ([], p)"
| "pipe_take (Suc n) p =
     (if pipe_empty p then ([], p)
      else case pipe_get p of (ch, p') \<Rightarrow>
        case pipe_take n p' of (bs, p'') \<Rightarrow> (ch # bs, p''))"

text \<open>The outer loop: the inner one starts again from the beginning of the buffer each time.\<close>

fun Pipe_read_loop :: "nat \<Rightarrow> nat \<Rightarrow> byte list \<Rightarrow> Pipe \<Rightarrow> (error + (byte list \<times> Pipe)) option" where
  "Pipe_read_loop 0 n got p = None"
| "Pipe_read_loop (Suc fuel) n got p =
     (if length got < n then
        if pipe_empty p \<and> p_writeopen p then Some (Inl Deadlock)
        else case pipe_take n p of (bs, p') \<Rightarrow> Pipe_read_loop fuel n bs p'
      else Some (Inr (got, p)))"

definition Pipe_read :: "nat \<Rightarrow> nat \<Rightarrow> Pipe \<Rightarrow> (error + (byte list \<times> Pipe)) option" where
  "Pipe_read fuel n p = Pipe_read_loop fuel n [] p"

text \<open>\<open>Pipe::close\<close>; the result is whether the pipe deletes itself.\<close>

definition Pipe_close :: "bool \<Rightarrow> (bool, Pipe) m" where
  "Pipe_close writable =
     bnd (modify (\<lambda>p. if writable then p\<lparr>p_writeopen := False\<rparr> else p\<lparr>p_readopen := False\<rparr>)) (\<lambda>_.
     gets (\<lambda>p. \<not> p_readopen p \<and> \<not> p_writeopen p))"

section \<open>Bounded queues\<close>

locale fifo =
  fixes contents :: "'s \<Rightarrow> 'e list"
    and put :: "'e \<Rightarrow> 's \<Rightarrow> 's"
    and get :: "'s \<Rightarrow> 'e \<times> 's"
    and cap :: nat
    and ok :: "'s \<Rightarrow> bool"
  assumes put_contents: "ok s \<Longrightarrow> length (contents s) < cap \<Longrightarrow> contents (put c s) = contents s @ [c]"
    and put_ok: "ok s \<Longrightarrow> length (contents s) < cap \<Longrightarrow> ok (put c s)"
    and get_contents: "ok s \<Longrightarrow> contents s \<noteq> [] \<Longrightarrow> fst (get s) # contents (snd (get s)) = contents s"
    and get_ok: "ok s \<Longrightarrow> contents s \<noteq> [] \<Longrightarrow> ok (snd (get s))"
begin

lemma put_all:
  "ok s \<Longrightarrow> length (contents s) + length cs \<le> cap \<Longrightarrow>
     contents (fold put cs s) = contents s @ cs \<and> ok (fold put cs s)"
  by (induction cs arbitrary: s) (auto simp: put_contents put_ok)

primrec get_all :: "nat \<Rightarrow> 's \<Rightarrow> 'e list \<times> 's" where
  "get_all 0 s = ([], s)"
| "get_all (Suc n) s = (case get s of (c, s1) \<Rightarrow> case get_all n s1 of (cs, s2) \<Rightarrow> (c # cs, s2))"

lemma get_all_spec:
  "ok s \<Longrightarrow> n \<le> length (contents s) \<Longrightarrow>
     fst (get_all n s) = take n (contents s) \<and> contents (snd (get_all n s)) = drop n (contents s) \<and>
     ok (snd (get_all n s))"
proof (induction n arbitrary: s)
  case (Suc n)
  obtain c s1 where g: "get s = (c, s1)" by fastforce
  have ne: "contents s \<noteq> []" using Suc.prems by auto
  have cs: "contents s = c # contents s1" "ok s1"
    using get_contents[OF Suc.prems(1) ne] get_ok[OF Suc.prems(1) ne] g by simp_all
  then show ?case using Suc.IH[of s1] Suc.prems g by (simp add: split_beta)
qed simp

text \<open>First in, first out.\<close>

lemma put_all_get_all:
  assumes "ok s" "contents s = []" "length cs \<le> cap"
  shows "fst (get_all (length cs) (fold put cs s)) = cs"
  using put_all[of s cs] get_all_spec[of "fold put cs s" "length cs"] assms by simp

end

section \<open>The pipe is a queue\<close>

definition pipe_ok :: "Pipe \<Rightarrow> bool" where
  "pipe_ok p \<longleftrightarrow> unat (p_nwrite p - p_nread p) \<le> PIPESIZE"

definition pipe_len :: "Pipe \<Rightarrow> nat" where
  "pipe_len p = unat (p_nwrite p - p_nread p)"

definition pipe_contents :: "Pipe \<Rightarrow> byte list" where
  "pipe_contents p = map (\<lambda>j. p_data p ((unat (p_nread p) + j) mod PIPESIZE)) [0..<pipe_len p]"

lemma ring_index: "unat (a mod 512 :: u32) = unat a mod 512"
  by (simp add: unat_mod)

lemma ring_index_add: "(unat (a + of_nat j :: u32)) mod 512 = (unat a + j) mod 512"
proof -
  have "unat (a + of_nat j) = (unat a + j) mod 2 ^ 32"
    by (simp add: unat_word_ariths unat_of_nat mod_simps)
  moreover have "(512 :: nat) dvd 2 ^ 32" by simp
  ultimately show ?thesis by (simp add: mod_mod_cancel)
qed

lemma nwrite_eq: "p_nwrite p = p_nread p + of_nat (pipe_len p)"
  by (simp add: pipe_len_def)

lemma pipe_full_iff: "pipe_ok p \<Longrightarrow> pipe_full p \<longleftrightarrow> pipe_len p = PIPESIZE"
proof -
  assume "pipe_ok p"
  have "pipe_full p \<longleftrightarrow> p_nwrite p - p_nread p = 512" by (auto simp: pipe_full_def algebra_simps)
  also have "\<dots> \<longleftrightarrow> pipe_len p = 512" unfolding word_unat_eq_iff pipe_len_def by simp
  finally show ?thesis by simp
qed

lemma pipe_empty_iff: "pipe_empty p \<longleftrightarrow> pipe_len p = 0"
  by (auto simp: pipe_empty_def pipe_len_def unat_eq_0)

lemma length_pipe_contents [simp]: "length (pipe_contents p) = pipe_len p"
  by (simp add: pipe_contents_def)

lemma pipe_len_put:
  assumes "pipe_len p < PIPESIZE"
  shows "pipe_len (pipe_put c p) = Suc (pipe_len p)"
proof -
  have "p_nwrite (pipe_put c p) - p_nread (pipe_put c p) = (p_nwrite p - p_nread p) + 1"
    by (simp add: pipe_put_def)
  moreover have "unat ((p_nwrite p - p_nread p) + 1) = Suc (unat (p_nwrite p - p_nread p))"
    using assms by (simp add: pipe_len_def unat_word_ariths del: diff_add_eq add_diff_eq)
  ultimately show ?thesis by (simp add: pipe_len_def)
qed

lemma ring_distinct:
  fixes a :: nat
  assumes "j < l" "l < 512"
  shows "(a + j) mod 512 \<noteq> (a + l) mod 512"
proof
  assume "(a + j) mod 512 = (a + l) mod 512"
  then have "512 dvd (a + l) - (a + j)" using assms by (metis add_le_mono1 mod_eq_dvd_iff_nat nat_add_left_cancel_le less_imp_le)
  then have "512 dvd l - j" by simp
  then show False using assms by (auto dest: dvd_imp_le)
qed

interpretation pipe: fifo pipe_contents pipe_put pipe_get PIPESIZE pipe_ok
proof
  fix p :: Pipe and c
  assume ok: "pipe_ok p"
  {
    assume l: "length (pipe_contents p) < PIPESIZE"
    then have l': "pipe_len p < 512" by simp
    show "pipe_ok (pipe_put c p)" using pipe_len_put[OF l', of c] l' by (simp add: pipe_ok_def pipe_len_def)
    have w: "unat (p_nwrite p mod 512) = (unat (p_nread p) + pipe_len p) mod 512"
      unfolding ring_index by (subst nwrite_eq) (rule ring_index_add)
    show "pipe_contents (pipe_put c p) = pipe_contents p @ [c]"
      unfolding pipe_contents_def pipe_len_put[OF l'] using w ring_distinct[OF _ l']
      by (auto simp: pipe_put_def)
  }
  {
    assume "pipe_contents p \<noteq> []"
    then have l: "0 < pipe_len p" by (metis length_greater_0_conv length_pipe_contents)
    let ?q = "snd (pipe_get p)"
    have d: "p_nwrite ?q - p_nread ?q = (p_nwrite p - p_nread p) - 1" by (simp add: pipe_get_def)
    have "p_nwrite p - p_nread p \<noteq> 0" using l by (auto simp: pipe_len_def)
    then have lq: "pipe_len ?q = pipe_len p - 1" unfolding pipe_len_def d by (rule unat_minus_one)
    then show "pipe_ok ?q" using ok by (simp add: pipe_ok_def pipe_len_def)
    obtain n where n: "pipe_len p = Suc n" using l by (cases "pipe_len p") auto
    have next_index: "(unat (p_nread p + 1) + j) mod 512 = (unat (p_nread p) + Suc j) mod 512" for j
    proof -
      have "(unat (p_nread p + 1) + j) mod 512 = (unat (p_nread p + of_nat 1) mod 512 + j) mod 512"
        by (simp only: mod_add_left_eq of_nat_1)
      also have "\<dots> = (unat (p_nread p) + 1 + j) mod 512" by (simp only: ring_index_add mod_add_left_eq)
      finally show ?thesis by simp
    qed
    then have "pipe_contents ?q = map (\<lambda>j. p_data p ((unat (p_nread p) + Suc j) mod 512)) [0..<n]"
      using lq n by (simp add: pipe_contents_def pipe_get_def)
    moreover have "[0..<Suc n] = 0 # map Suc [0..<n]" by (simp add: upt_conv_Cons map_Suc_upt del: upt_Suc)
    then have "pipe_contents p = p_data p (unat (p_nread p) mod 512) #
        map (\<lambda>j. p_data p ((unat (p_nread p) + Suc j) mod 512)) [0..<n]"
      unfolding pipe_contents_def n by (simp add: o_def)
    ultimately show "fst (pipe_get p) # pipe_contents ?q = pipe_contents p"
      by (simp add: pipe_get_def ring_index)
  }
qed


section \<open>Transfers\<close>

lemma pipe_put_frame [simp]:
  "p_readopen (pipe_put c p) = p_readopen p" "p_writeopen (pipe_put c p) = p_writeopen p"
  "p_nread (pipe_put c p) = p_nread p"
  by (simp_all add: pipe_put_def)

lemma pipe_get_frame [simp]:
  "p_readopen (snd (pipe_get p)) = p_readopen p" "p_writeopen (snd (pipe_get p)) = p_writeopen p"
  by (simp_all add: pipe_get_def)

lemma Pipe_write_loop_run:
  "pipe_ok p \<Longrightarrow> p_readopen p \<Longrightarrow> Pipe_write_loop i cs p =
     (if pipe_len p + length cs \<le> PIPESIZE then Inr (int (i + length cs), fold pipe_put cs p) else Inl Deadlock)"
proof (induction cs arbitrary: i p)
  case Nil
  then show ?case by (simp add: pipe_ok_def pipe_len_def)
next
  case (Cons c cs)
  show ?case
  proof (cases "pipe_len p = PIPESIZE")
    case True
    then show ?thesis using Cons.prems by (simp add: bnd_def pipe_full_iff)
  next
    case False
    then have l: "pipe_len p < PIPESIZE" using Cons.prems(1) by (simp add: pipe_ok_def pipe_len_def)
    have "pipe_ok (pipe_put c p)" using pipe.put_ok[OF Cons.prems(1)] l by simp
    then show ?thesis using Cons.IH[of "pipe_put c p"] Cons.prems False l
      by (simp add: bnd_def pipe_full_iff pipe_len_put)
  qed
qed

lemma pipe_take_spec:
  "pipe_ok p \<Longrightarrow> pipe_take n p = (bs, q) \<Longrightarrow>
     bs = take n (pipe_contents p) \<and> pipe_contents q = drop n (pipe_contents p) \<and> pipe_ok q \<and>
     p_writeopen q = p_writeopen p \<and> p_readopen q = p_readopen p"
proof (induction n arbitrary: p bs q)
  case (Suc n)
  show ?case
  proof (cases "pipe_empty p")
    case True
    moreover have "pipe_contents p = []" using True by (simp add: pipe_empty_iff pipe_contents_def)
    ultimately show ?thesis using Suc.prems by simp
  next
    case False
    then have ne: "pipe_contents p \<noteq> []" by (metis length_0_conv length_pipe_contents pipe_empty_iff)
    obtain c p1 where g: "pipe_get p = (c, p1)" by fastforce
    obtain cs p2 where t: "pipe_take n p1 = (cs, p2)" by fastforce
    have cs: "pipe_contents p = c # pipe_contents p1" "pipe_ok p1"
      using pipe.get_contents[OF Suc.prems(1) ne] pipe.get_ok[OF Suc.prems(1) ne] g by simp_all
    have "bs = c # cs" "q = p2" using Suc.prems(2) False g t by simp_all
    with Suc.IH[OF cs(2) t] cs(1) pipe_get_frame[of p] g show ?thesis by simp
  qed
qed simp

section \<open>Properties\<close>

definition demo_pipe :: Pipe where
  "demo_pipe = \<lparr>p_data = \<lambda>_. 0, p_nread = -3, p_nwrite = -3, p_readopen = True, p_writeopen = True\<rparr>"

lemma demo_pipe_facts [simp]:
  "pipe_ok demo_pipe" "pipe_len demo_pipe = 0" "p_readopen demo_pipe" "p_writeopen demo_pipe"
  "pipe_contents demo_pipe = []"
  by (simp_all add: demo_pipe_def pipe_ok_def pipe_len_def pipe_contents_def)

text \<open>
  \<open>Pipe::write\<close> appends the whole buffer to the queue of the pipe when it fits, also across the
  wrap-around of the counters, and otherwise waits for a reader. With the read end closed it
  returns \<open>-1\<close> and stores nothing.
\<close>

theorem Pipe_write_spec:
  assumes "pipe_ok p"
  shows "if cs \<noteq> [] \<and> \<not> p_readopen p then Pipe_write cs p = Inr (-1, p)
    else if pipe_len p + length cs \<le> PIPESIZE then
      \<exists>q. Pipe_write cs p = Inr (int (length cs), q) \<and> pipe_contents q = pipe_contents p @ cs \<and> pipe_ok q
    else Pipe_write cs p = Inl Deadlock"
proof (cases "p_readopen p")
  case True
  then show ?thesis
    using Pipe_write_loop_run[OF assms True, of 0 cs] pipe.put_all[OF assms, of cs] by (simp add: Pipe_write_def)
next
  case False
  then show ?thesis using assms
    by (cases cs) (auto simp: Pipe_write_def bnd_def pipe_ok_def pipe_len_def)
qed

theorem Pipe_write_spec_witness:
  "pipe_ok demo_pipe \<and> (\<exists>q. Pipe_write (cstr ''hello'') demo_pipe = Inr (5, q) \<and> pipe_contents q = cstr ''hello'')"
  using Pipe_write_spec[of demo_pipe "cstr ''hello''"] by (auto simp: cstr_def)

text \<open>
  \<open>Pipe::read\<close> of \<open>n\<close> bytes returns the \<open>n\<close> oldest bytes when the pipe holds that many, and keeps
  the rest in order.
\<close>

theorem Pipe_read_spec:
  assumes ok: "pipe_ok p" and n: "n \<le> pipe_len p" and fuel: "2 \<le> fuel"
  shows "\<exists>q. Pipe_read fuel n p = Some (Inr (take n (pipe_contents p), q)) \<and>
    pipe_contents q = drop n (pipe_contents p) \<and> pipe_ok q"
proof -
  obtain f where f: "fuel = Suc (Suc f)" using fuel by (metis Suc_le_D numeral_2_eq_2 Suc_le_mono)
  obtain bs q where t: "pipe_take n p = (bs, q)" by fastforce
  note s = pipe_take_spec[OF ok t]
  then have l: "length bs = n" using n by simp
  show ?thesis
  proof (cases "n = 0")
    case True
    then show ?thesis using ok by (simp add: Pipe_read_def f)
  next
    case False
    then have "\<not> pipe_empty p" using n by (simp add: pipe_empty_iff)
    then have "Pipe_read fuel n p = Some (Inr (bs, q))" using False t l by (simp add: Pipe_read_def f)
    with s show ?thesis by blast
  qed
qed

theorem Pipe_read_spec_witness:
  "pipe_ok (fold pipe_put (cstr ''hello'') demo_pipe) \<and>
   (\<exists>q. Pipe_read 2 3 (fold pipe_put (cstr ''hello'') demo_pipe) = Some (Inr (cstr ''hel'', q)) \<and>
      pipe_contents q = cstr ''lo'')"
proof -
  let ?p = "fold pipe_put (cstr ''hello'') demo_pipe"
  have c: "pipe_contents ?p = cstr ''hello''" "pipe_ok ?p"
    using pipe.put_all[of demo_pipe "cstr ''hello''"] by (simp_all add: cstr_def)
  have "length (cstr ''hello'') = 5" by (simp add: cstr_def)
  then have "pipe_len ?p = 5" unfolding length_pipe_contents[symmetric] c(1) .
  with Pipe_read_spec[OF c(2), of 3 2] c show ?thesis by (auto simp: cstr_def)
qed

text \<open>
  C16: a read of more bytes than the pipe holds never returns, although the caller asked for what is
  there: with a writer it waits for more (having consumed what there was), and after the last writer
  has gone it spins for ever, however long it runs.
\<close>

theorem Pipe_read_short_never_returns:
  assumes ok: "pipe_ok p" and n: "pipe_len p < n"
  shows "if p_writeopen p then \<forall>fuel \<ge> 2. Pipe_read fuel n p = Some (Inl Deadlock)
    else \<forall>fuel. Pipe_read fuel n p = None"
proof -
  obtain bs q where t: "pipe_take n p = (bs, q)" by fastforce
  note s = pipe_take_spec[OF ok t]
  have l: "length bs < n" "pipe_empty q"
    using s n by (simp_all add: pipe_empty_iff length_pipe_contents[symmetric] del: length_pipe_contents)
  have tq: "pipe_take n q = ([], q)" using l(2) by (cases n) simp_all
  have spin: "Pipe_read_loop fuel n got q = None" if "\<not> p_writeopen q" "length got < n" for fuel got
    using that tq l by (induction fuel arbitrary: got) auto
  show ?thesis
  proof (cases "p_writeopen p")
    case True
    have "Pipe_read fuel n p = Some (Inl Deadlock)" if f2: "2 \<le> fuel" for fuel
    proof -
      obtain f where f: "fuel = Suc (Suc f)" using f2 by (metis Suc_le_D numeral_2_eq_2 Suc_le_mono)
      show ?thesis using True t l s n by (simp add: Pipe_read_def f)
    qed
    with True show ?thesis by simp
  next
    case False
    have "Pipe_read fuel n p = None" for fuel
    proof (cases fuel)
      case (Suc f)
      then show ?thesis using False t s n spin[OF _ l(1)] by (simp add: Pipe_read_def)
    qed (simp add: Pipe_read_def)
    with False show ?thesis by simp
  qed
qed

theorem Pipe_read_short_never_returns_witness:
  "pipe_ok (demo_pipe\<lparr>p_writeopen := False\<rparr>) \<and> (\<forall>fuel. Pipe_read fuel 1 (demo_pipe\<lparr>p_writeopen := False\<rparr>) = None)"
  using Pipe_read_short_never_returns[of "demo_pipe\<lparr>p_writeopen := False\<rparr>" 1]
  by (simp add: demo_pipe_def pipe_ok_def pipe_len_def)

end
