(* ===== verification/Pipe_Queue.thy ===== *)
theory Pipe_Queue
  imports Pipe_Ring
begin

text \<open>
  The pipe of \<open>src/Pipe.cxx\<close> as an abstract queue. \<open>Pipe::read\<close> is a loop that may never return; two
  turns decide it, which gives it a total definition. Any sequence of writes, reads and closes then
  behaves as on a list of at most \<open>PIPESIZE\<close> bytes with two flags.
\<close>

section \<open>Reading as an operation\<close>

definition pipe_read_m :: "nat \<Rightarrow> (byte list, Pipe) m" where
  "pipe_read_m n = (\<lambda>p. case Pipe_read 2 n p of None \<Rightarrow> Inl Deadlock | Some r \<Rightarrow> r)"

lemma pipe_take_full:
  "pipe_take n p = (bs, q) \<Longrightarrow> length bs \<le> n \<and> (length bs < n \<longrightarrow> pipe_empty q)"
proof (induction n arbitrary: p bs q)
  case (Suc n)
  then show ?case
    by (cases "pipe_empty p") (auto split: prod.splits)
qed simp

lemma Pipe_read_loop_empty:
  assumes "pipe_empty p" "length got < n"
  shows "Pipe_read_loop (Suc fuel) n got p = (if p_writeopen p then Some (Inl Deadlock) else None)"
proof (cases "p_writeopen p")
  case False
  have "pipe_take n p = ([], p)" using assms(1) by (cases n) simp_all
  then have "Pipe_read_loop fuel n g p = None" if "length g < n" for fuel g
    using that False by (induction fuel arbitrary: g) auto
  from this[OF assms(2), of "Suc fuel"] False show ?thesis by simp
qed (use assms in simp)

section \<open>The abstract queue\<close>

record queue =
  q_bytes :: "byte list"
  q_reader :: bool
  q_writer :: bool

definition queue_of :: "Pipe \<Rightarrow> queue" where
  "queue_of p = \<lparr>q_bytes = pipe_contents p, q_reader = p_readopen p, q_writer = p_writeopen p\<rparr>"

datatype pipe_call = Send "byte list" | Receive nat | Hang_up bool

datatype pipe_answer = Sent int | Received "byte list" | Hung_up bool

fun queue_call :: "pipe_call \<Rightarrow> (pipe_answer, queue) m" where
  "queue_call (Send cs) = (\<lambda>q.
     if cs \<noteq> [] \<and> \<not> q_reader q then Inr (Sent (-1), q)
     else if length (q_bytes q) + length cs \<le> PIPESIZE
       then Inr (Sent (int (length cs)), q\<lparr>q_bytes := q_bytes q @ cs\<rparr>)
     else Inl Deadlock)"
| "queue_call (Receive n) = (\<lambda>q.
     if n \<le> length (q_bytes q)
     then Inr (Received (take n (q_bytes q)), q\<lparr>q_bytes := drop n (q_bytes q)\<rparr>)
     else Inl Deadlock)"
| "queue_call (Hang_up w) = (\<lambda>q.
     let q' = (if w then q\<lparr>q_writer := False\<rparr> else q\<lparr>q_reader := False\<rparr>)
     in Inr (Hung_up (\<not> q_reader q' \<and> \<not> q_writer q'), q'))"

fun pipe_do :: "pipe_call \<Rightarrow> (pipe_answer, Pipe) m" where
  "pipe_do (Send cs) = bnd (Pipe_write cs) (\<lambda>r. ret (Sent r))"
| "pipe_do (Receive n) = bnd (pipe_read_m n) (\<lambda>bs. ret (Received bs))"
| "pipe_do (Hang_up w) = bnd (Pipe_close w) (\<lambda>gone. ret (Hung_up gone))"

text \<open>A sequence of calls: the answers, up to a call that does not return.\<close>

fun calls :: "('c \<Rightarrow> ('a, 's) m) \<Rightarrow> 'c list \<Rightarrow> 's \<Rightarrow> 'a list \<times> error option" where
  "calls f [] s = ([], None)"
| "calls f (c # cs) s = (case f c s of
     Inl e \<Rightarrow> ([], Some e)
   | Inr (x, s') \<Rightarrow> (case calls f cs s' of (xs, e) \<Rightarrow> (x # xs, e)))"

section \<open>Simulation\<close>

lemma fold_put_frame [simp]:
  "p_readopen (fold pipe_put cs p) = p_readopen p" "p_writeopen (fold pipe_put cs p) = p_writeopen p"
  by (induction cs arbitrary: p) simp_all

definition simulates :: "(pipe_answer, Pipe) m \<Rightarrow> (pipe_answer, queue) m \<Rightarrow> bool" where
  "simulates c a \<longleftrightarrow> (\<forall>p. pipe_ok p \<longrightarrow> (case c p of
     Inl e \<Rightarrow> a (queue_of p) = Inl e
   | Inr (x, p') \<Rightarrow> pipe_ok p' \<and> a (queue_of p) = Inr (x, queue_of p')))"

lemma simulates_send: "simulates (pipe_do (Send cs)) (queue_call (Send cs))"
proof -
  have "case pipe_do (Send cs) p of
     Inl e \<Rightarrow> queue_call (Send cs) (queue_of p) = Inl e
   | Inr (x, p') \<Rightarrow> pipe_ok p' \<and> queue_call (Send cs) (queue_of p) = Inr (x, queue_of p')" if ok: "pipe_ok p" for p
  proof (cases "p_readopen p")
    case True
    then show ?thesis
      using Pipe_write_loop_run[OF ok True, of 0 cs] pipe.put_all[OF ok, of cs]
      by (simp add: Pipe_write_def queue_of_def bnd_def)
  next
    case False
    then show ?thesis using ok
      by (cases cs) (simp_all add: Pipe_write_def bnd_def queue_of_def pipe_ok_def pipe_len_def)
  qed
  then show ?thesis unfolding simulates_def by blast
qed

lemma pipe_read_m_run:
  assumes ok: "pipe_ok p"
  shows "if n \<le> pipe_len p
    then \<exists>q. pipe_read_m n p = Inr (take n (pipe_contents p), q) \<and> pipe_ok q \<and>
      queue_of q = (queue_of p)\<lparr>q_bytes := drop n (pipe_contents p)\<rparr>
    else pipe_read_m n p = Inl Deadlock"
proof -
  obtain bs q where t: "pipe_take n p = (bs, q)" by fastforce
  note s = pipe_take_spec[OF ok t]
  consider "n = 0" | "0 < n" "pipe_empty p" | "0 < n" "\<not> pipe_empty p" by blast
  then show ?thesis
  proof cases
    case 1
    then show ?thesis using ok
      by (simp add: pipe_read_m_def Pipe_read_def numeral_2_eq_2 queue_of_def)
  next
    case 2
    then show ?thesis
      using Pipe_read_loop_empty[of p "[]" n "Suc 0"]
      by (simp add: pipe_read_m_def Pipe_read_def numeral_2_eq_2 pipe_empty_iff)
  next
    case 3
    then have "Pipe_read 2 n p = Pipe_read_loop 1 n bs q"
      using t by (simp add: Pipe_read_def numeral_2_eq_2)
    moreover have "Pipe_read_loop 1 n bs q = (if n \<le> pipe_len p then Some (Inr (bs, q))
        else if p_writeopen q then Some (Inl Deadlock) else None)"
      using s pipe_take_full[OF t] Pipe_read_loop_empty[of q bs n 0] by auto
    ultimately show ?thesis
      using s by (auto simp: pipe_read_m_def queue_of_def)
  qed
qed

lemma simulates_receive: "simulates (pipe_do (Receive n)) (queue_call (Receive n))"
proof -
  have "case pipe_do (Receive n) p of
     Inl e \<Rightarrow> queue_call (Receive n) (queue_of p) = Inl e
   | Inr (x, p') \<Rightarrow> pipe_ok p' \<and> queue_call (Receive n) (queue_of p) = Inr (x, queue_of p')" if ok: "pipe_ok p" for p
    using pipe_read_m_run[OF ok, of n]
    by (auto simp: bnd_def queue_of_def split: if_splits)
  then show ?thesis unfolding simulates_def by blast
qed

lemma simulates_hang_up: "simulates (pipe_do (Hang_up w)) (queue_call (Hang_up w))"
  by (auto simp: simulates_def Pipe_close_def bnd_def queue_of_def pipe_ok_def pipe_contents_def pipe_len_def)

lemma simulates_call: "simulates (pipe_do c) (queue_call c)"
  by (cases c) (simp_all only: simulates_send simulates_receive simulates_hang_up)

section \<open>Properties\<close>





end
