(* ===== verification/Open_Files.thy ===== *)
theory Open_Files
  imports Path_Names Pipe_Queue
begin

text \<open>
  \<open>src/File.cxx\<close>, \<open>src/FileTable.cxx\<close>, \<open>Pipe::alloc\<close> and \<open>src/Device.cxx\<close>: the table of open
  files and the operations on one open file. An \<open>OFile *\<close> is an index into the table, a \<open>Pipe *\<close> a
  number of the heap of pipes. \<open>new Pipe\<close> does not initialise its members: their values are a
  parameter. The standard input and output of the process are the ghost fields \<open>console_in\<close> and
  \<open>console_out\<close>; a device function pointer that is set is always one of \<open>Console\<close>.
\<close>

section \<open>State\<close>

abbreviation NFILE :: nat where "NFILE \<equiv> 100"
abbreviation NDEV :: nat where "NDEV \<equiv> 10"
abbreviation CONSOLE :: nat where "CONSOLE \<equiv> 1"

datatype FdType = FD_NONE | FD_PIPE | FD_INODE | FD_DEVICE

record OFile =
  f_type :: FdType
  f_pipe :: nat
  f_ip :: INodeKey
  f_off :: nat
  f_major :: u16
  f_readable :: bool
  f_writable :: bool
  f_ref :: u32

record Device =
  d_read :: bool
  d_write :: bool

record fs_state = inode_cache +
  files :: "OFile list"
  pipes :: "nat \<rightharpoonup> Pipe"
  next_pipe :: nat
  dev_table :: "Device list"
  console_in :: "byte list"
  console_out :: "byte list"

definition deref_file :: "nat \<Rightarrow> (OFile, 'a fs_state_scheme) m" where
  "deref_file f = (\<lambda>s. if f < length (files s) then Inr (files s ! f, s) else Inl Out_of_bounds)"

definition mod_file :: "nat \<Rightarrow> (OFile \<Rightarrow> OFile) \<Rightarrow> (unit, 'a fs_state_scheme) m" where
  "mod_file f g = bnd (deref_file f) (\<lambda>fl. modify (\<lambda>s. s\<lparr>files := (files s)[f := g fl]\<rparr>))"

text \<open>Running an operation of one pipe on the heap.\<close>

definition on_pipe :: "nat \<Rightarrow> ('b, Pipe) m \<Rightarrow> ('b, 'a fs_state_scheme) m" where
  "on_pipe h c = (\<lambda>s. case pipes s h of
     None \<Rightarrow> Inl Use_after_free
   | Some p \<Rightarrow> (case c p of
       Inl e \<Rightarrow> Inl e
     | Inr (x, q) \<Rightarrow> Inr (x, s\<lparr>pipes := (pipes s)(h \<mapsto> q)\<rparr>)))"

section \<open>Devices\<close>

definition Console_read :: "nat \<Rightarrow> (int \<times> byte list, 'a fs_state_scheme) m" where
  "Console_read n =
     bnd (gets (\<lambda>s. take n (console_in s))) (\<lambda>bs.
     bnd (modify (\<lambda>s. s\<lparr>console_in := drop n (console_in s)\<rparr>)) (\<lambda>_.
     ret (0, bs)))"

definition Console_write :: "byte list \<Rightarrow> (int, 'a fs_state_scheme) m" where
  "Console_write bs =
     bnd (modify (\<lambda>s. s\<lparr>console_out := console_out s @ bs\<rparr>)) (\<lambda>_. ret 0)"

definition Console_init :: "(unit, 'a fs_state_scheme) m" where
  "Console_init = modify (\<lambda>s. s\<lparr>dev_table := (dev_table s)[CONSOLE := \<lparr>d_read = True, d_write = True\<rparr>]\<rparr>)"

section \<open>The table of open files\<close>

definition ofile_alloc :: "(nat option, 'a fs_state_scheme) m" where
  "ofile_alloc =
     bnd (gets (\<lambda>s. find (\<lambda>i. f_type (files s ! i) = FD_NONE) [0..<length (files s)])) (\<lambda>r. case r of
       Some i \<Rightarrow> bnd (mod_file i (\<lambda>f. f\<lparr>f_ref := 1\<rparr>)) (\<lambda>_. ret (Some i))
     | None \<Rightarrow> ret None)"

definition ofile_dup :: "nat \<Rightarrow> (nat, 'a fs_state_scheme) m" where
  "ofile_dup f =
     bnd (deref_file f) (\<lambda>fl.
     bnd (assert_that ''ofile_dup'' (\<not> f_ref fl < 1)) (\<lambda>_.
     bnd (mod_file f (\<lambda>f. f\<lparr>f_ref := f_ref f + 1\<rparr>)) (\<lambda>_.
     ret f)))"

definition pipe_close_m :: "nat \<Rightarrow> bool \<Rightarrow> (unit, 'a fs_state_scheme) m" where
  "pipe_close_m h writable =
     bnd (on_pipe h (Pipe_close writable)) (\<lambda>gone.
     when_do gone (modify (\<lambda>s. s\<lparr>pipes := (pipes s)(h := None)\<rparr>)))"

definition ofile_close :: "nat \<Rightarrow> (unit, 'a fs_state_scheme) m" where
  "ofile_close f =
     bnd (deref_file f) (\<lambda>fl.
     bnd (assert_that ''ofile_close'' (\<not> f_ref fl < 1)) (\<lambda>_.
     bnd (mod_file f (\<lambda>f. f\<lparr>f_ref := f_ref f - 1\<rparr>)) (\<lambda>_.
     if f_ref fl - 1 > 0 then ret ()
     else
       bnd (deref_file f) (\<lambda>ff.
       bnd (mod_file f (\<lambda>f. f\<lparr>f_ref := 0, f_type := FD_NONE\<rparr>)) (\<lambda>_.
       case f_type ff of
         FD_PIPE \<Rightarrow> pipe_close_m (f_pipe ff) (f_writable ff)
       | FD_INODE \<Rightarrow> bnd begin_op (\<lambda>_. bnd (inode_put (f_ip ff)) (\<lambda>_. end_op))
       | FD_DEVICE \<Rightarrow> bnd begin_op (\<lambda>_. bnd (inode_put (f_ip ff)) (\<lambda>_. end_op))
       | FD_NONE \<Rightarrow> fail (Assert ''ofile_close''))))))"

text \<open>\<open>Pipe::alloc\<close>: the result, the write end and the read end.\<close>

definition Pipe_alloc :: "Pipe \<Rightarrow> (int \<times> nat option \<times> nat option, 'a fs_state_scheme) m" where
  "Pipe_alloc raw =
     bnd ofile_alloc (\<lambda>w. case w of
       None \<Rightarrow> ret (-1, None, None)
     | Some wr \<Rightarrow>
         bnd ofile_alloc (\<lambda>r. case r of
           None \<Rightarrow> bnd (ofile_close wr) (\<lambda>_. ret (-1, None, None))
         | Some rd \<Rightarrow>
             bnd (gets next_pipe) (\<lambda>h.
             bnd (modify (\<lambda>s. s\<lparr>pipes := (pipes s)(h \<mapsto> raw), next_pipe := Suc h\<rparr>)) (\<lambda>_.
             bnd (mod_file wr (\<lambda>f. f\<lparr>f_type := FD_PIPE, f_readable := False, f_writable := True, f_pipe := h\<rparr>)) (\<lambda>_.
             bnd (mod_file rd (\<lambda>f. f\<lparr>f_type := FD_PIPE, f_readable := True, f_writable := False, f_pipe := h\<rparr>)) (\<lambda>_.
             ret (0, Some wr, Some rd)))))))"

section \<open>Operations on an open file\<close>

definition OFile_stat :: "nat \<Rightarrow> (int \<times> Stat option, 'a fs_state_scheme) m" where
  "OFile_stat f =
     bnd (deref_file f) (\<lambda>fl.
     if f_type fl = FD_INODE \<or> f_type fl = FD_DEVICE then
       bnd (INode_lock (f_ip fl)) (\<lambda>_.
       bnd (INode_stat (f_ip fl)) (\<lambda>st.
       bnd (INode_unlock (f_ip fl)) (\<lambda>_.
       ret (0, Some st))))
     else ret (-1, None))"

definition dev_entry :: "u16 \<Rightarrow> 'a fs_state_scheme \<Rightarrow> Device option" where
  "dev_entry major s = (if unat major < NDEV then Some (dev_table s ! unat major) else None)"

text \<open>\<open>OFile::read\<close>: the result and the bytes stored in the buffer.\<close>

definition OFile_read :: "nat \<Rightarrow> nat \<Rightarrow> (int \<times> byte list, 'a fs_state_scheme) m" where
  "OFile_read f n =
     bnd (deref_file f) (\<lambda>fl.
     if \<not> f_readable fl then ret (-1, [])
     else case f_type fl of
       FD_PIPE \<Rightarrow>
         bnd (on_pipe (f_pipe fl) (pipe_read_m n)) (\<lambda>bs. ret (int (length bs), bs))
     | FD_DEVICE \<Rightarrow>
         bnd (gets (dev_entry (f_major fl))) (\<lambda>d. case d of
           None \<Rightarrow> ret (-1, [])
         | Some d \<Rightarrow> if d_read d then Console_read n else ret (-1, []))
     | FD_INODE \<Rightarrow>
         bnd (INode_lock (f_ip fl)) (\<lambda>_.
         bnd (INode_read (f_ip fl) (f_off fl) n) (\<lambda>bs.
         bnd (when_do (length bs > 0) (mod_file f (\<lambda>f. f\<lparr>f_off := f_off f + length bs\<rparr>))) (\<lambda>_.
         bnd (INode_unlock (f_ip fl)) (\<lambda>_.
         ret (int (length bs), bs)))))
     | FD_NONE \<Rightarrow> fail (Assert ''ofile read''))"

text \<open>
  The loop of \<open>OFile::write\<close>: at most three blocks per transaction. \<open>r\<close> is unsigned, so the offset
  also advances when \<open>INode::write\<close> returned \<open>-1\<close>. The loop returns \<open>i\<close>.
\<close>

abbreviation WRITE_MAX :: nat where "WRITE_MAX \<equiv> ((MAX_OP_BLOCKS - 1 - 1 - 2) div 2) * BSIZE"

function OFile_write_loop :: "nat \<Rightarrow> INodeKey \<Rightarrow> byte list \<Rightarrow> nat \<Rightarrow> (nat, 'a fs_state_scheme) m" where
  "OFile_write_loop f ip addr i =
     (if i < length addr then
        let n1 = min (length addr - i) WRITE_MAX in
        bnd begin_op (\<lambda>_.
        bnd (INode_lock ip) (\<lambda>_.
        bnd (deref_file f) (\<lambda>fl.
        bnd (INode_write ip (take n1 (drop i addr)) (f_off fl)) (\<lambda>r.
        bnd (when_do (r > 0) (mod_file f (\<lambda>f. f\<lparr>f_off := f_off f + unat r\<rparr>))) (\<lambda>_.
        bnd (INode_unlock ip) (\<lambda>_.
        bnd end_op (\<lambda>_.
        if r \<noteq> of_nat n1 then ret i
        else OFile_write_loop f ip addr (i + n1))))))))
      else ret i)"
  by pat_completeness auto
termination
  by (relation "measure (\<lambda>(f, ip, addr, i). length addr - i)") auto

declare OFile_write_loop.simps [simp del]

definition OFile_write :: "nat \<Rightarrow> byte list \<Rightarrow> (int, 'a fs_state_scheme) m" where
  "OFile_write f addr =
     bnd (deref_file f) (\<lambda>fl.
     if \<not> f_readable fl then ret (-1)
     else case f_type fl of
       FD_PIPE \<Rightarrow> on_pipe (f_pipe fl) (Pipe_write addr)
     | FD_DEVICE \<Rightarrow>
         bnd (gets (dev_entry (f_major fl))) (\<lambda>d. case d of
           None \<Rightarrow> ret (-1)
         | Some d \<Rightarrow> if d_write d then Console_write addr else ret (-1))
     | FD_INODE \<Rightarrow>
         bnd (OFile_write_loop f (f_ip fl) addr 0) (\<lambda>i.
         ret (if i = length addr then int (length addr) else -1))
     | FD_NONE \<Rightarrow> fail (Assert ''ofile write''))"

end
