(* ===== verification/Namespace.thy ===== *)
theory Namespace
  imports Open_Files
begin

text \<open>
  The operations on the name space: \<open>create\<close> and \<open>do_open\<close> of \<open>src/op_open.cxx\<close>, \<open>do_link\<close> of
  \<open>src/op_link.cxx\<close>, \<open>do_unlink\<close> of \<open>src/op_unlink.cxx\<close> and the two cases of \<open>src/op_rename.cxx\<close>.

  The bits of \<open>fcntl.h\<close> and the codes of \<open>errno.h\<close> are those of Linux. A C string literal is its
  bytes and the terminator. \<open>std::filesystem::path\<close> is a string; \<open>parent_path\<close> and \<open>filename\<close> follow the
  POSIX grammar of the C++ library.
\<close>

section \<open>Constants of the platform\<close>

abbreviation O_RDONLY :: u32 where "O_RDONLY \<equiv> 0"
abbreviation O_WRONLY :: u32 where "O_WRONLY \<equiv> 1"
abbreviation O_RDWR :: u32 where "O_RDWR \<equiv> 2"
abbreviation O_ACCMODE :: u32 where "O_ACCMODE \<equiv> 3"
abbreviation O_CREAT :: u32 where "O_CREAT \<equiv> 64"
abbreviation O_TRUNC :: u32 where "O_TRUNC \<equiv> 512"
abbreviation O_DIRECTORY :: u32 where "O_DIRECTORY \<equiv> 65536"

abbreviation ENOENT :: int where "ENOENT \<equiv> 2"
abbreviation EIO :: int where "EIO \<equiv> 5"
abbreviation ENOMEM :: int where "ENOMEM \<equiv> 12"
abbreviation ENOTDIR :: int where "ENOTDIR \<equiv> 20"
abbreviation EINVAL :: int where "EINVAL \<equiv> 22"

definition flag :: "u32 \<Rightarrow> u32 \<Rightarrow> bool" where
  "flag omode mask_bits = (omode AND mask_bits \<noteq> 0)"

definition c_str :: "byte list \<Rightarrow> byte list" where
  "c_str s = s @ [0]"

section \<open>Creating and opening\<close>

text \<open>\<open>create\<close>: undo a creation whose links could not be written.\<close>

definition create_clean_up :: "INodeKey \<Rightarrow> INodeKey \<Rightarrow> (INodeKey option, 'a inode_cache_scheme) m" where
  "create_clean_up ip dp =
     bnd (set_dinode ip (\<lambda>di. di\<lparr>di_nlink := 0\<rparr>)) (\<lambda>_.
     bnd (INode_update ip) (\<lambda>_.
     bnd (inode_unlock_put ip) (\<lambda>_.
     bnd (inode_unlock_put dp) (\<lambda>_.
     ret None))))"

text \<open>The links \<open>.\<close> and \<open>..\<close> of a new directory; whether both were written.\<close>

definition create_dots :: "INodeKey \<Rightarrow> INodeKey \<Rightarrow> (bool, 'a inode_cache_scheme) m" where
  "create_dots ip dp =
     bnd (dirlink ip (c_str (cstr ''.'')) (snd ip)) (\<lambda>r.
     if r < 0 then ret False
     else
       bnd (dirlink ip (c_str (cstr ''..'')) (snd dp)) (\<lambda>r.
       ret (\<not> r < 0)))"

definition create :: "byte list \<Rightarrow> FileType \<Rightarrow> u16 \<Rightarrow> u16 \<Rightarrow> (INodeKey option, 'a inode_cache_scheme) m" where
  "create path type major minor =
     bnd (assert_that ''create type'' (type = T_FILE \<or> type = T_DIR)) (\<lambda>_.
     bnd (inode_name_parent path) (\<lambda>(dp, name).
     case dp of
       None \<Rightarrow> ret None
     | Some dp \<Rightarrow>
         bnd (INode_lock dp) (\<lambda>_.
         bnd (dirlookup dp name) (\<lambda>found.
         case found of
           Some (ip, _) \<Rightarrow>
             bnd (inode_unlock_put dp) (\<lambda>_.
             bnd (INode_lock ip) (\<lambda>_.
             bnd (dinode ip) (\<lambda>di.
             if type = T_FILE \<and> (di_type di = T_FILE \<or> di_type di = T_DEVICE) then ret (Some ip)
             else bnd (inode_unlock_put ip) (\<lambda>_. ret None))))
         | None \<Rightarrow>
             bnd (inode_alloc (fst dp) type) (\<lambda>a.
             case a of
               None \<Rightarrow> bnd (inode_unlock_put dp) (\<lambda>_. ret None)
             | Some ip \<Rightarrow>
                 bnd (INode_lock ip) (\<lambda>_.
                 bnd (set_dinode ip (\<lambda>di. di\<lparr>di_major := major, di_minor := minor, di_nlink := 1\<rparr>)) (\<lambda>_.
                 bnd (INode_update ip) (\<lambda>_.
                 bnd (if type = T_DIR then create_dots ip dp else ret True) (\<lambda>dots.
                 if \<not> dots then create_clean_up ip dp
                 else
                   bnd (dirlink dp name (snd ip)) (\<lambda>r.
                   if r < 0 then create_clean_up ip dp
                   else
                     bnd (when_do (type = T_DIR)
                       (bnd (set_dinode dp (\<lambda>di. di\<lparr>di_nlink := di_nlink di + 1\<rparr>)) (\<lambda>_.
                        INode_update dp))) (\<lambda>_.
                     bnd (inode_unlock_put dp) (\<lambda>_.
                     ret (Some ip)))))))))))))"

text \<open>
  The members of an open file that \<open>do_open\<close> and \<open>op_create\<close> set from the flags. A device is opened
  only by \<open>do_open\<close>.
\<close>

definition open_file :: "INodeKey \<Rightarrow> u32 \<Rightarrow> OFile \<Rightarrow> OFile" where
  "open_file ip omode f = f\<lparr>f_ip := ip, f_readable := \<not> flag omode O_WRONLY,
     f_writable := flag omode O_WRONLY \<or> flag omode O_RDWR\<rparr>"

definition inode_open :: "INodeKey \<Rightarrow> u32 \<Rightarrow> (nat option, 'a fs_state_scheme) m" where
  "inode_open ip omode =
     bnd ofile_alloc (\<lambda>f. case f of
       None \<Rightarrow>
         bnd (inode_unlock_put ip) (\<lambda>_.
         bnd end_op (\<lambda>_.
         ret None))
     | Some f \<Rightarrow>
         bnd (dinode ip) (\<lambda>di.
         bnd (mod_file f (\<lambda>fl. if di_type di = T_DEVICE
           then fl\<lparr>f_type := FD_DEVICE, f_major := di_major di\<rparr>
           else fl\<lparr>f_type := FD_INODE, f_off := 0\<rparr>)) (\<lambda>_.
         bnd (mod_file f (open_file ip omode)) (\<lambda>_.
         bnd (when_do (flag omode O_TRUNC \<and> di_type di = T_FILE) (INode_trunc ip)) (\<lambda>_.
         bnd (INode_unlock ip) (\<lambda>_.
         bnd end_op (\<lambda>_.
         ret (Some f))))))))"

definition do_open :: "byte list \<Rightarrow> u32 \<Rightarrow> (nat option, 'a fs_state_scheme) m" where
  "do_open path omode =
     bnd begin_op (\<lambda>_.
     if flag omode O_CREAT then
       bnd (create path T_FILE 0 0) (\<lambda>ip. case ip of
         None \<Rightarrow> bnd end_op (\<lambda>_. ret None)
       | Some ip \<Rightarrow> inode_open ip omode)
     else
       bnd (inode_name path) (\<lambda>ip. case ip of
         None \<Rightarrow> bnd end_op (\<lambda>_. ret None)
       | Some ip \<Rightarrow>
           bnd (INode_lock ip) (\<lambda>_.
           bnd (dinode ip) (\<lambda>di.
           if di_type di = T_DIR \<and> omode AND O_ACCMODE \<noteq> O_RDONLY \<and> flag omode O_TRUNC \<and>
              \<not> flag omode O_DIRECTORY
           then
             bnd (inode_unlock_put ip) (\<lambda>_.
             bnd end_op (\<lambda>_.
             ret None))
           else inode_open ip omode))))"

section \<open>Links\<close>

text \<open>\<open>do_link\<close>: take the link count back.\<close>

definition link_undo :: "INodeKey \<Rightarrow> (int, 'a inode_cache_scheme) m" where
  "link_undo ip =
     bnd (INode_lock ip) (\<lambda>_.
     bnd (set_dinode ip (\<lambda>di. di\<lparr>di_nlink := di_nlink di - 1\<rparr>)) (\<lambda>_.
     bnd (INode_update ip) (\<lambda>_.
     bnd (inode_unlock_put ip) (\<lambda>_.
     bnd end_op (\<lambda>_.
     ret (-1))))))"

definition do_link :: "byte list \<Rightarrow> byte list \<Rightarrow> (int, 'a inode_cache_scheme) m" where
  "do_link source dest =
     bnd begin_op (\<lambda>_.
     bnd (inode_name source) (\<lambda>ip. case ip of
       None \<Rightarrow> bnd end_op (\<lambda>_. ret (-1))
     | Some ip \<Rightarrow>
         bnd (INode_lock ip) (\<lambda>_.
         bnd (dinode ip) (\<lambda>di.
         if di_type di = T_DIR then
           bnd (inode_unlock_put ip) (\<lambda>_.
           bnd end_op (\<lambda>_.
           ret (-1)))
         else
           bnd (set_dinode ip (\<lambda>di. di\<lparr>di_nlink := di_nlink di + 1\<rparr>)) (\<lambda>_.
           bnd (INode_unlock ip) (\<lambda>_.
           bnd (INode_unlock ip) (\<lambda>_.
           bnd (inode_name_parent dest) (\<lambda>(dp, name). case dp of
             None \<Rightarrow> link_undo ip
           | Some dp \<Rightarrow>
               bnd (INode_lock dp) (\<lambda>_.
               bnd (if fst dp \<noteq> fst ip then ret (-1) else dirlink dp name (snd ip)) (\<lambda>r.
               if r < 0 then
                 bnd (inode_unlock_put dp) (\<lambda>_.
                 link_undo ip)
               else
                 bnd (inode_unlock_put dp) (\<lambda>_.
                 bnd (inode_put ip) (\<lambda>_.
                 bnd end_op (\<lambda>_.
                 ret 0)))))))))))))"

function is_dir_empty_loop :: "INodeKey \<Rightarrow> nat \<Rightarrow> nat \<Rightarrow> (bool, 'a inode_cache_scheme) m" where
  "is_dir_empty_loop dp sz off =
     (if off < sz then
        bnd (INode_read dp off sizeof_DirEntry) (\<lambda>bs.
        bnd (assert_that ''isdirempty: readi'' (length bs = sizeof_DirEntry)) (\<lambda>_.
        if de_inum (dirent_of bs) \<noteq> 0 then ret False
        else is_dir_empty_loop dp sz (off + sizeof_DirEntry)))
      else ret True)"
  by pat_completeness auto
termination
  by (relation "measure (\<lambda>(dp, sz, off). sz - off)") auto

declare is_dir_empty_loop.simps [simp del]

definition is_dir_empty :: "INodeKey \<Rightarrow> (bool, 'a inode_cache_scheme) m" where
  "is_dir_empty dp =
     bnd (dinode dp) (\<lambda>di. is_dir_empty_loop dp (unat (di_size di)) (2 * sizeof_DirEntry))"

definition zero_dirent :: "DirEntry" where
  "zero_dirent = \<lparr>de_inum = 0, de_name = replicate DIRSIZ 0\<rparr>"

text \<open>The checks of a name against \<open>.\<close> and \<open>..\<close>.\<close>

definition dot_name :: "byte list \<Rightarrow> (bool, 's) m" where
  "dot_name name = (case strcmp_eq name (c_str (cstr ''.'')) of
     None \<Rightarrow> fail Out_of_bounds
   | Some True \<Rightarrow> ret True
   | Some False \<Rightarrow> (case strcmp_eq name (c_str (cstr ''..'')) of
       None \<Rightarrow> fail Out_of_bounds
     | Some b \<Rightarrow> ret b))"

definition do_unlink :: "byte list \<Rightarrow> (int, 'a inode_cache_scheme) m" where
  "do_unlink path =
     bnd begin_op (\<lambda>_.
     bnd (inode_name_parent path) (\<lambda>(dp, basename). case dp of
       None \<Rightarrow> bnd end_op (\<lambda>_. ret (-1))
     | Some dp \<Rightarrow>
         bnd (dot_name basename) (\<lambda>dot.
         if dot then
           bnd (inode_unlock_put dp) (\<lambda>_.
           bnd end_op (\<lambda>_.
           ret (-1)))
         else
           bnd (dirlookup dp basename) (\<lambda>found. case found of
             None \<Rightarrow>
               bnd (inode_unlock_put dp) (\<lambda>_.
               bnd end_op (\<lambda>_.
               ret (-1)))
           | Some (ip, off) \<Rightarrow>
               bnd (INode_lock ip) (\<lambda>_.
               bnd (dinode ip) (\<lambda>di.
               bnd (assert_that ''unlink: nlink'' (di_nlink di \<ge> 1)) (\<lambda>_.
               bnd (if di_type di = T_DIR then is_dir_empty ip else ret True) (\<lambda>empty.
               if \<not> empty then
                 bnd (inode_unlock_put ip) (\<lambda>_.
                 bnd (inode_unlock_put dp) (\<lambda>_.
                 bnd end_op (\<lambda>_.
                 ret (-1))))
               else
                 bnd (INode_write dp (dirent_bytes zero_dirent) off) (\<lambda>r.
                 bnd (assert_that ''unlink: writei'' (r = of_nat sizeof_DirEntry)) (\<lambda>_.
                 bnd (when_do (di_type di = T_DIR)
                   (bnd (set_dinode dp (\<lambda>di. di\<lparr>di_nlink := di_nlink di - 1\<rparr>)) (\<lambda>_.
                    INode_update dp))) (\<lambda>_.
                 bnd (inode_unlock_put dp) (\<lambda>_.
                 bnd (set_dinode ip (\<lambda>di. di\<lparr>di_nlink := di_nlink di - 1\<rparr>)) (\<lambda>_.
                 bnd (INode_update ip) (\<lambda>_.
                 bnd (inode_unlock_put ip) (\<lambda>_.
                 bnd end_op (\<lambda>_.
                 ret 0))))))))))))))))"

section \<open>Renaming\<close>

definition filename :: "byte list \<Rightarrow> byte list" where
  "filename p = rev (takeWhile (\<lambda>c. c \<noteq> slash) (rev p))"

definition parent_path :: "byte list \<Rightarrow> byte list" where
  "parent_path p =
     (if list_all (\<lambda>c. c = slash) p then p
      else let d = rev (dropWhile (\<lambda>c. c \<noteq> slash) (rev p));
               q = rev (dropWhile (\<lambda>c. c = slash) (rev d))
           in if q = [] then d else q)"

text \<open>Equality of two paths is equality of their elements; no parent path ends in a slash.\<close>

definition path_eq :: "byte list \<Rightarrow> byte list \<Rightarrow> bool" where
  "path_eq p q \<longleftrightarrow> take 1 p = [slash] \<and> take 1 q = [slash] \<and> elements p = elements q \<or>
     take 1 p \<noteq> [slash] \<and> take 1 q \<noteq> [slash] \<and> elements p = elements q"

definition same_parent :: "byte list \<Rightarrow> byte list \<Rightarrow> (int, 'a inode_cache_scheme) m" where
  "same_parent source dest =
     bnd begin_op (\<lambda>_.
     bnd (inode_name (parent_path source)) (\<lambda>dp. case dp of
       None \<Rightarrow> bnd end_op (\<lambda>_. ret (- ENOENT))
     | Some dp \<Rightarrow>
         bnd (dinode dp) (\<lambda>di.
         if di_type di \<noteq> T_DIR then bnd end_op (\<lambda>_. ret (- ENOTDIR))
         else
           bnd (dirlookup dp (c_str (filename source))) (\<lambda>found. case found of
             None \<Rightarrow>
               bnd (inode_unlock_put dp) (\<lambda>_.
               bnd end_op (\<lambda>_.
               ret (- ENOENT)))
           | Some (ip, off) \<Rightarrow>
               (case strncpy (c_str (filename dest)) DIRSIZ of
                 None \<Rightarrow> fail Out_of_bounds
               | Some nm \<Rightarrow>
                   bnd (INode_write dp (dirent_bytes \<lparr>de_inum = ucast (snd ip), de_name = nm\<rparr>) off) (\<lambda>n.
                   if n \<noteq> of_nat sizeof_DirEntry then
                     bnd (inode_unlock_put ip) (\<lambda>_.
                     bnd (inode_unlock_put dp) (\<lambda>_.
                     bnd end_op (\<lambda>_.
                     ret (- EIO))))
                   else
                     bnd (INode_update dp) (\<lambda>_.
                     bnd (inode_unlock_put ip) (\<lambda>_.
                     bnd (inode_unlock_put dp) (\<lambda>_.
                     bnd end_op (\<lambda>_.
                     ret 0))))))))))"

text \<open>
  \<open>different_parent\<close>. The lookup found an entry and \<open>dirlink\<close> wrote one, so neither size is below
  that of an entry where it is subtracted.
\<close>

definition put_parents :: "INodeKey \<Rightarrow> INodeKey \<Rightarrow> int \<Rightarrow> (int, 'a inode_cache_scheme) m" where
  "put_parents dp_src dp_dest r =
     bnd (inode_unlock_put dp_src) (\<lambda>_.
     bnd (inode_unlock_put dp_dest) (\<lambda>_.
     bnd end_op (\<lambda>_.
     ret r)))"

definition move_entry :: "INodeKey \<Rightarrow> nat \<Rightarrow> INodeKey \<Rightarrow> INodeKey \<Rightarrow> (int, 'a inode_cache_scheme) m" where
  "move_entry dp_src off dp_dest ip =
     bnd (dinode dp_src) (\<lambda>di.
     bnd (INode_read dp_src (unat (di_size di) - sizeof_DirEntry) sizeof_DirEntry) (\<lambda>bs.
     if length bs \<noteq> sizeof_DirEntry then
       bnd (dinode dp_dest) (\<lambda>dd.
       bnd (INode_write dp_dest (dirent_bytes zero_dirent) (unat (di_size dd) - sizeof_DirEntry)) (\<lambda>_.
       bnd (INode_update dp_dest) (\<lambda>_.
       bnd (inode_unlock_put ip) (\<lambda>_.
       put_parents dp_src dp_dest (- EIO)))))
     else
       bnd (INode_write dp_src bs off) (\<lambda>_.
       bnd (INode_update dp_src) (\<lambda>_.
       bnd (inode_put ip) (\<lambda>_.
       put_parents dp_src dp_dest 0)))))"

definition different_parent :: "byte list \<Rightarrow> byte list \<Rightarrow> (int, 'a inode_cache_scheme) m" where
  "different_parent source dest =
     bnd begin_op (\<lambda>_.
     bnd (inode_name (parent_path source)) (\<lambda>s. case s of
       None \<Rightarrow> bnd end_op (\<lambda>_. ret (- ENOENT))
     | Some dp_src \<Rightarrow>
         bnd (dinode dp_src) (\<lambda>di.
         if di_type di \<noteq> T_DIR then bnd end_op (\<lambda>_. ret (- ENOENT))
         else
           bnd (inode_name (parent_path dest)) (\<lambda>d. case d of
             None \<Rightarrow>
               bnd (inode_unlock_put dp_src) (\<lambda>_.
               bnd end_op (\<lambda>_.
               ret (- ENOENT)))
           | Some dp_dest \<Rightarrow>
               bnd (dinode dp_dest) (\<lambda>dd.
               if di_type dd \<noteq> T_DIR then
                 bnd (inode_unlock_put dp_src) (\<lambda>_.
                 bnd end_op (\<lambda>_.
                 ret (- ENOENT)))
               else
                 bnd (dirlookup dp_src (c_str (filename source))) (\<lambda>found. case found of
                   None \<Rightarrow> put_parents dp_src dp_dest (- ENOENT)
                 | Some (ip, off) \<Rightarrow>
                     bnd (dirlink dp_dest (c_str (filename dest)) (snd ip)) (\<lambda>r.
                     if r < 0 then
                       bnd (inode_unlock_put ip) (\<lambda>_.
                       put_parents dp_src dp_dest (- EIO))
                     else
                       bnd (INode_update dp_dest) (\<lambda>_.
                       move_entry dp_src off dp_dest ip))))))))"

definition op_rename :: "byte list \<Rightarrow> byte list \<Rightarrow> (int, 'a inode_cache_scheme) m" where
  "op_rename source dest =
     (if path_eq (parent_path source) (parent_path dest) then same_parent source dest
      else different_parent source dest)"

end
