(* ===== verification/Fuse_Handlers.thy ===== *)
theory Fuse_Handlers
  imports Namespace "HOL-Library.Product_Lexorder"
begin

text \<open>
  The handlers that \<open>src/main.cxx\<close> registers with FUSE, one definition per \<open>src/op_*.cxx\<close>, the table
  itself and the start of the process. A handler returns its result code and what it stored for the
  caller. A file handle \<open>fi->fh\<close> is an index into the table of open files or null (\<open>None\<close>).
  Offsets that FUSE passes are not negative. The calls of the logger have no effect on the file
  system and are left out; the \<open>filler\<close> of \<open>op_readdir\<close> belongs to FUSE and is a parameter.
\<close>

section \<open>File attributes\<close>

abbreviation S_IFDIR :: u32 where "S_IFDIR \<equiv> 0x4000"
abbreviation S_IFREG :: u32 where "S_IFREG \<equiv> 0x8000"
abbreviation ACCESSPERMS :: u32 where "ACCESSPERMS \<equiv> 0x1FF"

text \<open>The members of \<open>struct stat\<close> that are set; the others are cleared.\<close>

record c_stat =
  c_ino :: u32
  c_mode :: u32
  c_nlink :: u16
  c_size :: u32
  c_blocks :: u32

definition do_fillstatbuf :: "INodeKey \<Rightarrow> (c_stat, 'a inode_cache_scheme) m" where
  "do_fillstatbuf ino =
     bnd (dinode ino) (\<lambda>di.
     bnd (if di_type di = T_DIR then ret (S_IFDIR OR ACCESSPERMS)
          else if di_type di = T_FILE then ret (S_IFREG OR ACCESSPERMS)
          else fail Abort) (\<lambda>mode.
     ret \<lparr>c_ino = snd ino, c_mode = mode, c_nlink = di_nlink di, c_size = di_size di,
       c_blocks = (di_size di + of_nat BSIZE - 1) div of_nat BSIZE\<rparr>))"

definition op_fgetattr :: "nat option \<Rightarrow> (int \<times> c_stat option, 'a fs_state_scheme) m" where
  "op_fgetattr fh = (case fh of
     None \<Rightarrow> ret (- ENOENT, None)
   | Some f \<Rightarrow>
       bnd (deref_file f) (\<lambda>fl.
       bnd (do_fillstatbuf (f_ip fl)) (\<lambda>st.
       ret (0, Some st))))"

definition op_getattr :: "byte list \<Rightarrow> (int \<times> c_stat option, 'a fs_state_scheme) m" where
  "op_getattr path =
     bnd (do_open path O_RDONLY) (\<lambda>file. case file of
       None \<Rightarrow> ret (- ENOENT, None)
     | Some f \<Rightarrow>
         bnd (deref_file f) (\<lambda>fl.
         bnd (do_fillstatbuf (f_ip fl)) (\<lambda>st.
         bnd (ofile_close f) (\<lambda>_.
         ret (0, Some st)))))"

section \<open>Files\<close>

text \<open>The results are the code and the file handle stored in \<open>fi->fh\<close>.\<close>

definition op_open :: "byte list \<Rightarrow> u32 \<Rightarrow> (int \<times> nat option, 'a fs_state_scheme) m" where
  "op_open path flags =
     bnd (do_open path flags) (\<lambda>file. case file of
       None \<Rightarrow> ret (- ENOENT, None)
     | Some f \<Rightarrow> ret (0, Some f))"

definition op_create :: "byte list \<Rightarrow> u32 \<Rightarrow> (int \<times> nat option, 'a fs_state_scheme) m" where
  "op_create path omode =
     bnd begin_op (\<lambda>_.
     bnd (create path T_FILE 0 0) (\<lambda>ip. case ip of
       None \<Rightarrow> bnd end_op (\<lambda>_. ret (- EIO, None))
     | Some ip \<Rightarrow>
         bnd ofile_alloc (\<lambda>fp. case fp of
           None \<Rightarrow>
             bnd (inode_unlock_put ip) (\<lambda>_.
             bnd end_op (\<lambda>_.
             ret (- EIO, None)))
         | Some fp \<Rightarrow>
             bnd (mod_file fp (\<lambda>f. open_file ip omode (f\<lparr>f_type := FD_INODE, f_off := 0\<rparr>))) (\<lambda>_.
             bnd (dinode ip) (\<lambda>di.
             bnd (when_do (flag omode O_TRUNC \<and> di_type di = T_FILE) (INode_trunc ip)) (\<lambda>_.
             bnd (INode_unlock ip) (\<lambda>_.
             bnd end_op (\<lambda>_.
             ret (0, Some fp)))))))))"

text \<open>A \<open>size_t\<close> as the \<open>uint32_t\<close> and as the \<open>int\<close> it is converted to.\<close>

definition to_u32 :: "nat \<Rightarrow> nat" where
  "to_u32 n = unat (of_nat n :: u32)"

definition to_int :: "nat \<Rightarrow> int" where
  "to_int n = sint (of_nat n :: u32)"

text \<open>\<open>op_read\<close>: the code and the bytes stored in the buffer.\<close>

definition op_read :: "nat option \<Rightarrow> nat \<Rightarrow> nat \<Rightarrow> (int \<times> byte list, 'a fs_state_scheme) m" where
  "op_read fh sz offset = (case fh of
     None \<Rightarrow> ret (- ENOENT, [])
   | Some fp \<Rightarrow>
       bnd (deref_file fp) (\<lambda>fl.
       bnd (dinode (f_ip fl)) (\<lambda>di.
       if offset > unat (di_size di) then ret (0, [])
       else
         bnd (mod_file fp (\<lambda>f. f\<lparr>f_off := offset\<rparr>)) (\<lambda>_.
         bnd (OFile_read fp (to_u32 sz)) (\<lambda>(_, bs).
         ret (to_int sz, bs))))))"

definition op_write :: "nat option \<Rightarrow> byte list \<Rightarrow> nat \<Rightarrow> (int, 'a fs_state_scheme) m" where
  "op_write fh buf offset = (case fh of
     None \<Rightarrow> ret (- ENOENT)
   | Some fp \<Rightarrow>
       bnd (deref_file fp) (\<lambda>fl.
       bnd (dinode (f_ip fl)) (\<lambda>di.
       if offset > unat (di_size di) then ret (-1)
       else OFile_write fp (take (to_u32 (length buf)) buf))))"

definition op_release :: "nat option \<Rightarrow> (int, 'a fs_state_scheme) m" where
  "op_release fh = (case fh of
     None \<Rightarrow> ret (- ENOENT)
   | Some fp \<Rightarrow> bnd (ofile_close fp) (\<lambda>_. ret 0))"

text \<open>
  \<open>op_truncate\<close>: the size becomes a multiple of the block size; no block is allocated or freed. The
  old number of blocks is computed and not used.
\<close>

definition op_truncate :: "byte list \<Rightarrow> nat \<Rightarrow> (int, 'a fs_state_scheme) m" where
  "op_truncate path len =
     bnd (do_open path O_RDWR) (\<lambda>file. case file of
       None \<Rightarrow> ret (- ENOENT)
     | Some f \<Rightarrow>
         bnd (deref_file f) (\<lambda>fl.
         let ip = f_ip fl; n_block_new = of_nat ((len + BSIZE - 1) div BSIZE) :: u32 in
         bnd begin_op (\<lambda>_.
         bnd (INode_lock ip) (\<lambda>_.
         bnd (set_dinode ip (\<lambda>di. di\<lparr>di_size := n_block_new * of_nat BSIZE\<rparr>)) (\<lambda>_.
         bnd (INode_update ip) (\<lambda>_.
         bnd (INode_unlock ip) (\<lambda>_.
         bnd end_op (\<lambda>_.
         bnd (ofile_close f) (\<lambda>_.
         ret 0)))))))))"

definition op_chown :: "byte list \<Rightarrow> (int, 'a fs_state_scheme) m" where
  "op_chown path =
     bnd (do_open path O_RDWR) (\<lambda>file. case file of
       None \<Rightarrow> ret (- ENOENT)
     | Some f \<Rightarrow> bnd (ofile_close f) (\<lambda>_. ret 0))"

text \<open>\<open>op_flush\<close>: the loop runs over the inode cache in the order of its keys.\<close>

definition flush_step :: "INodeKey \<Rightarrow> (unit, 'a inode_cache_scheme) m" where
  "flush_step ip =
     bnd begin_op (\<lambda>_.
     bnd (INode_lock ip) (\<lambda>_.
     bnd (INode_update ip) (\<lambda>_.
     bnd (INode_unlock ip) (\<lambda>_.
     end_op))))"

definition op_flush :: "(int, 'a inode_cache_scheme) m" where
  "op_flush =
     bnd (gets (\<lambda>s. sorted_list_of_set (dom (inodes s)))) (\<lambda>ks.
     bnd (for_each ks flush_step) (\<lambda>_.
     bnd write_log (\<lambda>_.
     bnd write_head (\<lambda>_.
     ret 0))))"

section \<open>Directories\<close>

definition op_mkdir :: "byte list \<Rightarrow> (int, 'a inode_cache_scheme) m" where
  "op_mkdir path =
     bnd begin_op (\<lambda>_.
     bnd (create path T_DIR 0 0) (\<lambda>ip. case ip of
       None \<Rightarrow> fail Null_deref
     | Some ip \<Rightarrow>
         bnd (inode_unlock_put ip) (\<lambda>_.
         bnd end_op (\<lambda>_.
         ret 0))))"

definition op_mknod :: "(int, 'a log_state_scheme) m" where
  "op_mknod = bnd begin_op (\<lambda>_. bnd end_op (\<lambda>_. ret 0))"

definition op_link :: "byte list \<Rightarrow> byte list \<Rightarrow> (int, 'a inode_cache_scheme) m" where
  "op_link source dest = do_link source dest"

definition op_unlink :: "byte list \<Rightarrow> (int, 'a inode_cache_scheme) m" where
  "op_unlink path = do_unlink path"

lemma unat_u32: "unat (w :: u32) < 4294967296"
  using unsigned_less[of w] by simp

text \<open>
  \<open>op_readdir\<close>. \<open>filler\<close> takes the buffer of the caller, a name (the bytes of the entry from the
  name on), the attributes and the offset of the next entry; it returns its code and the buffer.
  \<open>fp->read\<close> may fill less than the entry, which was cleared before. The loop reads the size of the
  directory in each turn; it is below \<open>2 ^ 32\<close>, so the loop ends.
\<close>

function readdir_loop :: "('b \<Rightarrow> byte list \<Rightarrow> c_stat \<Rightarrow> nat \<Rightarrow> int \<times> 'b) \<Rightarrow> nat \<Rightarrow> 'b \<Rightarrow> nat \<Rightarrow>
    (int \<times> 'b, 'a fs_state_scheme) m" where
  "readdir_loop filler fp buf i =
     bnd (deref_file fp) (\<lambda>fl.
     bnd (dinode (f_ip fl)) (\<lambda>di.
     if i < unat (di_size di) then
       bnd (OFile_read fp sizeof_DirEntry) (\<lambda>(_, bs).
       let de = dirent_of (bs @ replicate (sizeof_DirEntry - length bs) 0) in
       if de_inum de = 0 then readdir_loop filler fp buf (i + sizeof_DirEntry)
       else
         bnd (inode_get (fst (f_ip fl)) (ucast (de_inum de))) (\<lambda>de_ip.
         bnd (INode_lock de_ip) (\<lambda>_.
         bnd (do_fillstatbuf de_ip) (\<lambda>st.
         bnd (inode_unlock_put de_ip) (\<lambda>_.
         case filler buf (de_name de) st (i + sizeof_DirEntry) of (r, buf') \<Rightarrow>
           if r \<noteq> 0 then ret (- ENOMEM, buf')
           else readdir_loop filler fp buf' (i + sizeof_DirEntry))))))
     else ret (0, buf)))"
  by pat_completeness auto
termination
proof (relation "measure (\<lambda>(filler, fp, buf, i). 2 ^ 32 - i)", goal_cases)
  case (2 filler fp buf i fl di)
  then show ?case using unat_u32[of "di_size di"] by simp
next
  case (3 filler fp buf i fl di)
  then show ?case using unat_u32[of "di_size di"] by simp
qed simp

declare readdir_loop.simps [simp del]

definition op_readdir :: "('b \<Rightarrow> byte list \<Rightarrow> c_stat \<Rightarrow> nat \<Rightarrow> int \<times> 'b) \<Rightarrow> 'b \<Rightarrow> nat \<Rightarrow> nat option \<Rightarrow>
    (int \<times> 'b, 'a fs_state_scheme) m" where
  "op_readdir filler buf offset fh = (case fh of
     None \<Rightarrow> ret (- ENOENT, buf)
   | Some fp \<Rightarrow>
       bnd (deref_file fp) (\<lambda>fl.
       bnd (dinode (f_ip fl)) (\<lambda>di.
       if offset > unat (di_size di) then ret (0, buf)
       else if offset mod sizeof_DirEntry \<noteq> 0 then ret (- EINVAL, buf)
       else readdir_loop filler fp buf offset)))"

section \<open>Statistics\<close>

type_synonym u64 = "64 word"

record statvfs =
  f_bsize :: u64
  f_frsize :: u64
  f_blocks :: u64
  f_bfree :: u64
  f_bavail :: u64
  f_files :: u64
  f_favail :: u64
  f_ffree :: u64
  f_namemax :: u64

text \<open>The two inner counts: the set bits of one bitmap block, below the size of the image.\<close>

function count_bits :: "bytes \<Rightarrow> nat \<Rightarrow> nat \<Rightarrow> nat \<Rightarrow> u64 \<Rightarrow> u64" where
  "count_bits d b sz bi cnt =
     (if bi < BIT_PER_BLOCK \<and> b + bi < sz
      then count_bits d b sz (Suc bi) (if d (bi div 8) AND bit_mask bi \<noteq> 0 then cnt + 1 else cnt)
      else cnt)"
  by pat_completeness auto
termination
  by (relation "measure (\<lambda>(d, b, sz, bi, cnt). BIT_PER_BLOCK - bi)") auto

declare count_bits.simps [simp del]

function statfs_blocks :: "nat \<Rightarrow> nat \<Rightarrow> u64 \<Rightarrow> (u64, 'a log_state_scheme) m" where
  "statfs_blocks sz b cnt =
     (if b < sz then
        bnd (gets (\<lambda>s. BIT_BLOCK s b)) (\<lambda>bb.
        bnd (block_read ROOTDEV bb) (\<lambda>bp.
        bnd (block_data bp) (\<lambda>d.
        bnd (block_release bp) (\<lambda>_.
        statfs_blocks sz (b + BIT_PER_BLOCK) (count_bits d b sz 0 cnt)))))
      else ret cnt)"
  by pat_completeness auto
termination
  by (relation "measure (\<lambda>(sz, b, cnt). sz - b)") auto

function statfs_inodes :: "nat \<Rightarrow> nat \<Rightarrow> u64 \<Rightarrow> (u64, 'a log_state_scheme) m" where
  "statfs_inodes ninodes inum cnt =
     (if inum < ninodes then
        bnd (gets (\<lambda>s. INODE_BLOCK s (of_nat inum))) (\<lambda>ib.
        bnd (block_read ROOTDEV ib) (\<lambda>bp.
        bnd (block_data bp) (\<lambda>d.
        bnd (block_release bp) (\<lambda>_.
        statfs_inodes ninodes (Suc inum)
          (if di_type (get_dinode d (inode_pos (of_nat inum))) \<noteq> 0 then cnt + 1 else cnt)))))
      else ret cnt)"
  by pat_completeness auto
termination
  by (relation "measure (\<lambda>(n, inum, cnt). n - inum)") auto

declare statfs_blocks.simps [simp del] statfs_inodes.simps [simp del]

definition op_statfs :: "(int \<times> statvfs, 'a log_state_scheme) m" where
  "op_statfs =
     bnd (gets (\<lambda>s. unat (sb_size s))) (\<lambda>sz.
     bnd (statfs_blocks sz 0 0) (\<lambda>block_cnt.
     bnd (gets (\<lambda>s. unat (sb_ninodes s))) (\<lambda>n.
     bnd (statfs_inodes n 1 0) (\<lambda>inode_cnt.
     ret (0, \<lparr>f_bsize = of_nat BSIZE, f_frsize = of_nat BSIZE, f_blocks = of_nat FSSIZE,
       f_bfree = of_nat FSSIZE - block_cnt, f_bavail = of_nat FSSIZE - block_cnt,
       f_files = inode_cnt, f_favail = of_nat NINODES - inode_cnt,
       f_ffree = of_nat NINODES - inode_cnt, f_namemax = of_nat DIRSIZ\<rparr>)))))"

section \<open>Handlers without effect\<close>

definition op_access :: "(int, 's) m" where "op_access = ret 0"
definition op_chmod :: "(int, 's) m" where "op_chmod = ret 0"
definition op_utimens :: "(int, 's) m" where "op_utimens = ret 0"
definition op_setxattr :: "(int, 's) m" where "op_setxattr = ret 0"

text \<open>\<open>strncpy(buf, "NULL", size)\<close>: the code and the bytes stored.\<close>

definition op_getxattr :: "nat \<Rightarrow> (int \<times> byte list, 's) m" where
  "op_getxattr sz = (case strncpy (c_str (cstr ''NULL'')) sz of
     None \<Rightarrow> fail Out_of_bounds | Some bs \<Rightarrow> ret (0, bs))"

definition op_listxattr :: "nat \<Rightarrow> (int \<times> byte list, 's) m" where
  "op_listxattr sz = (case strncpy (c_str (cstr ''NULL'')) sz of
     None \<Rightarrow> fail Out_of_bounds | Some bs \<Rightarrow> ret (0, bs))"

section \<open>The start of the process\<close>

definition op_init :: "(unit, 'a fs_state_scheme) m" where
  "op_init =
     bnd (assert_that ''BSIZE'' (BSIZE mod sizeof_DirEntry = 0)) (\<lambda>_.
     bnd (SuperBlock_init ROOTDEV) (\<lambda>_.
     bnd Console_init (\<lambda>_.
     Log_init ROOTDEV)))"

definition op_destroy :: "(unit, 's) m" where "op_destroy = ret ()"

text \<open>
  The state in which \<open>main\<close> calls \<open>fuse_main\<close>: the image is mapped, every static object is zero.
\<close>

definition zero_ofile :: OFile where
  "zero_ofile = \<lparr>f_type = FD_NONE, f_pipe = 0, f_ip = (0, 0), f_off = 0, f_major = 0,
     f_readable = False, f_writable = False, f_ref = 0\<rparr>"

definition main_state :: "image \<Rightarrow> nat \<Rightarrow> byte list \<Rightarrow> fs_state" where
  "main_state img sz input =
     \<lparr>mmap_base = img, st_size = sz, wtrace = [], blocks = Map.empty,
      sb_magic = 0, sb_size = 0, sb_nblocks = 0, sb_ninodes = 0, sb_nlog = 0, sb_logstart = 0,
      sb_inodestart = 0, sb_bmapstart = 0,
      log_start = 0, log_size = 0, outstanding = 0, committing = False, log_dev = 0,
      log_hdr = \<lparr>lh_n = 0, lh_block = replicate LOG_SIZE 0\<rparr>,
      inodes = Map.empty, unheld_unlocks = 0,
      files = replicate NFILE zero_ofile, pipes = Map.empty, next_pipe = 0,
      dev_table = replicate NDEV \<lparr>d_read = False, d_write = False\<rparr>,
      console_in = input, console_out = []\<rparr>"

section \<open>The table of handlers\<close>

datatype fuse_request =
    Op_getattr "byte list"
  | Op_mkdir "byte list"
  | Op_unlink "byte list"
  | Op_rename "byte list" "byte list"
  | Op_link "byte list" "byte list"
  | Op_chmod
  | Op_chown "byte list"
  | Op_truncate "byte list" nat
  | Op_open "byte list" u32
  | Op_read "nat option" nat nat
  | Op_write "nat option" "byte list" nat
  | Op_statfs
  | Op_flush
  | Op_release "nat option"
  | Op_setxattr
  | Op_getxattr nat
  | Op_listxattr nat
  | Op_opendir "byte list" u32
  | Op_readdir "nat option" nat
  | Op_releasedir "nat option"
  | Op_access
  | Op_create "byte list" u32
  | Op_fgetattr "nat option"
  | Op_utimens

text \<open>What a request gives back to FUSE.\<close>

record fuse_reply =
  r_code :: int
  r_stat :: "c_stat option"
  r_fh :: "nat option"
  r_bytes :: "byte list"
  r_names :: "byte list list"
  r_vfs :: "statvfs option"

definition reply :: "int \<Rightarrow> fuse_reply" where
  "reply c = \<lparr>r_code = c, r_stat = None, r_fh = None, r_bytes = [], r_names = [], r_vfs = None\<rparr>"

definition code_of :: "(int, 's) m \<Rightarrow> (fuse_reply, 's) m" where
  "code_of c = bnd c (\<lambda>r. ret (reply r))"

text \<open>The entries of \<open>xv6fs_ops\<close>; \<open>filler\<close> collects the names in the reply.\<close>

fun fuse_dispatch :: "(byte list list \<Rightarrow> byte list \<Rightarrow> c_stat \<Rightarrow> nat \<Rightarrow> int \<times> byte list list) \<Rightarrow>
    fuse_request \<Rightarrow> (fuse_reply, 'a fs_state_scheme) m" where
  "fuse_dispatch fil (Op_getattr path) = bnd (op_getattr path) (\<lambda>(r, st). ret ((reply r)\<lparr>r_stat := st\<rparr>))"
| "fuse_dispatch fil (Op_mkdir path) = code_of (op_mkdir path)"
| "fuse_dispatch fil (Op_unlink path) = code_of (op_unlink path)"
| "fuse_dispatch fil (Op_rename source dest) = code_of (op_rename source dest)"
| "fuse_dispatch fil (Op_link source dest) = code_of (op_link source dest)"
| "fuse_dispatch fil Op_chmod = code_of op_chmod"
| "fuse_dispatch fil (Op_chown path) = code_of (op_chown path)"
| "fuse_dispatch fil (Op_truncate path len) = code_of (op_truncate path len)"
| "fuse_dispatch fil (Op_open path flags) = bnd (op_open path flags) (\<lambda>(r, fh). ret ((reply r)\<lparr>r_fh := fh\<rparr>))"
| "fuse_dispatch fil (Op_read fh sz offset) = bnd (op_read fh sz offset) (\<lambda>(r, bs). ret ((reply r)\<lparr>r_bytes := bs\<rparr>))"
| "fuse_dispatch fil (Op_write fh buf offset) = code_of (op_write fh buf offset)"
| "fuse_dispatch fil Op_statfs = bnd op_statfs (\<lambda>(r, v). ret ((reply r)\<lparr>r_vfs := Some v\<rparr>))"
| "fuse_dispatch fil Op_flush = code_of op_flush"
| "fuse_dispatch fil (Op_release fh) = code_of (op_release fh)"
| "fuse_dispatch fil Op_setxattr = code_of op_setxattr"
| "fuse_dispatch fil (Op_getxattr sz) = bnd (op_getxattr sz) (\<lambda>(r, bs). ret ((reply r)\<lparr>r_bytes := bs\<rparr>))"
| "fuse_dispatch fil (Op_listxattr sz) = bnd (op_listxattr sz) (\<lambda>(r, bs). ret ((reply r)\<lparr>r_bytes := bs\<rparr>))"
| "fuse_dispatch fil (Op_opendir path flags) = bnd (op_open path flags) (\<lambda>(r, fh). ret ((reply r)\<lparr>r_fh := fh\<rparr>))"
| "fuse_dispatch fil (Op_readdir fh offset) = bnd (op_readdir fil [] offset fh) (\<lambda>(r, ns). ret ((reply r)\<lparr>r_names := ns\<rparr>))"
| "fuse_dispatch fil (Op_releasedir fh) = code_of (op_release fh)"
| "fuse_dispatch fil Op_access = code_of op_access"
| "fuse_dispatch fil (Op_create path mode) = bnd (op_create path mode) (\<lambda>(r, fh). ret ((reply r)\<lparr>r_fh := fh\<rparr>))"
| "fuse_dispatch fil (Op_fgetattr fh) = bnd (op_fgetattr fh) (\<lambda>(r, st). ret ((reply r)\<lparr>r_stat := st\<rparr>))"
| "fuse_dispatch fil Op_utimens = code_of op_utimens"

end
