(* ===== verification/Statistics.thy ===== *)
theory Statistics
  imports Fuse_Handlers
begin

text \<open>
  \<open>op_statfs\<close> of \<open>src/op_statfs.cxx\<close> computes the sizes of two sets: the used blocks of the bitmap and
  the inodes with a type. The loops of the handler are shown equal to these cardinalities.
\<close>

section \<open>Counting loops\<close>

lemma count_bits_card:
  "count_bits d b sz bi cnt = cnt + of_nat (card {i. bi \<le> i \<and> i < BIT_PER_BLOCK \<and> b + i < sz \<and> bm_bit d i})"
proof (induction d b sz bi cnt rule: count_bits.induct)
  case (1 d b sz bi cnt)
  let ?S = "\<lambda>k. {i. k \<le> i \<and> i < BIT_PER_BLOCK \<and> b + i < sz \<and> bm_bit d i}"
  show ?case
  proof (cases "bi < BIT_PER_BLOCK \<and> b + bi < sz")
    case True
    have fin: "finite (?S (Suc bi))" by (rule finite_subset[of _ "{..<BIT_PER_BLOCK}"]) auto
    have "?S bi = (if bm_bit d bi then insert bi (?S (Suc bi)) else ?S (Suc bi))"
      using True by (auto simp: le_less Suc_le_eq)
    then have "card (?S bi) = (if bm_bit d bi then 1 else 0) + card (?S (Suc bi))" using fin by simp
    moreover have "count_bits d b sz bi cnt =
        count_bits d b sz (Suc bi) (if bm_bit d bi then cnt + 1 else cnt)"
      using True by (simp add: count_bits.simps[of d b sz bi] bm_bit_test)
    ultimately show ?thesis using "1.IH"[OF True] by (simp add: bm_bit_test)
  next
    case False
    then have "?S bi = {}" by auto
    then have c: "card (?S bi) = 0" by (simp only: card.empty)
    show ?thesis unfolding c using False by (subst count_bits.simps) auto
  qed
qed

lemma statfs_blocks_run:
  assumes i: "fs_inv s" and dev: "log_dev s = ROOTDEV" and sz: "sz = unat (sb_size s)"
  shows "b mod BIT_PER_BLOCK = 0 \<Longrightarrow>
    statfs_blocks sz b cnt s = Inr (cnt + of_nat (card {x. b \<le> x \<and> x < sz \<and> used s x}), s)"
proof (induction "sz - b" arbitrary: b cnt rule: less_induct)
  case less
  have j: "jinv {} s" and g: "fs_geom s" using i by (simp_all add: fs_inv_def)
  show ?case
  proof (cases "b < sz")
    case False
    then have "{x. b \<le> x \<and> x < sz \<and> used s x} = {}" by auto
    then have c: "card {x. b \<le> x \<and> x < sz \<and> used s x} = 0" by (simp only: card.empty)
    show ?thesis unfolding c using False by (simp add: statfs_blocks.simps[of sz b])
  next
    case True
    let ?q = "(log_dev s, BIT_BLOCK s b)" and ?D = "view s (log_dev s, BIT_BLOCK s b)"
    let ?A = "{x. b \<le> x \<and> x < sz \<and> used s x}" and ?B = "{x. b + BIT_PER_BLOCK \<le> x \<and> x < sz \<and> used s x}"
      and ?C = "{i. 0 \<le> i \<and> i < BIT_PER_BLOCK \<and> b + i < sz \<and> bm_bit ?D i}"
    have rd: "block_read (log_dev s) (BIT_BLOCK s b) s = Inr (?q, holdd ?q ?D s)"
      using block_read_j[OF j] BIT_BLOCK_home(3)[OF g] True sz by (simp add: home_block_def)
    have rel: "block_release ?q (holdd ?q ?D s) = Inr ((), s)" using block_release_j[OF j] by simp
    have u: "used s (b + i) = bm_bit ?D i" if "i < BIT_PER_BLOCK" for i
      using less.prems that by (rule used_in_block)
    have split: "?A = (\<lambda>i. b + i) ` ?C \<union> ?B"
    proof (intro equalityI subsetI)
      fix x assume x: "x \<in> ?A"
      show "x \<in> (\<lambda>i. b + i) ` ?C \<union> ?B"
      proof (cases "x < b + BIT_PER_BLOCK")
        case lt: True
        then have "x - b \<in> ?C" using x u[of "x - b"] by auto
        then show ?thesis using x by (auto intro!: image_eqI[of x _ "x - b"])
      qed (use x in auto)
    next
      fix x assume "x \<in> (\<lambda>i. b + i) ` ?C \<union> ?B"
      then show "x \<in> ?A" using u by auto
    qed
    have "card ?A = card ?C + card ?B"
    proof -
      have "finite ?C" by (rule finite_subset[of _ "{..<BIT_PER_BLOCK}"]) auto
      moreover have "finite ?B" by (rule finite_subset[of _ "{..<sz}"]) auto
      moreover have "(\<lambda>i. b + i) ` ?C \<inter> ?B = {}" by auto
      ultimately show ?thesis unfolding split by (subst card_Un_disjoint) (simp_all add: card_image)
    qed
    moreover have "statfs_blocks sz (b + BIT_PER_BLOCK) (count_bits ?D b sz 0 cnt) s =
        Inr (count_bits ?D b sz 0 cnt + of_nat (card ?B), s)"
      using less.prems True by (intro less.hyps) (simp_all add: mod_add_self2)
    moreover have "statfs_blocks sz b cnt s = statfs_blocks sz (b + BIT_PER_BLOCK) (count_bits ?D b sz 0 cnt) s"
      using True rd rel dev by (simp add: statfs_blocks.simps[of sz b] bnd_def)
    ultimately show ?thesis by (simp add: count_bits_card)
  qed
qed

lemma statfs_inodes_run:
  assumes i: "fs_inv s" and dev: "log_dev s = ROOTDEV" and n: "n = unat (sb_ninodes s)"
  shows "statfs_inodes n x cnt s =
    Inr (cnt + of_nat (card {y. x \<le> y \<and> y < n \<and> di_type (disk_dinode s (of_nat y)) \<noteq> 0}), s)"
proof (induction "n - x" arbitrary: x cnt rule: less_induct)
  case less
  have j: "jinv {} s" and g: "fs_geom s" using i by (simp_all add: fs_inv_def)
  let ?S = "\<lambda>x. {y. x \<le> y \<and> y < n \<and> di_type (disk_dinode s (of_nat y)) \<noteq> 0}"
  show ?case
  proof (cases "x < n")
    case False
    then have "?S x = {}" by auto
    then have c: "card (?S x) = 0" by (simp only: card.empty)
    show ?thesis unfolding c using False by (simp add: statfs_inodes.simps[of n x])
  next
    case True
    let ?ib = "INODE_BLOCK s (of_nat x)" and ?q = "(log_dev s, INODE_BLOCK s (of_nat x))"
    have hb: "home_block s ?ib" using INODE_BLOCK_home(3)[OF g] inum_ok_of_nat[of x s] True n by simp
    have rd: "block_read (log_dev s) ?ib s = Inr (?q, holdd ?q (view s ?q) s)"
      using block_read_j[OF j] hb by (simp add: home_block_def)
    have rel: "block_release ?q (holdd ?q (view s ?q) s) = Inr ((), s)" using block_release_j[OF j] by simp
    let ?t = "di_type (disk_dinode s (of_nat x)) \<noteq> 0"
    have fin: "finite (?S (Suc x))" by (rule finite_subset[of _ "{..<n}"]) auto
    have "?S x = (if ?t then insert x (?S (Suc x)) else ?S (Suc x))"
      using True by (auto simp: le_less Suc_le_eq)
    then have "card (?S x) = (if ?t then 1 else 0) + card (?S (Suc x))" using fin by simp
    moreover have "statfs_inodes n x cnt s = statfs_inodes n (Suc x) (if ?t then cnt + 1 else cnt) s"
      using True rd rel dev by (simp add: statfs_inodes.simps[of n x] bnd_def disk_dinode_def)
    ultimately show ?thesis using less.hyps[of "Suc x" "if ?t then cnt + 1 else cnt"] True by simp
  qed
qed

lemma unat_rest:
  assumes "a + b = c" "c < 2 ^ 64"
  shows "unat (of_nat c - of_nat a :: u64) = b"
proof -
  have "(of_nat c - of_nat a :: u64) = of_nat b" using assms(1) by auto
  moreover have "b < 2 ^ 64" using assms by simp
  ultimately show ?thesis by (simp add: unat_of_nat)
qed

section \<open>Properties\<close>

text \<open>
  C24: \<open>op_statfs\<close> reports as free the blocks that the allocator can still hand out (and, on an image
  smaller than \<open>FSSIZE\<close>, also the blocks that the image does not have), and as used files the inodes
  that carry a type; it changes nothing.
\<close>

theorem op_statfs_counts:
  assumes i: "fs_inv s" and dev: "log_dev s = ROOTDEV" and sz: "unat (sb_size s) \<le> FSSIZE"
  shows "\<exists>v. op_statfs s = Inr ((0, v), s) \<and>
    unat (f_bfree v) = card (free_blocks s) + (FSSIZE - unat (sb_size s)) \<and> f_bavail v = f_bfree v \<and>
    f_files v = of_nat (card {y. 1 \<le> y \<and> y < unat (sb_ninodes s) \<and> di_type (disk_dinode s (of_nat y)) \<noteq> 0}) \<and>
    f_ffree v + f_files v = of_nat NINODES"
proof -
  let ?U = "{x. 0 \<le> x \<and> x < unat (sb_size s) \<and> used s x}"
  let ?n = "card (free_blocks s) + (FSSIZE - unat (sb_size s))"
  have blocks: "statfs_blocks (unat (sb_size s)) 0 0 s = Inr (of_nat (card ?U), s)"
    using statfs_blocks_run[OF i dev refl, of 0 0] by simp
  have fin: "finite ?U" "finite (free_blocks s)" by (auto simp: free_blocks_def)
  have "?U \<union> free_blocks s = {..<unat (sb_size s)}" "?U \<inter> free_blocks s = {}" by (auto simp: free_blocks_def)
  then have sum: "card ?U + ?n = FSSIZE" using card_Un_disjoint[OF fin] sz by simp
  have "unat (of_nat FSSIZE - of_nat (card ?U) :: u64) = ?n" using sum by (rule unat_rest) simp
  then show ?thesis
    using blocks statfs_inodes_run[OF i dev refl, of 1 0] by (simp add: op_statfs_def bnd_def)
qed

theorem op_statfs_counts_witness:
  "fs_inv demo_fs \<and> (\<exists>v. op_statfs demo_fs = Inr ((0, v), demo_fs) \<and> f_bfree v = 954)"
proof -
  obtain v where v: "op_statfs demo_fs = Inr ((0, v), demo_fs)"
    "unat (f_bfree v) = card (free_blocks demo_fs) + (FSSIZE - unat (sb_size demo_fs))"
    using op_statfs_counts[of demo_fs] by auto
  then have "unat (f_bfree v) = 954" by (simp add: demo_fs_free)
  then have "f_bfree v = 954" by (simp add: word_unat_eq_iff)
  with v show ?thesis by simp
qed

end
