(* ===== verification/Transactions.thy ===== *)
theory Transactions
  imports Inode_Cache
begin

text \<open>
  File system calls as transactions. Between two calls the state is \<open>idle\<close>: no operation runs, the log
  is empty and the image holds what the cache shows. \<open>begin_op\<close> opens a transaction with room for all
  blocks of the log, \<open>end_op\<close> puts the state back to \<open>idle\<close>. Neither changes a file: the files of a state
  depend only on the inode cache, the layout and the contents of the blocks outside the log
  (\<open>same_files\<close>).
\<close>

section \<open>States with the same files\<close>

definition same_files :: "'a inode_cache_scheme \<Rightarrow> 'a inode_cache_scheme \<Rightarrow> bool" where
  "same_files s s' \<longleftrightarrow> log_dev s' = log_dev s \<and> sb_size s' = sb_size s \<and> sb_ninodes s' = sb_ninodes s \<and>
     sb_inodestart s' = sb_inodestart s \<and> sb_bmapstart s' = sb_bmapstart s \<and>
     log_size s' = log_size s \<and> log_start s' = log_start s \<and> st_size s' = st_size s \<and>
     inodes s' = inodes s \<and>
     (\<forall>b. home_block s b \<longrightarrow> view s' (log_dev s, b) = view s (log_dev s, b))"

lemma same_files_refl [simp]: "same_files s s"
  by (simp add: same_files_def)

lemma same_files_home: "same_files s s' \<Longrightarrow> home_block s' = home_block s"
  by (simp add: same_files_def fun_eq_iff home_block_def in_image_def in_log_def)

lemma same_files_trans: "same_files s t \<Longrightarrow> same_files t u \<Longrightarrow> same_files s u"
  using same_files_home[of s t] by (simp add: same_files_def)

lemma same_files_geom:
  assumes "same_files s s'"
  shows "fs_geom s' = fs_geom s" "data_start s' = data_start s" "data_block s' = data_block s"
    "BIT_BLOCK s' = BIT_BLOCK s" "INODE_BLOCK s' = INODE_BLOCK s" "inum_ok s' = inum_ok s"
  using assms by (simp_all add: same_files_def fun_eq_iff fs_geom_def data_start_def data_block_def BIT_BLOCK_def
      INODE_BLOCK_def inum_ok_def)

lemma same_files_used:
  assumes sf: "same_files s s'" and g: "fs_geom s" and x: "x < unat (sb_size s)"
  shows "used s' x = used s x"
  using sf BIT_BLOCK_home(3)[OF g x] same_files_geom(4)[OF sf] by (simp add: used_def same_files_def)

lemma same_files_inv:
  assumes sf: "same_files s s'" and i: "fs_inv s" and j: "jinv {} s'"
  shows "fs_inv s'" "free_blocks s' = free_blocks s"
    "inum_ok s i' \<Longrightarrow> disk_dinode s' i' = disk_dinode s i'"
proof -
  have g: "fs_geom s" and mu: "meta_used s" using i by (simp_all add: fs_inv_def)
  note u = same_files_used[OF sf g] and eq = same_files_geom[OF sf]
  have "meta_used s'"
    unfolding meta_used_def eq using mu u data_start_size[OF g] by (simp add: meta_used_def)
  then show "fs_inv s'" using j g eq by (simp add: fs_inv_def)
  have "sb_size s' = sb_size s" using sf by (simp add: same_files_def)
  then show "free_blocks s' = free_blocks s" using u by (auto simp: free_blocks_def)
  show "disk_dinode s' i' = disk_dinode s i'" if "inum_ok s i'"
    using sf INODE_BLOCK_home(3)[OF g that] eq(5) by (simp add: disk_dinode_def same_files_def)
qed

lemma same_files_file:
  assumes sf: "same_files s s'" and ok: "file_ok k s" and j: "jinv {} s'"
  shows "file_ok k s'" "slots s' k = slots s k" "fcontent s' k = fcontent s k" "owned s' k = owned s k"
    "the_dinode s' k = the_dinode s k" "fsize s' k = fsize s k" "dense k s' = dense k s"
proof -
  note f = file_ok_basic[OF ok] and eq = same_files_geom[OF sf]
  have g: "fs_geom s" using f(1) by (simp add: fs_inv_def)
  show td: "the_dinode s' k = the_dinode s k" using sf by (simp add: the_dinode_def same_files_def)
  then show sz: "fsize s' k = fsize s k" by (simp add: fsize_def)
  have v: "view s' (fst k, slots s k i) = view s (fst k, slots s k i)" if "i < NSLOTS" "slots s k i \<noteq> 0" for i
    using sf data_block_home(1)[OF g file_ok_slot(1)[OF ok that]] f(2) by (simp add: same_files_def)
  have "view s' (fst k, di_addrs (the_dinode s k) ! 12) = view s (fst k, di_addrs (the_dinode s k) ! 12)"
    if "di_addrs (the_dinode s k) ! 12 \<noteq> 0"
    using v[of 12] that by (simp add: slots_def Let_def)
  then show sl: "slots s' k = slots s k" by (intro ext) (simp add: slots_def Let_def td)
  then show ow: "owned s' k = owned s k" by (simp add: owned_def)
  show "fcontent s' k = fcontent s k"
    using v slot_of_less(1) by (intro ext) (simp add: fcontent_def Let_def sl)
  have "inodes s' = inodes s" "log_dev s' = log_dev s" using sf by (simp_all add: same_files_def)
  moreover have "used s' (unat (slots s k i))" if "i < NSLOTS" "slots s k i \<noteq> 0" for i
    using same_files_used[OF sf g] file_ok_slot(1,2)[OF ok that] by (simp add: data_block_def)
  ultimately show "file_ok k s'"
    using ok same_files_inv(1)[OF sf f(1) j] unfolding file_ok_def sl eq by simp
  show "dense k s' = dense k s" by (simp add: dense_def sl sz)
qed

section \<open>Beginning and ending\<close>

definition idle :: "'a inode_cache_scheme \<Rightarrow> bool" where
  "idle s \<longleftrightarrow> fs_inv s \<and> outstanding s = 0 \<and> \<not> committing s \<and> header_clear s \<and> logged s = [] \<and>
     unat (log_size s) = LOG_SIZE"

text \<open>Inside the only transaction.\<close>

definition in_txn :: "'a inode_cache_scheme \<Rightarrow> bool" where
  "in_txn s \<longleftrightarrow> fs_inv s \<and> outstanding s = 1 \<and> \<not> committing s \<and> header_clear s \<and>
     unat (log_size s) = LOG_SIZE"

definition begun :: "'a log_state_scheme \<Rightarrow> 'a log_state_scheme" where
  "begun s = s\<lparr>outstanding := 1\<rparr>"

lemma outstanding_update:
  "jinv H (s\<lparr>outstanding := n\<rparr>) = jinv H s" "view (s\<lparr>outstanding := n\<rparr>) = view s"
proof -
  have "pins (s\<lparr>outstanding := n\<rparr>) = pins s" "log_wf (s\<lparr>outstanding := n\<rparr>) = log_wf s"
    "log_geom (s\<lparr>outstanding := n\<rparr>) = log_geom s" "cache_inv P H (s\<lparr>outstanding := n\<rparr>) = cache_inv P H s" for P
    by (simp_all add: pins_def logged_def log_wf_def home_block_def in_image_def in_log_def log_geom_def cache_inv_def)
  then show "jinv H (s\<lparr>outstanding := n\<rparr>) = jinv H s" by (simp add: jinv_def)
  show "view (s\<lparr>outstanding := n\<rparr>) = view s" by (rule ext) (simp add: view_def split: option.split)
qed

lemma begin_op_idle:
  assumes "idle s"
  shows "begin_op s = Inr ((), begun s)" "in_txn (begun s)" "room (begun s) 29" "same_files s (begun s)"
proof -
  have j: "jinv {} s" and i: "fs_inv s" using assms by (simp_all add: idle_def fs_inv_def)
  have "length (logged s) = unat (lh_n (log_hdr s))" using j by (simp add: logged_def jinv_def log_wf_def)
  then have n: "lh_n (log_hdr s) = 0" using assms by (simp add: idle_def unat_eq_0)
  show "begin_op s = Inr ((), begun s)"
    using assms n by (simp add: begin_op_def begun_def bnd_def idle_def)
  show sf: "same_files s (begun s)" by (simp add: same_files_def begun_def outstanding_update)
  have "fs_inv (begun s)"
    using same_files_inv(1)[OF sf i] j by (simp add: begun_def outstanding_update)
  then show "in_txn (begun s)" using assms by (simp add: in_txn_def idle_def begun_def header_clear_def)
  show "room (begun s) 29" using assms n by (simp add: room_def begun_def idle_def)
qed

lemma settle_files: "inodes (settle im tr bl h s) = inodes s" "log_dev (settle im tr bl h s) = log_dev s"
  "sb_size (settle im tr bl h s) = sb_size s" "sb_ninodes (settle im tr bl h s) = sb_ninodes s"
  "sb_inodestart (settle im tr bl h s) = sb_inodestart s" "sb_bmapstart (settle im tr bl h s) = sb_bmapstart s"
  "log_size (settle im tr bl h s) = log_size s" "log_start (settle im tr bl h s) = log_start s"
  "st_size (settle im tr bl h s) = st_size s"
  by (simp_all add: settle_def)

lemma end_op_idle:
  assumes t: "in_txn s"
  shows "\<exists>s'. end_op s = Inr ((), s') \<and> idle s' \<and> same_files s s' \<and>
    (\<forall>b. home_block s b \<longrightarrow> mmap_base s' (unat b) = view s (log_dev s, b)) \<and>
    (\<exists>im tr bl h. s' = settle im tr bl h s)"
proof -
  have i: "fs_inv s" and j: "jinv {} s" using t by (simp_all add: in_txn_def fs_inv_def)
  obtain s' im tr bl h where e: "end_op s = Inr ((), s')" "jinv {} s'" "outstanding s' = 0" "\<not> committing s'"
    "header_clear s'" "logged s' = []" "s' = settle im tr bl h s"
    "\<forall>b. home_block s b \<longrightarrow> mmap_base s' (unat b) = view s (log_dev s, b) \<and> view s' (log_dev s', b) = view s (log_dev s, b)"
    using end_op_settles[OF j] t unfolding in_txn_def by blast
  have sf: "same_files s s'" using e(7,8) by (simp add: same_files_def settle_files)
  have "idle s'"
    using same_files_inv(1)[OF sf i e(2)] e(3-6) t sf by (simp add: idle_def in_txn_def same_files_def)
  with e sf show ?thesis by blast
qed

text \<open>In an idle state the image is what readers see.\<close>

lemma idle_image:
  assumes "idle s" "home_block s b"
  shows "mmap_base s (unat b) = view s (log_dev s, b)"
  using assms view_eq_disk[of s b] by (simp add: idle_def fs_inv_def home_block_def)

text \<open>Steps inside the transaction that keep it one.\<close>

lemma in_txn_frame: "in_txn s \<Longrightarrow> same_env s s' \<Longrightarrow> fs_inv s' \<Longrightarrow> in_txn s'"
  by (simp add: in_txn_def same_env_def header_clear_def)

lemma in_txn_put_inode [simp]: "in_txn (put_inode k n s) = in_txn s"
  by (simp add: in_txn_def)

end
