(* ===== verification/Frames.thy ===== *)
theory Frames
  imports Path_Names
begin

text \<open>
  What an operation leaves alone. \<open>keeps p c\<close> says that the part \<open>p\<close> of the state is the same whenever
  \<open>c\<close> returns. The rules follow the structure of monadic code; by them every operation up to path
  resolution keeps the state of the layers above the inode cache (the table of open files, the pipes,
  the devices).
\<close>

named_theorems keeps_intros "frame rules"

definition keeps :: "('s \<Rightarrow> 'p) \<Rightarrow> ('a, 's) m \<Rightarrow> bool" where
  "keeps p c \<longleftrightarrow> (\<forall>s x s'. c s = Inr (x, s') \<longrightarrow> p s' = p s)"

lemma keepsD: "keeps p c \<Longrightarrow> c s = Inr (x, s') \<Longrightarrow> p s' = p s"
  by (simp add: keeps_def)

lemma keeps_bnd [keeps_intros]: "keeps p c \<Longrightarrow> (\<And>x. keeps p (f x)) \<Longrightarrow> keeps p (bnd c f)"
  by (auto simp: keeps_def bnd_returns)

lemma keeps_basic [keeps_intros]:
  "keeps p (ret x)" "keeps p (fail e)" "keeps p (gets g)" "keeps p (assert_that m b)" "keeps p (check e b)"
  by (simp_all add: keeps_def)

lemma keeps_modify: "(\<And>s. p (g s) = p s) \<Longrightarrow> keeps p (modify g)"
  by (simp add: keeps_def)

lemma keeps_when_do [keeps_intros]: "keeps p c \<Longrightarrow> keeps p (when_do b c)"
  by (simp add: keeps_def)

lemma keeps_if [keeps_intros]: "keeps p c \<Longrightarrow> keeps p d \<Longrightarrow> keeps p (if b then c else d)"
  by simp

lemma keeps_let [keeps_intros]: "keeps p (f x) \<Longrightarrow> keeps p (Let x f)"
  by simp

lemma keeps_option [keeps_intros]:
  "keeps p c \<Longrightarrow> (\<And>x. keeps p (f x)) \<Longrightarrow> keeps p (case r of None \<Rightarrow> c | Some x \<Rightarrow> f x)"
  by (cases r) simp_all

lemma keeps_bool [keeps_intros]:
  "keeps p c \<Longrightarrow> keeps p d \<Longrightarrow> keeps p (case b of True \<Rightarrow> c | False \<Rightarrow> d)"
  by (cases b) simp_all

lemma keeps_prod [keeps_intros]: "(\<And>x y. keeps p (f x y)) \<Longrightarrow> keeps p (case z of (x, y) \<Rightarrow> f x y)"
  by (cases z) simp

lemma keeps_for_each [keeps_intros]: "(\<And>x. keeps p (f x)) \<Longrightarrow> keeps p (for_each xs f)"
  by (induction xs) (simp_all add: keeps_bnd keeps_basic)

section \<open>The layers above the inode cache\<close>

abbreviation upper :: "'a inode_cache_scheme \<Rightarrow> 'a" where "upper \<equiv> inode_cache.more"

lemma upper_cells [keeps_intros]:
  "keeps upper (deref_block b)" "keeps upper (set_block b blk)" "keeps upper (deref_inode ip)"
  "keeps upper (set_inode ip i)" "keeps upper (PosixEnv_read bn)" "keeps upper (PosixEnv_write bn d)"
  by (auto simp: keeps_def deref_block_def set_block_def deref_inode_def set_inode_def put_inode_def
      PosixEnv_read_def PosixEnv_write_def disk_write_def image_put_def bnd_returns split: option.splits)

lemma upper_fields [keeps_intros]:
  "keeps upper (modify (\<lambda>s. s\<lparr>log_hdr := h s\<rparr>))" "keeps upper (modify (\<lambda>s. s\<lparr>outstanding := o1 s\<rparr>))"
  "keeps upper (modify (\<lambda>s. s\<lparr>committing := c s\<rparr>))" "keeps upper (modify (\<lambda>s. s\<lparr>inodes := i s\<rparr>))"
  "keeps upper (modify (\<lambda>s. s\<lparr>unheld_unlocks := u s\<rparr>))" "keeps upper (modify (\<lambda>s. s\<lparr>blocks := b s\<rparr>))"
  by (simp_all add: keeps_def)

lemma upper_data [keeps_intros]:
  "keeps upper (block_data b)" "keeps upper (set_block_data b d)" "keeps upper (block_lock b)"
  "keeps upper (dinode ip)" "keeps upper (set_dinode ip f)" "keeps upper (inode_mutex_lock ip)"
  "keeps upper (inode_mutex_unlock ip)"
  unfolding block_data_def set_block_data_def block_lock_def dinode_def set_dinode_def inode_mutex_lock_def
    inode_mutex_unlock_def
  by (intro keeps_intros)+

lemma upper_cache [keeps_intros]:
  "keeps upper (block_get dev bn)" "keeps upper (block_read dev bn)" "keeps upper (block_write b)"
  "keeps upper (block_release b)" "keeps upper (block_pin b)" "keeps upper (block_unpin b)"
  unfolding block_get_def block_read_def block_write_def block_release_def block_pin_def block_unpin_def
    assert_locked_def
  by (intro keeps_intros)+

lemma upper_log [keeps_intros]:
  "keeps upper (log_write b)" "keeps upper write_head" "keeps upper (write_log_step i)" "keeps upper (install_step i)"
  unfolding log_write_def write_head_def write_log_step_def install_step_def
  by (intro keeps_intros)+

lemma upper_txn [keeps_intros]:
  "keeps upper write_log" "keeps upper commit" "keeps upper begin_op" "keeps upper end_op"
proof -
  show w: "keeps upper write_log" unfolding write_log_def by (intro keeps_intros)
  show c: "keeps upper commit" unfolding commit_def by (intro keeps_intros w)
  show "keeps upper begin_op" unfolding begin_op_def by (intro keeps_intros)
  show "keeps upper end_op" unfolding end_op_def by (intro keeps_intros c)
qed

text \<open>For a loop, the body may use the condition of its turn.\<close>

lemma keeps_cond: "(b \<Longrightarrow> keeps p c) \<Longrightarrow> (\<not> b \<Longrightarrow> keeps p d) \<Longrightarrow> keeps p (if b then c else d)"
  by simp

lemma upper_zeroed [keeps_intros]: "keeps upper (block_zeroed dev bn)"
  unfolding block_zeroed_def by (intro keeps_intros)

lemma upper_alloc_loop [keeps_intros]: "keeps upper (block_alloc_loop dev sz b)"
proof (induction "sz - b" arbitrary: b rule: less_induct)
  case less
  show ?case by (subst block_alloc_loop.simps) (rule keeps_cond; intro keeps_intros less.hyps; simp)
qed

lemma upper_blocks [keeps_intros]:
  "keeps upper (block_alloc dev)" "keeps upper (block_free dev b)" "keeps upper (INode_unlock ip)"
  "keeps upper (INode_lock ip)" "keeps upper (INode_update ip)" "keeps upper (trunc_direct ip i)"
  "keeps upper (trunc_indirect ip bp i)" "keeps upper (addr_slot ip i)"
  unfolding block_alloc_def block_free_def INode_unlock_def INode_lock_def INode_update_def trunc_direct_def
    trunc_indirect_def addr_slot_def
  by (intro keeps_intros)+

lemma upper_map [keeps_intros]: "keeps upper (INode_trunc ip)" "keeps upper (block_map ip bn)"
  unfolding INode_trunc_def block_map_def by (intro keeps_intros)+

lemma upper_read_loop [keeps_intros]: "keeps upper (INode_read_loop ip off n tot)"
proof (induction "n - tot" arbitrary: off tot rule: less_induct)
  case less
  show ?case
    by (subst INode_read_loop.simps) (rule keeps_cond; intro keeps_intros less.hyps; simp)
qed

lemma upper_write_loop [keeps_intros]: "keeps upper (INode_write_loop ip buf off tot)"
proof (induction "length buf - tot" arbitrary: off tot rule: less_induct)
  case less
  show ?case
    by (subst INode_write_loop.simps) (rule keeps_cond; intro keeps_intros less.hyps; simp)
qed

lemma upper_ialloc_loop [keeps_intros]: "keeps upper (inode_get dev i)" "keeps upper (inode_alloc_loop dev ty n x)"
proof -
  show g: "keeps upper (inode_get dev i)" for dev i unfolding inode_get_def by (intro keeps_intros)
  show "keeps upper (inode_alloc_loop dev ty n x)"
  proof (induction "n - x" arbitrary: x rule: less_induct)
    case less
    show ?case
      by (subst inode_alloc_loop.simps) (rule keeps_cond; intro keeps_intros g less.hyps; simp)
  qed
qed

lemma upper_inodes [keeps_intros]:
  "keeps upper (INode_read ip off n)" "keeps upper (INode_write ip buf off)" "keeps upper (INode_stat ip)"
  "keeps upper (inode_alloc dev ty)" "keeps upper (inode_dup ip)" "keeps upper (inode_put ip)"
  unfolding INode_read_def INode_write_def INode_stat_def inode_alloc_def inode_dup_def inode_put_def
  by (intro keeps_intros)+

lemma upper_unlock_put [keeps_intros]: "keeps upper (inode_unlock_put ip)"
  unfolding inode_unlock_put_def by (intro keeps_intros)

lemma upper_dir_loops [keeps_intros]:
  "keeps upper (dirlookup_loop dp name sz off)" "keeps upper (dirlink_loop dp sz off)"
proof -
  show "keeps upper (dirlookup_loop dp name sz off)"
  proof (induction "sz - off" arbitrary: off rule: less_induct)
    case less
    show ?case
      by (subst dirlookup_loop.simps) (rule keeps_cond; intro keeps_intros less.hyps; simp)
  qed
  show "keeps upper (dirlink_loop dp sz off)"
  proof (induction "sz - off" arbitrary: off rule: less_induct)
    case less
    show ?case
      by (subst dirlink_loop.simps) (rule keeps_cond; intro keeps_intros less.hyps; simp)
  qed
qed

lemma upper_dirs [keeps_intros]: "keeps upper (dirlookup dp name)" "keeps upper (dirlink dp name i)"
proof -
  show l: "keeps upper (dirlookup dp name)" unfolding dirlookup_def by (intro keeps_intros)
  show "keeps upper (dirlink dp name i)" unfolding dirlink_def by (intro keeps_intros l)
qed

lemma keeps_option_eq:
  "(r = None \<Longrightarrow> keeps p c) \<Longrightarrow> (\<And>x. r = Some x \<Longrightarrow> keeps p (f x)) \<Longrightarrow> keeps p (case r of None \<Rightarrow> c | Some x \<Rightarrow> f x)"
  by (cases r) simp_all

lemma upper_path_loop [keeps_intros]: "keeps upper (inode_name_loop np ip path name)"
proof (induction "length path" arbitrary: ip path name rule: less_induct)
  case less
  show ?case
    apply (subst inode_name_loop.simps)
    apply (rule keeps_option_eq)
     apply (intro keeps_intros)
    subgoal for x
      by (cases x) (simp only: prod.case, intro keeps_intros less.hyps[OF skipelem_shorter])
    done
qed

lemma upper_paths [keeps_intros]: "keeps upper (inode_name path)" "keeps upper (inode_name_parent path)"
  unfolding inode_name_def inode_name_parent_def inode_name_x_def by (intro keeps_intros)+

end
