(* ===== verification/File_Writes.thy ===== *)
theory File_Writes
  imports Open_Files Transactions Frames
begin

text \<open>
  \<open>OFile::write\<close> of \<open>src/File.cxx\<close> on a regular file: a sequence of transactions of at most three
  blocks of data. Each turn of its loop is a complete transaction that starts and ends in an idle
  state; the loop is the composition.
\<close>

section \<open>The table of open files beside the file system\<close>

lemma files_update_lower [simp]:
  "view (s\<lparr>files := x\<rparr>) = view s" "jinv H (s\<lparr>files := x\<rparr>) = jinv H s"
  "fs_inv (s\<lparr>files := x\<rparr>) = fs_inv s" "in_txn (s\<lparr>files := x\<rparr>) = in_txn s"
  "same_files s (s\<lparr>files := x\<rparr>)" "home_block (s\<lparr>files := x\<rparr>) = home_block s"
proof -
  show v: "view (s\<lparr>files := x\<rparr>) = view s" by (rule ext) (simp add: view_def split: option.split)
  show "home_block (s\<lparr>files := x\<rparr>) = home_block s"
    by (simp add: fun_eq_iff home_block_def in_image_def in_log_def)
  show sf: "same_files s (s\<lparr>files := x\<rparr>)" by (simp add: same_files_def v)
  have "pins (s\<lparr>files := x\<rparr>) = pins s" "log_wf (s\<lparr>files := x\<rparr>) = log_wf s"
    "log_geom (s\<lparr>files := x\<rparr>) = log_geom s" "cache_inv P H (s\<lparr>files := x\<rparr>) = cache_inv P H s" for P H
    by (simp_all add: pins_def logged_def log_wf_def home_block_def in_image_def in_log_def log_geom_def cache_inv_def)
  then show j: "jinv H (s\<lparr>files := x\<rparr>) = jinv H s" for H by (simp add: jinv_def)
  have "used (s\<lparr>files := x\<rparr>) = used s" "data_start (s\<lparr>files := x\<rparr>) = data_start s" "fs_geom (s\<lparr>files := x\<rparr>) = fs_geom s"
    by (simp_all add: fun_eq_iff used_def BIT_BLOCK_def data_start_def fs_geom_def v)
  then show i: "fs_inv (s\<lparr>files := x\<rparr>) = fs_inv s" by (simp add: fs_inv_def meta_used_def) (simp add: j)
  show "in_txn (s\<lparr>files := x\<rparr>) = in_txn s" by (simp add: in_txn_def i) (simp add: header_clear_def)
qed

text \<open>An open inode, ready to be locked.\<close>

definition open_inode :: "INodeKey \<Rightarrow> 'a inode_cache_scheme \<Rightarrow> bool" where
  "open_inode k s \<longleftrightarrow> (\<exists>n. inodes s k = Some n \<and> i_ref n \<ge> 1 \<and> \<not> i_locked n \<and> i_valid n)"

text \<open>What writing file \<open>k\<close> may do to the other files.\<close>

definition others_kept :: "INodeKey \<Rightarrow> 'a inode_cache_scheme \<Rightarrow> 'a inode_cache_scheme \<Rightarrow> bool" where
  "others_kept k s s' \<longleftrightarrow> (\<forall>k'. k' \<noteq> k \<and> file_ok k' s \<and> owned s k \<inter> owned s k' = {} \<longrightarrow>
     file_ok k' s' \<and> fcontent s' k' = fcontent s k' \<and> the_dinode s' k' = the_dinode s k' \<and>
     owned s' k \<inter> owned s' k' = {})"

lemma others_kept_trans: "others_kept k s t \<Longrightarrow> others_kept k t u \<Longrightarrow> others_kept k s u"
  by (simp add: others_kept_def)

lemma others_kept_same_files:
  assumes sf: "same_files s s'" and ok: "file_ok k s" and j: "jinv {} s'"
  shows "others_kept k s s'"
  using same_files_file[OF sf _ j] ok by (simp add: others_kept_def)

lemma others_kept_put_inode:
  assumes ok: "file_ok k s" and a: "di_addrs (i_dinode m) = di_addrs (the_dinode s k)"
  shows "others_kept k s (put_inode k m s)"
  using file_ok_put_inode(3)[OF ok a] file_put_other[of _ k m s]
  by (auto simp: others_kept_def the_dinode_def)

lemma others_kept_frame:
  assumes "file_frame k s s'" "fs_inv s'" "file_ok k s"
  shows "others_kept k s s'"
  using file_frame_other[OF assms] unfolding others_kept_def by blast

section \<open>One transaction\<close>

text \<open>The body of the loop of \<open>OFile::write\<close>, with what follows it.\<close>

definition write_turn :: "nat \<Rightarrow> INodeKey \<Rightarrow> byte list \<Rightarrow> (u32 \<Rightarrow> ('b, 'a fs_state_scheme) m) \<Rightarrow> ('b, 'a fs_state_scheme) m" where
  "write_turn f ip buf c =
     bnd begin_op (\<lambda>_.
     bnd (INode_lock ip) (\<lambda>_.
     bnd (deref_file f) (\<lambda>fl.
     bnd (INode_write ip buf (f_off fl)) (\<lambda>r.
     bnd (when_do (r > 0) (mod_file f (\<lambda>f. f\<lparr>f_off := f_off f + unat r\<rparr>))) (\<lambda>_.
     bnd (INode_unlock ip) (\<lambda>_.
     bnd end_op (\<lambda>_. c r)))))))"

text \<open>
  The file after \<open>tot\<close> bytes of \<open>buf\<close> were written at \<open>off\<close>, seen in an idle state \<open>s'\<close>: contents, size,
  the offset of the open file, and the rest.
\<close>

definition written :: "nat \<Rightarrow> INodeKey \<Rightarrow> byte list \<Rightarrow> nat \<Rightarrow> nat \<Rightarrow> 'a fs_state_scheme \<Rightarrow> 'a fs_state_scheme \<Rightarrow> bool" where
  "written f k buf off tot s s' \<longleftrightarrow> idle s' \<and> file_ok k s' \<and> open_inode k s' \<and> inum_ok s' (snd k) \<and>
     files s' = (files s)[f := (files s ! f)\<lparr>f_off := off + tot\<rparr>] \<and>
     fsize s' k = max (fsize s k) (off + tot) \<and>
     (\<forall>p. fcontent s' k p = (if off \<le> p \<and> p < off + tot then buf ! (p - off) else fcontent s k p)) \<and>
     disk_dinode s' (snd k) = the_dinode s' k \<and> (dense k s \<longrightarrow> dense k s') \<and>
     free_blocks s' \<subseteq> free_blocks s \<and> others_kept k s s'"

lemma upper_files: "inode_cache.more s' = inode_cache.more s \<Longrightarrow> files s' = files s"
  by (cases s, cases s') simp

lemma chunk_blocks: "n \<le> 3072 \<Longrightarrow> n + off mod 1024 \<le> 4 * (1024 :: nat)"
proof -
  assume "n \<le> 3072"
  moreover have "off mod 1024 < (1024 :: nat)" by (rule mod_less_divisor) simp
  ultimately show ?thesis by linarith
qed

lemma unat_minus1: "unat (-1 :: u32) = 4294967295"
  by (simp add: unsigned_minus_1_eq_mask mask_eq_exp_minus_1)

lemma advance_run:
  assumes "f < length (files s)" "unat r = tot"
  shows "when_do (r > 0) (mod_file f (\<lambda>fl. fl\<lparr>f_off := f_off fl + unat r\<rparr>)) s =
    Inr ((), s\<lparr>files := (files s)[f := (files s ! f)\<lparr>f_off := f_off (files s ! f) + tot\<rparr>]\<rparr>)"
proof (cases "r > 0")
  case True
  then show ?thesis using assms by (simp add: mod_file_def deref_file_def bnd_def)
next
  case False
  then have "tot = 0" using assms(2) by (simp add: word_neq_0_conv[symmetric])
  then show ?thesis using False by simp
qed

lemma lock_in_txn:
  assumes id: "idle s" and ok: "file_ok k s" and op: "open_inode k s"
  obtains n where "inodes s k = Some n" "i_ref n \<ge> 1" "begin_op s = Inr ((), begun s)"
    "INode_lock k (begun s) = Inr ((), put_inode k (n\<lparr>i_locked := True\<rparr>) (begun s))"
    "jinv {} (begun s)" "in_txn (begun s)" "room (begun s) 29" "same_files s (begun s)"
    "file_ok k (begun s)" "file_ok k (put_inode k (n\<lparr>i_locked := True\<rparr>) (begun s))"
    "fcontent (put_inode k (n\<lparr>i_locked := True\<rparr>) (begun s)) k = fcontent s k"
    "slots (put_inode k (n\<lparr>i_locked := True\<rparr>) (begun s)) k = slots s k"
    "the_dinode (put_inode k (n\<lparr>i_locked := True\<rparr>) (begun s)) k = the_dinode s k"
    "others_kept k s (put_inode k (n\<lparr>i_locked := True\<rparr>) (begun s))"
proof -
  obtain n where n: "inodes s k = Some n" "i_ref n \<ge> 1" "\<not> i_locked n" "i_valid n"
    using op by (auto simp: open_inode_def)
  note b = begin_op_idle[OF id]
  have j: "jinv {} (begun s)" using b(2) by (simp add: in_txn_def fs_inv_def)
  note sf = same_files_file[OF b(4) ok j]
  have n1: "inodes (begun s) k = Some n" using n(1) by (simp add: begun_def)
  have a: "di_addrs (i_dinode (n\<lparr>i_locked := True\<rparr>)) = di_addrs (the_dinode (begun s) k)"
    using n1 by (simp add: the_dinode_def)
  note p = file_ok_put_inode[OF sf(1) a]
  have lk: "INode_lock k (begun s) = Inr ((), put_inode k (n\<lparr>i_locked := True\<rparr>) (begun s))"
    using INode_lock_cached[OF n1 n(2-4)] .
  have td: "the_dinode (put_inode k (n\<lparr>i_locked := True\<rparr>) (begun s)) k = the_dinode s k"
    using n(1) by (simp add: the_dinode_def)
  have oth: "others_kept k s (put_inode k (n\<lparr>i_locked := True\<rparr>) (begun s))"
    using others_kept_same_files[OF b(4) ok j] others_kept_put_inode[OF sf(1) a] by (rule others_kept_trans)
  show thesis
    by (rule that[OF n(1,2) b(1) lk j b(2,3,4) sf(1) p(1) _ _ td oth]) (use p sf in simp_all)
qed

text \<open>Unlocking and ending the transaction keeps what was written.\<close>

lemma unlock_end:
  assumes t: "in_txn s" and ok: "file_ok k s" and n: "inodes s k = Some n" "i_ref n \<ge> 1" "i_locked n" "i_valid n"
  obtains s' im tr bl h where "bnd (INode_unlock k) (\<lambda>_. end_op) s = Inr ((), s')" "idle s'" "file_ok k s'"
    "open_inode k s'" "s' = settle im tr bl h (put_inode k (n\<lparr>i_locked := False\<rparr>) s)"
    "fcontent s' k = fcontent s k" "slots s' k = slots s k" "the_dinode s' k = the_dinode s k"
    "free_blocks s' = free_blocks s" "others_kept k s s'" "same_files (put_inode k (n\<lparr>i_locked := False\<rparr>) s) s'"
    "inum_ok s' = inum_ok s" "\<And>i. inum_ok s i \<Longrightarrow> disk_dinode s' i = disk_dinode s i"
proof -
  let ?t = "put_inode k (n\<lparr>i_locked := False\<rparr>) s"
  have a: "di_addrs (i_dinode (n\<lparr>i_locked := False\<rparr>)) = di_addrs (the_dinode s k)"
    using n(1) by (simp add: the_dinode_def)
  note p = file_ok_put_inode[OF ok a]
  have "in_txn ?t" using t by simp
  from end_op_idle[OF this] obtain s' im tr bl h where e: "end_op ?t = Inr ((), s')" "idle s'" "same_files ?t s'"
    "s' = settle im tr bl h ?t" by blast
  have j: "jinv {} s'" using e(2) by (simp add: idle_def fs_inv_def)
  have i: "fs_inv ?t" using file_ok_basic(1)[OF p(1)] .
  note sf = same_files_file[OF e(3) p(1) j]
  have run: "bnd (INode_unlock k) (\<lambda>_. end_op) s = Inr ((), s')"
    using INode_unlock_run[OF n(1-3)] e(1) by (simp add: bnd_def)
  have ino: "inodes s' k = Some (n\<lparr>i_locked := False\<rparr>)" using e(3) by (simp add: same_files_def)
  have op: "open_inode k s'" using ino n by (simp add: open_inode_def)
  have td: "the_dinode s' k = the_dinode s k" using ino n(1) by (simp add: the_dinode_def)
  have fb: "free_blocks s' = free_blocks s" using same_files_inv(2)[OF e(3) i j] by simp
  have oth: "others_kept k s s'"
    using others_kept_put_inode[OF ok a] others_kept_same_files[OF e(3) p(1) j] by (rule others_kept_trans)
  have io: "inum_ok s' = inum_ok s" using same_files_geom(6)[OF e(3)] by (simp add: fun_eq_iff inum_ok_def)
  have dd: "disk_dinode s' i' = disk_dinode s i'" if "inum_ok s i'" for i'
    using same_files_inv(3)[OF e(3) i j, of i'] that by (simp add: inum_ok_def disk_dinode_def)
  show thesis
    by (rule that[OF run e(2) sf(1) op e(4) _ _ td fb oth e(3) io dd]) (use sf p in simp_all)
qed

lemma write_turn_run:
  assumes id: "idle s" and ok: "file_ok k s" and op: "open_inode k s" and i: "inum_ok s (snd k)"
    and f: "f < length (files s)" and off: "f_off (files s ! f) = off" "off \<le> fsize s k"
    and l: "length buf \<le> WRITE_MAX" and e: "off + length buf \<le> MAX_FILE * BSIZE"
  shows "\<exists>tot s'. write_turn f k buf c s = c (of_nat tot) s' \<and> tot \<le> length buf \<and>
    (tot < length buf \<longrightarrow> card (free_blocks s') < 8) \<and> written f k buf off tot s s'"
proof -
  obtain n where n: "inodes s k = Some n" "i_ref n \<ge> 1" "begin_op s = Inr ((), begun s)"
    "INode_lock k (begun s) = Inr ((), put_inode k (n\<lparr>i_locked := True\<rparr>) (begun s))"
    "jinv {} (begun s)" "in_txn (begun s)" "room (begun s) 29" "same_files s (begun s)"
    "file_ok k (begun s)" "file_ok k (put_inode k (n\<lparr>i_locked := True\<rparr>) (begun s))"
    "fcontent (put_inode k (n\<lparr>i_locked := True\<rparr>) (begun s)) k = fcontent s k"
    "slots (put_inode k (n\<lparr>i_locked := True\<rparr>) (begun s)) k = slots s k"
    "the_dinode (put_inode k (n\<lparr>i_locked := True\<rparr>) (begun s)) k = the_dinode s k"
    "others_kept k s (put_inode k (n\<lparr>i_locked := True\<rparr>) (begun s))"
    by (rule lock_in_txn[OF id ok op])
  let ?s2 = "put_inode k (n\<lparr>i_locked := True\<rparr>) (begun s)"
  have i2: "inum_ok ?s2 (snd k)" using i by (simp add: inum_ok_def begun_def)
  have fs2: "fsize ?s2 k = fsize s k" using n(13) by (simp add: fsize_def)
  have fb2: "free_blocks ?s2 = free_blocks s"
    using same_files_inv(2)[OF n(8) file_ok_basic(1)[OF ok] n(5)] by simp
  have r2: "room ?s2 (6 * 4 + 1)" using room_le[OF n(7)] by simp
  obtain tot s3 where w: "INode_write k buf off ?s2 = Inr (of_nat tot, s3)" "tot \<le> length buf"
    "8 \<le> card (free_blocks s) \<longrightarrow> tot = length buf" "file_ok k s3" "file_frame k ?s2 s3"
    "fsize s3 k = max (fsize s k) (off + tot)" "disk_dinode s3 (snd k) = the_dinode s3 k"
    "\<forall>p. fcontent s3 k p = (if off \<le> p \<and> p < off + tot then buf ! (p - off) else fcontent s k p)"
    "dense k ?s2 \<longrightarrow> dense k s3" "free_blocks s3 \<subseteq> free_blocks s"
    "inodes s3 k = Some (n\<lparr>i_locked := True, i_dinode := the_dinode s3 k\<rparr>)"
    using INode_write_run[OF n(10) i2 _ e chunk_blocks r2] off(2) l fs2 fb2 n(11) by auto
  have up: "files s3 = files s"
    using upper_files[OF keepsD[OF upper_inodes(2) w(1)]] by (simp add: begun_def put_inode_def)
  have t3: "in_txn s3"
    using in_txn_frame[of ?s2 s3] n(6) w(5) file_ok_basic(1)[OF w(4)] by (simp add: file_frame_def)
  let ?s4 = "s3\<lparr>files := (files s)[f := (files s ! f)\<lparr>f_off := off + tot\<rparr>]\<rparr>"
  have adv: "when_do (of_nat tot > (0 :: u32)) (mod_file f (\<lambda>fl. fl\<lparr>f_off := f_off fl + unat (of_nat tot :: u32)\<rparr>)) s3 = Inr ((), ?s4)"
  proof -
    have "unat (of_nat tot :: u32) = tot" using w(2) l by (intro unat_block_number) simp
    from advance_run[OF _ this, of f s3] show ?thesis unfolding up off(1) using f by simp
  qed
  have j3: "jinv {} s3" using t3 by (simp add: in_txn_def fs_inv_def)
  note sf4 = same_files_file[OF files_update_lower(5) w(4), of "(files s)[f := (files s ! f)\<lparr>f_off := off + tot\<rparr>]"]
  have ok4: "file_ok k ?s4" using sf4(1) j3 by simp
  have fb4: "free_blocks ?s4 = free_blocks s3"
    using same_files_inv(2)[OF files_update_lower(5) file_ok_basic(1)[OF w(4)]] j3 by simp
  let ?n = "n\<lparr>i_locked := True, i_dinode := the_dinode s3 k\<rparr>"
  have t4: "in_txn ?s4" using t3 by simp
  have n4: "inodes ?s4 k = Some ?n" "i_ref ?n \<ge> 1" "i_locked ?n" "i_valid ?n"
    using w(11) n(1,2) op by (simp_all add: open_inode_def)
  obtain s' im tr bl h where u: "bnd (INode_unlock k) (\<lambda>_. end_op) ?s4 = Inr ((), s')" "idle s'" "file_ok k s'"
    "open_inode k s'" "s' = settle im tr bl h (put_inode k (?n\<lparr>i_locked := False\<rparr>) ?s4)"
    "fcontent s' k = fcontent ?s4 k" "slots s' k = slots ?s4 k" "the_dinode s' k = the_dinode ?s4 k"
    "free_blocks s' = free_blocks ?s4" "others_kept k ?s4 s'"
    "same_files (put_inode k (?n\<lparr>i_locked := False\<rparr>) ?s4) s'" "inum_ok s' = inum_ok ?s4"
    "\<And>i. inum_ok ?s4 i \<Longrightarrow> disk_dinode s' i = disk_dinode ?s4 i"
    by (rule unlock_end[OF t4 ok4 n4]) blast
  have "INode_unlock k ?s4 = Inr ((), put_inode k (?n\<lparr>i_locked := False\<rparr>) ?s4)"
    by (rule INode_unlock_run[OF n4(1-3)])
  then have "write_turn f k buf c s = c (of_nat tot) s'"
    using n(3,4) w(1) adv u(1) f off(1)
    by (simp add: write_turn_def bnd_def deref_file_def begun_def put_inode_def split: sum.splits prod.splits)
  moreover have "tot < length buf \<longrightarrow> card (free_blocks s') < 8"
  proof -
    have "card (free_blocks s3) \<le> card (free_blocks s)" by (rule card_mono[OF finite_free_blocks w(10)])
    then show ?thesis using w(3) fb4 u(9) by auto
  qed
  moreover have "written f k buf off tot s s'"
    unfolding written_def
  proof (intro conjI u(2-4))
    show "inum_ok s' (snd k)" using i w(5) u(12) by (simp add: inum_ok_def file_frame_def same_env_def begun_def)
    show "files s' = (files s)[f := (files s ! f)\<lparr>f_off := off + tot\<rparr>]"
      unfolding u(5) by (simp add: settle_def put_inode_def)
    have td: "the_dinode s' k = the_dinode s3 k" using u(8) sf4(5) j3 by simp
    then show sz: "fsize s' k = max (fsize s k) (off + tot)" using w(6) by (simp add: fsize_def)
    show "\<forall>p. fcontent s' k p = (if off \<le> p \<and> p < off + tot then buf ! (p - off) else fcontent s k p)"
      using w(8) u(6) sf4(3) j3 by simp
    have "inum_ok ?s4 (snd k)" using i w(5) by (simp add: inum_ok_def file_frame_def same_env_def begun_def)
    moreover have "disk_dinode ?s4 (snd k) = disk_dinode s3 (snd k)" by (simp add: disk_dinode_def INODE_BLOCK_def)
    ultimately show "disk_dinode s' (snd k) = the_dinode s' k" using u(13) w(7) td by simp
    have "slots s' k = slots s3 k" using u(7) sf4(2) j3 by simp
    then have "dense k s' = dense k s3" using td by (simp add: dense_def fsize_def)
    moreover have "dense k ?s2 = dense k s" using n(12) fs2 by (simp add: dense_def)
    ultimately show "dense k s \<longrightarrow> dense k s'" using w(9) by simp
    show "free_blocks s' \<subseteq> free_blocks s" using w(10) u(9) fb4 by simp
    have "others_kept k ?s2 s3" by (rule others_kept_frame[OF w(5) file_ok_basic(1)[OF w(4)] n(10)])
    moreover have "others_kept k s3 ?s4" using others_kept_same_files[OF files_update_lower(5) w(4)] j3 by simp
    ultimately show "others_kept k s s'" using n(14) u(10) others_kept_trans by blast
  qed
  ultimately show ?thesis using w(2) by blast
qed

section \<open>The loop\<close>

lemma OFile_write_loop_turn:
  "i < length addr \<Longrightarrow> OFile_write_loop f k addr i = write_turn f k (take (min (length addr - i) 3072) (drop i addr))
     (\<lambda>r. if r \<noteq> of_nat (min (length addr - i) 3072) then ret i
       else OFile_write_loop f k addr (i + min (length addr - i) 3072))"
  by (subst OFile_write_loop.simps) (simp add: write_turn_def Let_def)

lemma written_prefix:
  "written f k (take n buf) off tot s s' \<Longrightarrow> tot \<le> n \<Longrightarrow> written f k buf off tot s s'"
  by (auto simp: written_def)

lemma written_refl:
  assumes "idle s" "file_ok k s" "open_inode k s" "inum_ok s (snd k)" "f_off (files s ! f) = off" "off \<le> fsize s k"
    "disk_dinode s (snd k) = the_dinode s k"
  shows "written f k buf off 0 s s"
  using assms by (auto simp: written_def others_kept_def max_def)

lemma written_trans:
  assumes a: "written f k buf off n s t" and b: "written f k (drop n buf) (off + n) tot t u"
    and f: "f < length (files s)" and n: "n \<le> length buf"
  shows "written f k buf off (n + tot) s u"
proof -
  have "fcontent u k p = (if off \<le> p \<and> p < off + (n + tot) then buf ! (p - off) else fcontent s k p)" for p
  proof (cases "off + n \<le> p \<and> p < off + n + tot")
    case True
    then have "drop n buf ! (p - (off + n)) = buf ! (p - off)" using n by simp
    then show ?thesis using True b by (auto simp: written_def)
  next
    case False
    then show ?thesis using a b by (auto simp: written_def)
  qed
  moreover have "files u = (files s)[f := (files s ! f)\<lparr>f_off := off + (n + tot)\<rparr>]"
    using a b f by (simp add: written_def add.assoc)
  moreover have "others_kept k s u" using others_kept_trans[of k s t u] a b by (simp add: written_def)
  moreover have "fsize u k = max (fsize s k) (off + (n + tot))" using a b by (auto simp: written_def)
  ultimately show ?thesis using a b unfolding written_def by blast
qed

lemma OFile_write_loop_run:
  assumes "idle s" "file_ok k s" "open_inode k s" "inum_ok s (snd k)" "disk_dinode s (snd k) = the_dinode s k"
    and "f < length (files s)" "f_off (files s ! f) = off + i" "off + i \<le> fsize s k"
    and "off + length addr \<le> MAX_FILE * BSIZE" "i \<le> length addr"
  shows "\<exists>i' tot s'. OFile_write_loop f k addr i s = Inr (i', s') \<and> i + tot \<le> length addr \<and>
    (i' = length addr \<longleftrightarrow> i + tot = length addr) \<and>
    (i + tot < length addr \<longrightarrow> card (free_blocks s') < 8) \<and> written f k (drop i addr) (off + i) tot s s'"
  using assms
proof (induction "length addr - i" arbitrary: i s rule: less_induct)
  case less
  note A = less.prems
  show ?case
  proof (cases "i < length addr")
    case False
    then have "i = length addr" using A by simp
    moreover have "written f k (drop i addr) (off + i) 0 s s" using A by (intro written_refl) auto
    ultimately show ?thesis
      by - (rule exI[of _ i], rule exI[of _ 0], rule exI[of _ s], simp add: OFile_write_loop.simps[of f k addr "length addr"])
  next
    case True
    define n where "n = min (length addr - i) 3072"
    have n: "0 < n" "n \<le> 3072" "i + n \<le> length addr" using True by (auto simp: n_def)
    have l: "length (take n (drop i addr)) = n" using n by simp
    let ?c = "\<lambda>r :: u32. if r \<noteq> of_nat n then ret i else OFile_write_loop f k addr (i + n)"
    have p: "length (take n (drop i addr)) \<le> WRITE_MAX" "off + i + length (take n (drop i addr)) \<le> MAX_FILE * BSIZE"
      using n A(9) unfolding l by simp_all
    obtain tot t where t: "write_turn f k (take n (drop i addr)) ?c s = ?c (of_nat tot) t" "tot \<le> n"
      "tot < n \<longrightarrow> card (free_blocks t) < 8" "written f k (take n (drop i addr)) (off + i) tot s t"
      using write_turn_run[OF A(1-4,6,7,8) p, of ?c] unfolding l by blast
    have w: "written f k (drop i addr) (off + i) tot s t" using written_prefix[OF t(4,2)] .
    have run: "OFile_write_loop f k addr i s = ?c (of_nat tot) t"
      unfolding OFile_write_loop_turn[OF True] n_def[symmetric] by (rule t(1))
    have small: "(of_nat tot :: u32) = of_nat n \<longleftrightarrow> tot = n"
    proof -
      have "unat (of_nat tot :: u32) = tot" "unat (of_nat n :: u32) = n"
        using n(2) t(2) by (auto intro!: unat_block_number)
      then show ?thesis by metis
    qed
    show ?thesis
    proof (cases "tot = n")
      case False
      then have "OFile_write_loop f k addr i s = Inr (i, t)" using run small by simp
      with False w t n True show ?thesis by - (rule exI[of _ i], rule exI[of _ tot], rule exI[of _ t], auto)
    next
      case full: True
      have B: "idle t" "file_ok k t" "open_inode k t" "inum_ok t (snd k)" "disk_dinode t (snd k) = the_dinode t k"
        "f < length (files t)" "f_off (files t ! f) = off + (i + n)" "off + (i + n) \<le> fsize t k"
        using w A(6) full by (simp_all add: written_def add.assoc)
      have dec: "length addr - (i + n) < length addr - i" using n True by linarith
      obtain i' tot' u where u: "OFile_write_loop f k addr (i + n) t = Inr (i', u)" "i + n + tot' \<le> length addr"
        "i' = length addr \<longleftrightarrow> i + n + tot' = length addr" "i + n + tot' < length addr \<longrightarrow> card (free_blocks u) < 8"
        "written f k (drop (i + n) addr) (off + (i + n)) tot' t u"
        using less.hyps[OF dec B A(9) n(3)] by blast
      have "written f k (drop n (drop i addr)) (off + i + n) tot' t u" using u(5) by (simp add: add.commute add.left_commute)
      then have "written f k (drop i addr) (off + i) (n + tot') s u"
        using written_trans[of f k "drop i addr" "off + i" n s t tot' u] w full A(6) n by simp
      with u run full show ?thesis by - (rule exI[of _ i'], rule exI[of _ "n + tot'"], rule exI[of _ u], simp add: add.assoc)
    qed
  qed
qed

section \<open>A concrete state\<close>

text \<open>The layers above, put on top of a state of the inode cache.\<close>

lemma extend_fields [simp]:
  fixes s :: inode_cache
  shows "mmap_base (inode_cache.extend s m) = mmap_base s" "st_size (inode_cache.extend s m) = st_size s"
    "blocks (inode_cache.extend s m) = blocks s" "sb_size (inode_cache.extend s m) = sb_size s"
    "sb_ninodes (inode_cache.extend s m) = sb_ninodes s" "sb_inodestart (inode_cache.extend s m) = sb_inodestart s"
    "sb_bmapstart (inode_cache.extend s m) = sb_bmapstart s" "log_start (inode_cache.extend s m) = log_start s"
    "log_size (inode_cache.extend s m) = log_size s" "outstanding (inode_cache.extend s m) = outstanding s"
    "committing (inode_cache.extend s m) = committing s" "log_dev (inode_cache.extend s m) = log_dev s"
    "log_hdr (inode_cache.extend s m) = log_hdr s" "inodes (inode_cache.extend s m) = inodes s"
  by (simp_all add: inode_cache.extend_def)

lemma extend_lower [simp]:
  fixes s :: inode_cache
  shows "view (inode_cache.extend s m) = view s" "used (inode_cache.extend s m) = used s"
    "data_block (inode_cache.extend s m) = data_block s" "room (inode_cache.extend s m) = room s"
    "inum_ok (inode_cache.extend s m) = inum_ok s" "fs_inv (inode_cache.extend s m) = fs_inv s"
    "header_clear (inode_cache.extend s m) = header_clear s" "logged (inode_cache.extend s m) = logged s"
proof -
  show v: "view (inode_cache.extend s m) = view s" by (rule ext) (simp add: view_def split: option.split)
  show u: "used (inode_cache.extend s m) = used s" by (rule ext) (simp add: used_def BIT_BLOCK_def v)
  show lg: "logged (inode_cache.extend s m) = logged s" by (simp add: logged_def)
  have "home_block (inode_cache.extend s m) = home_block s"
    by (rule ext) (simp add: home_block_def in_image_def in_log_def)
  then have "jinv {} (inode_cache.extend s m) = jinv {} s"
    by (simp add: jinv_def log_geom_def log_wf_def pins_def lg) (simp add: cache_inv_def)
  moreover have "data_start (inode_cache.extend s m) = data_start s" by (simp add: data_start_def)
  ultimately show "fs_inv (inode_cache.extend s m) = fs_inv s"
    by (simp add: fs_inv_def meta_used_def u) (simp add: fs_geom_def)
qed (simp_all add: fun_eq_iff data_block_def data_start_def room_def inum_ok_def header_clear_def)

lemma extend_file [simp]:
  fixes s :: inode_cache
  shows "file_ok k (inode_cache.extend s m) = file_ok k s" "fsize (inode_cache.extend s m) = fsize s"
proof -
  have td: "the_dinode (inode_cache.extend s m) = the_dinode s" by (rule ext) (simp add: the_dinode_def)
  have "slots (inode_cache.extend s m) = slots s" by (intro ext) (simp add: slots_def Let_def td)
  then show "file_ok k (inode_cache.extend s m) = file_ok k s" by (simp add: file_ok_def)
  show "fsize (inode_cache.extend s m) = fsize s" by (rule ext) (simp add: fsize_def td)
qed

definition demo_ofile :: OFile where
  "demo_ofile = \<lparr>f_type = FD_INODE, f_pipe = 0, f_ip = (1, 1), f_off = 0, f_major = 0,
     f_readable = True, f_writable = True, f_ref = 1\<rparr>"

definition demo_open :: fs_state where
  "demo_open = inode_cache.extend demo_file
     (fs_state.fields [demo_ofile] Map.empty 0 (replicate NDEV \<lparr>d_read = False, d_write = False\<rparr>) [] [])"

lemma demo_open_facts [simp]:
  "file_ok (1, 1) demo_open" "in_txn demo_open" "room demo_open 29" "inum_ok demo_open 1"
  "inodes demo_open (1, 1) = Some demo_inode" "files demo_open = [demo_ofile]" "fsize demo_open (1, 1) = 0"
  by (simp_all add: demo_open_def in_txn_def)
     (simp_all add: demo_file_defs header_clear_def get_u32_def fs_state.defs)

lemma demo_idle:
  "\<exists>s :: fs_state. idle s \<and> file_ok (1, 1) s \<and> open_inode (1, 1) s \<and> inum_ok s 1 \<and>
     disk_dinode s 1 = the_dinode s (1, 1) \<and> files s = [demo_ofile] \<and> fsize s (1, 1) = 0"
proof -
  have i: "fs_inv demo_open" using demo_open_facts(2) by (simp only: in_txn_def)
  have lr: "log_room demo_open" using room_log_room[of demo_open 0] room_le[OF demo_open_facts(3), of 1] fs_inv_geom(1)[OF i] by simp
  have io: "inum_ok demo_open (snd (1, 1))" by simp
  let ?s = "iupdate (1, 1) demo_open"
  note u = iupdate_file[OF demo_open_facts(1) lr io]
  have t: "in_txn ?s"
    using demo_open_facts(2) fs_inv_iupdate[OF i lr io] by (simp add: in_txn_def iupdate_def header_clear_def)
  have n: "inodes ?s (1, 1) = Some demo_inode" "i_ref demo_inode \<ge> 1" "i_locked demo_inode" "i_valid demo_inode"
    by (simp_all add: iupdate_def) (simp_all add: demo_inode_def)
  have wf: "dinode_wf (the_dinode demo_open (1, 1))" by (simp add: the_dinode_def) (simp add: demo_inode_def dinode_wf_def)
  have dd: "disk_dinode ?s 1 = i_dinode demo_inode"
    using disk_dinode_iupdate[OF i io _ wf, of 1] by (simp add: the_dinode_def)
  obtain s' im tr bl h where s': "idle s'" "file_ok (1, 1) s'" "open_inode (1, 1) s'"
    "s' = settle im tr bl h (put_inode (1, 1) (demo_inode\<lparr>i_locked := False\<rparr>) ?s)"
    "the_dinode s' (1, 1) = the_dinode ?s (1, 1)" "inum_ok s' = inum_ok ?s"
    "\<And>i. inum_ok ?s i \<Longrightarrow> disk_dinode s' i = disk_dinode ?s i"
    by (rule unlock_end[OF t u(1) n]) blast
  have "files ?s = files demo_open" by (simp add: iupdate_def logd_def setd_def add_log_def)
  then have "files s' = [demo_ofile]" unfolding s'(4) by (simp add: settle_def put_inode_def)
  moreover have td: "the_dinode s' (1, 1) = i_dinode demo_inode" using s'(5) by (simp add: the_dinode_def)
  moreover have "fsize s' (1, 1) = 0" unfolding fsize_def td by (simp add: demo_inode_def)
  moreover have "inum_ok s' 1" "disk_dinode s' 1 = i_dinode demo_inode" using s'(6,7) dd by simp_all
  ultimately show ?thesis using s'(1-3) by (intro exI[of _ s']) simp
qed

section \<open>Properties\<close>

text \<open>
  C25: \<open>OFile::write\<close> of a regular file as a sequence of transactions. The call returns; it stores a
  prefix of the buffer at the offset of the open file, all of it unless fewer than eight blocks are
  left, and returns the length of the buffer or \<open>-1\<close> accordingly. The offset advances by what was
  stored, the inode on disk has the new size and blocks, every other file keeps its contents, the log
  is empty again, and the image holds every block as the cache shows it: what was written is durable.
\<close>

theorem OFile_write_durable:
  assumes "idle s" "file_ok k s" "open_inode k s" "inum_ok s (snd k)" "disk_dinode s (snd k) = the_dinode s k"
    and "f < length (files s)" "f_type (files s ! f) = FD_INODE" "f_ip (files s ! f) = k" "f_readable (files s ! f)"
    and "f_off (files s ! f) = off" "off \<le> fsize s k" "off + length addr \<le> MAX_FILE * BSIZE"
  shows "\<exists>tot s'. OFile_write f addr s = Inr (if tot = length addr then int (length addr) else -1, s') \<and>
    tot \<le> length addr \<and> (tot < length addr \<longrightarrow> card (free_blocks s') < 8) \<and>
    written f k addr off tot s s' \<and>
    (\<forall>b. home_block s' b \<longrightarrow> mmap_base s' (unat b) = view s' (log_dev s', b))"
proof -
  obtain i' tot s' where l: "OFile_write_loop f k addr 0 s = Inr (i', s')" "tot \<le> length addr"
    "i' = length addr \<longleftrightarrow> tot = length addr" "tot < length addr \<longrightarrow> card (free_blocks s') < 8"
    "written f k addr off tot s s'"
    using OFile_write_loop_run[OF assms(1-6), of off 0 addr] assms(10-12) by auto
  have "OFile_write f addr s = Inr (if tot = length addr then int (length addr) else -1, s')"
    using assms(6-9) l(1,3) by (simp add: OFile_write_def bnd_def deref_file_def)
  moreover have "\<forall>b. home_block s' b \<longrightarrow> mmap_base s' (unat b) = view s' (log_dev s', b)"
    using l(5) idle_image by (auto simp: written_def)
  ultimately show ?thesis using l by blast
qed

theorem OFile_write_durable_witness:
  "\<exists>s :: fs_state. idle s \<and> files s = [demo_ofile] \<and> (\<exists>tot s'. OFile_write 0 (cstr ''hello'') s =
     Inr (if tot = 5 then 5 else -1, s') \<and> written 0 (1, 1) (cstr ''hello'') 0 tot s s')"
proof -
  obtain s :: fs_state where s: "idle s" "file_ok (1, 1) s" "open_inode (1, 1) s" "inum_ok s 1"
    "disk_dinode s 1 = the_dinode s (1, 1)" "files s = [demo_ofile]" "fsize s (1, 1) = 0"
    using demo_idle by blast
  have l: "length (cstr ''hello'') = 5" by (simp add: cstr_def)
  show ?thesis
    using OFile_write_durable[of s "(1, 1)" 0 0 "cstr ''hello''", unfolded l] s
    by (intro exI[of _ s]) (auto simp: demo_ofile_def)
qed

text \<open>
  C28: a refused write moves the offset. The result of \<open>INode::write\<close> is unsigned, so its \<open>-1\<close> passes the
  test \<open>r > 0\<close>: a write behind the end of the file, or past the largest file, fails with \<open>-1\<close> but leaves
  the open file positioned \<open>2 ^ 32 - 1\<close> bytes further on. Nothing else changes.
\<close>

theorem OFile_write_refused_offset:
  assumes id: "idle s" and ok: "file_ok k s" and op: "open_inode k s" and f: "f < length (files s)"
    and fl: "f_type (files s ! f) = FD_INODE" "f_ip (files s ! f) = k" "f_readable (files s ! f)"
    and a: "addr \<noteq> []" "length addr \<le> WRITE_MAX"
    and bad: "fsize s k < f_off (files s ! f) \<or> MAX_FILE * BSIZE < f_off (files s ! f) + length addr"
  shows "\<exists>s'. OFile_write f addr s = Inr (-1, s') \<and> idle s' \<and> file_ok k s' \<and>
    fcontent s' k = fcontent s k \<and> fsize s' k = fsize s k \<and>
    f_off (files s' ! f) = f_off (files s ! f) + 4294967295"
proof -
  let ?off = "f_off (files s ! f)"
  obtain n where n: "inodes s k = Some n" "i_ref n \<ge> 1" "begin_op s = Inr ((), begun s)"
    "INode_lock k (begun s) = Inr ((), put_inode k (n\<lparr>i_locked := True\<rparr>) (begun s))"
    "in_txn (begun s)" "file_ok k (put_inode k (n\<lparr>i_locked := True\<rparr>) (begun s))"
    "fcontent (put_inode k (n\<lparr>i_locked := True\<rparr>) (begun s)) k = fcontent s k"
    "the_dinode (put_inode k (n\<lparr>i_locked := True\<rparr>) (begun s)) k = the_dinode s k"
    by (rule lock_in_txn[OF id ok op]) blast
  let ?n = "n\<lparr>i_locked := True\<rparr>"
  let ?s2 = "put_inode k ?n (begun s)"
  have fs2: "files ?s2 = files s" by (simp add: begun_def put_inode_def)
  have w: "INode_write k addr ?off ?s2 = Inr (-1, ?s2)"
  proof -
    have "unat (di_size (i_dinode ?n)) < ?off \<or> MAX_FILE * BSIZE < ?off + length addr"
      using bad n(1) by (simp add: fsize_def the_dinode_def)
    then show ?thesis by (auto simp: INode_write_def bnd_def)
  qed
  let ?s4 = "?s2\<lparr>files := (files s)[f := (files s ! f)\<lparr>f_off := ?off + 4294967295\<rparr>]\<rparr>"
  have adv: "when_do (-1 > (0 :: u32)) (mod_file f (\<lambda>fl. fl\<lparr>f_off := f_off fl + unat (-1 :: u32)\<rparr>)) ?s2 = Inr ((), ?s4)"
    using advance_run[of f ?s2 "-1 :: u32" 4294967295] f unfolding fs2 by (simp add: unat_minus1)
  have j2: "jinv {} ?s2" using file_ok_basic(1)[OF n(6)] by (simp add: fs_inv_def)
  note sf4 = same_files_file[OF files_update_lower(5) n(6), of "(files s)[f := (files s ! f)\<lparr>f_off := ?off + 4294967295\<rparr>]"]
  have ok4: "file_ok k ?s4" using sf4(1) j2 by simp
  have n4: "inodes ?s4 k = Some ?n" "i_ref ?n \<ge> 1" "i_locked ?n" "i_valid ?n"
    using n(1,2) op by (simp_all add: open_inode_def)
  have t4: "in_txn ?s4" using n(5) by simp
  obtain s' im tr bl h where u: "bnd (INode_unlock k) (\<lambda>_. end_op) ?s4 = Inr ((), s')" "idle s'" "file_ok k s'"
    "s' = settle im tr bl h (put_inode k (?n\<lparr>i_locked := False\<rparr>) ?s4)"
    "fcontent s' k = fcontent ?s4 k" "the_dinode s' k = the_dinode ?s4 k"
    by (rule unlock_end[OF t4 ok4 n4]) blast
  have turn: "write_turn f k addr c s = c (-1) s'" for c :: "u32 \<Rightarrow> (nat, 'a fs_state_scheme) m"
    using n(3,4) w adv u(1) f INode_unlock_run[OF n4(1-3)]
    by (simp add: write_turn_def bnd_def deref_file_def begun_def put_inode_def split: sum.splits prod.splits)
  have "(-1 :: u32) \<noteq> of_nat (length addr)"
  proof
    assume "(-1 :: u32) = of_nat (length addr)"
    then have "4294967295 = unat (of_nat (length addr) :: u32)" using unat_minus1 by metis
    also have "\<dots> = length addr" using a(2) by (intro unat_block_number) simp
    finally show False using a(2) by simp
  qed
  moreover have "min (length addr - 0) 3072 = length addr" "take (length addr) (drop 0 addr) = addr" "0 < length addr"
    using a by simp_all
  note loop = OFile_write_loop_turn[OF this(3), of f k, unfolded this]
  have "OFile_write_loop f k addr 0 s = (if (-1 :: u32) \<noteq> of_nat (length addr) then ret 0
      else OFile_write_loop f k addr (0 + length addr)) s'"
    unfolding loop by (rule turn)
  ultimately have "OFile_write_loop f k addr 0 s = Inr (0, s')" by simp
  then have "OFile_write f addr s = Inr (-1, s')" using f fl a(1) by (simp add: OFile_write_def bnd_def deref_file_def)
  moreover have "f_off (files s' ! f) = ?off + 4294967295"
    unfolding u(4) using f by (simp add: settle_def put_inode_def)
  moreover have "fcontent s' k = fcontent s k" "fsize s' k = fsize s k"
    using u(5,6) sf4(3,5) j2 n(7,8) by (simp_all add: fsize_def)
  ultimately show ?thesis using u(2,3) by blast
qed

theorem OFile_write_refused_offset_witness:
  "\<exists>s s' :: fs_state. idle s \<and> fsize s (1, 1) < f_off (files s ! 0) \<and>
     OFile_write 0 (cstr ''x'') s = Inr (-1, s') \<and> f_off (files s' ! 0) = 4294967296"
proof -
  obtain s :: fs_state where s: "idle s" "file_ok (1, 1) s" "open_inode (1, 1) s" "fsize s (1, 1) = 0"
    using demo_idle by blast
  let ?s = "s\<lparr>files := [demo_ofile\<lparr>f_off := 1\<rparr>]\<rparr>"
  have j: "jinv {} s" using s(1) by (simp add: idle_def fs_inv_def)
  note sf = same_files_file[OF files_update_lower(5) s(2), of "[demo_ofile\<lparr>f_off := 1\<rparr>]"]
  have "idle ?s" using s(1) by (simp add: idle_def) (simp add: header_clear_def logged_def)
  moreover have "file_ok (1, 1) ?s" "fsize ?s (1, 1) = 0" using sf j s(4) by simp_all
  moreover have "open_inode (1, 1) ?s" using s(3) by (simp add: open_inode_def)
  moreover have f: "fsize ?s (1, 1) < f_off (files ?s ! 0)" "f_off (files ?s ! 0) = 1"
    "f_type (files ?s ! 0) = FD_INODE" "f_ip (files ?s ! 0) = (1, 1)" "f_readable (files ?s ! 0)" "0 < length (files ?s)"
    using calculation(3) by (simp_all add: demo_ofile_def)
  moreover have "cstr ''x'' \<noteq> []" "length (cstr ''x'') \<le> WRITE_MAX" by (simp_all add: cstr_def)
  ultimately obtain s' where "OFile_write 0 (cstr ''x'') ?s = Inr (-1, s')"
    "f_off (files s' ! 0) = f_off (files ?s ! 0) + 4294967295"
    using OFile_write_refused_offset[of ?s "(1, 1)" 0 "cstr ''x''"] by blast
  with \<open>idle ?s\<close> f(1,2) show ?thesis by - (rule exI[of _ ?s], rule exI[of _ s'], simp)
qed

end
