(* ===== verification/Mkfs.thy ===== *)
theory Mkfs
  imports Namespace
begin

text \<open>
  \<open>mkfs/mkfs.c\<close>: the program that builds an image. Its state is the image file and its static
  variables; \<open>exit(1)\<close> is the error \<open>Exit 1\<close>. The image file is a list of blocks as in \<open>Posix_Env\<close> and
  its length in bytes. A file of the host is the name on the command line and, when it can be opened,
  the chunks that the calls of \<open>read\<close> return. \<open>struct dinode\<close> and \<open>struct dirent\<close> have the layout of
  \<open>DiskINode\<close> and \<open>DirEntry\<close>. What the program prints is left out.
\<close>

section \<open>State\<close>

record superblock =
  ms_magic :: u32
  ms_size :: u32
  ms_nblocks :: u32
  ms_ninodes :: u32
  ms_nlog :: u32
  ms_logstart :: u32
  ms_inodestart :: u32
  ms_bmapstart :: u32

record mkfs_state =
  mk_image :: image
  mk_length :: nat
  mk_sb :: superblock
  freeinode :: u32
  used_block :: u32

type_synonym host_file = "byte list \<times> byte list list option"

abbreviation nbitmap :: u32 where "nbitmap \<equiv> of_nat (FSSIZE div (BSIZE * 8) + 1)"
abbreviation ninodeblocks :: u32 where "ninodeblocks \<equiv> of_nat (NINODES div INODE_PER_BLOCK + 1)"
abbreviation nlog :: u32 where "nlog \<equiv> of_nat LOG_SIZE"

section \<open>Byte order\<close>

definition xshort :: "u16 \<Rightarrow> u16" where
  "xshort x = get_u16 (\<lambda>i. ucast (drop_bit (8 * i) x)) 0"

definition xint :: "u32 \<Rightarrow> u32" where
  "xint x = get_u32 (\<lambda>i. ucast (drop_bit (8 * i) x)) 0"

section \<open>Sectors and inodes\<close>

definition wsect :: "u32 \<Rightarrow> bytes \<Rightarrow> (unit, 'a mkfs_state_scheme) m" where
  "wsect bno buf = modify (\<lambda>s. s\<lparr>mk_image := (mk_image s)(image_index bno := buf),
     mk_length := max (mk_length s) (image_offset bno + BSIZE)\<rparr>)"

definition rsect :: "u32 \<Rightarrow> (bytes, 'a mkfs_state_scheme) m" where
  "rsect bno =
     bnd (gets mk_length) (\<lambda>len.
     bnd (check (Exit 1) (image_offset bno + BSIZE \<le> len)) (\<lambda>_.
     gets (\<lambda>s. mk_image s (image_index bno))))"

definition IBLOCK :: "u32 \<Rightarrow> superblock \<Rightarrow> u32" where
  "IBLOCK i sb = of_nat (unat i div INODE_PER_BLOCK) + ms_inodestart sb"

definition winode :: "u32 \<Rightarrow> DiskINode \<Rightarrow> (unit, 'a mkfs_state_scheme) m" where
  "winode inum ip =
     bnd (gets (\<lambda>s. IBLOCK inum (mk_sb s))) (\<lambda>bn.
     bnd (rsect bn) (\<lambda>buf.
     wsect bn (put_dinode buf (inode_pos inum) ip)))"

definition rinode :: "u32 \<Rightarrow> (DiskINode, 'a mkfs_state_scheme) m" where
  "rinode inum =
     bnd (gets (\<lambda>s. IBLOCK inum (mk_sb s))) (\<lambda>bn.
     bnd (rsect bn) (\<lambda>buf.
     ret (get_dinode buf (inode_pos inum))))"

definition ialloc :: "u16 \<Rightarrow> (u32, 'a mkfs_state_scheme) m" where
  "ialloc type =
     bnd (gets freeinode) (\<lambda>inum.
     bnd (modify (\<lambda>s. s\<lparr>freeinode := inum + 1\<rparr>)) (\<lambda>_.
     bnd (winode inum (zero_dinode\<lparr>di_type := xshort type, di_nlink := xshort 1, di_size := xint 0\<rparr>)) (\<lambda>_.
     ret inum)))"

definition set_bits :: "nat \<Rightarrow> bytes" where
  "set_bits n = fold (\<lambda>i buf. buf(i div 8 := buf (i div 8) OR bit_mask i)) [0..<n] (\<lambda>_. 0)"

definition mkfs_balloc :: "u32 \<Rightarrow> (unit, 'a mkfs_state_scheme) m" where
  "mkfs_balloc n =
     bnd (assert_that ''used < BSIZE * 8'' (unat n < BSIZE * 8)) (\<lambda>_.
     bnd (gets (\<lambda>s. ms_bmapstart (mk_sb s))) (\<lambda>bm.
     wsect bm (set_bits (unat n))))"

section \<open>Appending to a file\<close>

text \<open>\<open>used_block++\<close>.\<close>

definition next_block :: "(u32, 'a mkfs_state_scheme) m" where
  "next_block =
     bnd (gets used_block) (\<lambda>b.
     bnd (modify (\<lambda>s. s\<lparr>used_block := b + 1\<rparr>)) (\<lambda>_.
     ret b))"

text \<open>The block of the image for block \<open>fbn\<close> of the file: the inode and the block number \<open>x\<close>.\<close>

definition iappend_slot :: "nat \<Rightarrow> DiskINode \<Rightarrow> (DiskINode, 'a mkfs_state_scheme) m" where
  "iappend_slot i din =
     (if xint (di_addrs din ! i) = 0 then
        bnd next_block (\<lambda>b. ret (din\<lparr>di_addrs := (di_addrs din)[i := xint b]\<rparr>))
      else ret din)"

definition iappend_block :: "nat \<Rightarrow> DiskINode \<Rightarrow> (DiskINode \<times> u32, 'a mkfs_state_scheme) m" where
  "iappend_block fbn din =
     (if fbn < NDIRECT then
        bnd (iappend_slot fbn din) (\<lambda>din.
        ret (din, xint (di_addrs din ! fbn)))
      else
        bnd (iappend_slot NDIRECT din) (\<lambda>din.
        bnd (rsect (xint (di_addrs din ! NDIRECT))) (\<lambda>indirect.
        let p = 4 * (fbn - NDIRECT) in
        if get_u32 indirect p = 0 then
          bnd next_block (\<lambda>b.
          bnd (wsect (xint (di_addrs din ! NDIRECT)) (put_u32 indirect p (xint b))) (\<lambda>_.
          ret (din, xint (xint b))))
        else ret (din, xint (get_u32 indirect p)))))"

function iappend_loop :: "byte list \<Rightarrow> nat \<Rightarrow> DiskINode \<Rightarrow> (DiskINode \<times> nat, 'a mkfs_state_scheme) m" where
  "iappend_loop p off din =
     (if length p > 0 then
        let fbn = off div BSIZE in
        bnd (assert_that ''fbn < MAXFILE'' (fbn < MAX_FILE)) (\<lambda>_.
        bnd (iappend_block fbn din) (\<lambda>(din, x).
        let n1 = min (length p) ((fbn + 1) * BSIZE - off) in
        bnd (rsect x) (\<lambda>buf.
        bnd (wsect x (put_bytes buf (off - fbn * BSIZE) (take n1 p))) (\<lambda>_.
        iappend_loop (drop n1 p) (off + n1) din))))
      else ret (din, off))"
  by pat_completeness auto
termination
proof (relation "measure (\<lambda>(p, off, din). length p)", goal_cases)
  case (2 p off din fbn x y xa n1)
  have "off < (off div BSIZE + 1) * BSIZE" using dividend_less_div_times[of BSIZE off] by simp
  with 2 show ?case by simp
qed simp

declare iappend_loop.simps [simp del]

definition iappend :: "u32 \<Rightarrow> byte list \<Rightarrow> (unit, 'a mkfs_state_scheme) m" where
  "iappend inum xp =
     bnd (rinode inum) (\<lambda>din.
     bnd (iappend_loop xp (unat (xint (di_size din))) din) (\<lambda>(din, off).
     winode inum (din\<lparr>di_size := xint (of_nat off)\<rparr>)))"

section \<open>The program\<close>

text \<open>
  The copy of a name to a cleared entry. \<open>strcpy\<close> of the names \<open>.\<close> and \<open>..\<close> stores the same bytes as
  \<open>strncpy\<close>. \<open>opened\<close> is whether the image file could be opened; \<open>args\<close> are the arguments after its
  name.
\<close>

definition short_name :: "byte list \<Rightarrow> byte list" where
  "short_name arg = (if take 5 arg = cstr ''user/'' then drop 5 arg else arg)"

definition skip_underscore :: "byte list \<Rightarrow> byte list" where
  "skip_underscore n = (if take 1 n = cstr ''_'' then drop 1 n else n)"

definition add_dirent :: "u32 \<Rightarrow> u32 \<Rightarrow> byte list \<Rightarrow> (unit, 'a mkfs_state_scheme) m" where
  "add_dirent dir inum name = (case strncpy (c_str name) DIRSIZ of
     None \<Rightarrow> fail Out_of_bounds
   | Some nm \<Rightarrow> iappend dir (dirent_bytes \<lparr>de_inum = xshort (ucast inum), de_name = nm\<rparr>))"

definition add_file :: "u32 \<Rightarrow> host_file \<Rightarrow> (unit, 'a mkfs_state_scheme) m" where
  "add_file rootino f =
     bnd (assert_that ''index'' (slash \<notin> set (short_name (fst f)))) (\<lambda>_.
     case snd f of
       None \<Rightarrow> fail (Exit 1)
     | Some chunks \<Rightarrow>
         bnd (ialloc T_FILE) (\<lambda>inum.
         bnd (add_dirent rootino inum (skip_underscore (short_name (fst f)))) (\<lambda>_.
         for_each chunks (iappend inum))))"

definition write_superblock :: "(unit, 'a mkfs_state_scheme) m" where
  "write_superblock =
     (let nmeta = 1 + 1 + nlog + ninodeblocks + nbitmap;
          nblocks = of_nat FSSIZE - nmeta;
          sb = \<lparr>ms_magic = FS_MAGIC, ms_size = xint (of_nat FSSIZE), ms_nblocks = xint nblocks,
            ms_ninodes = xint (of_nat NINODES), ms_nlog = xint nlog, ms_logstart = xint 2,
            ms_inodestart = xint (2 + nlog), ms_bmapstart = xint (2 + nlog + ninodeblocks)\<rparr> in
      bnd (modify (\<lambda>s. s\<lparr>mk_sb := sb, used_block := nmeta\<rparr>)) (\<lambda>_.
      bnd (for_each [0..<FSSIZE] (\<lambda>i. wsect (of_nat i) (\<lambda>_. 0))) (\<lambda>_.
      wsect 1 (put_u32s (\<lambda>_. 0) 0 [ms_magic sb, ms_size sb, ms_nblocks sb, ms_ninodes sb, ms_nlog sb,
        ms_logstart sb, ms_inodestart sb, ms_bmapstart sb]))))"

definition mkfs_main :: "bool \<Rightarrow> host_file list \<Rightarrow> (unit, 'a mkfs_state_scheme) m" where
  "mkfs_main opened args =
     bnd (check (Exit 1) opened) (\<lambda>_.
     bnd write_superblock (\<lambda>_.
     bnd (ialloc T_DIR) (\<lambda>rootino.
     bnd (assert_that ''rootino == ROOTINO'' (rootino = ROOTINO)) (\<lambda>_.
     bnd (add_dirent rootino rootino (cstr ''.'')) (\<lambda>_.
     bnd (add_dirent rootino rootino (cstr ''..'')) (\<lambda>_.
     bnd (rinode rootino) (\<lambda>din.
     bnd (winode rootino din) (\<lambda>_.
     bnd (for_each args (add_file rootino)) (\<lambda>_.
     bnd (rinode rootino) (\<lambda>din.
     let off = xint (di_size din); off = (off div of_nat BSIZE + 1) * of_nat BSIZE in
     bnd (winode rootino (din\<lparr>di_size := xint off\<rparr>)) (\<lambda>_.
     bnd (gets used_block) (\<lambda>n.
     mkfs_balloc n))))))))))))"

text \<open>The static variables before \<open>main\<close>, and the freshly truncated image file.\<close>

definition mkfs_start :: mkfs_state where
  "mkfs_start = \<lparr>mk_image = (\<lambda>_ _. 0), mk_length = 0,
     mk_sb = \<lparr>ms_magic = 0, ms_size = 0, ms_nblocks = 0, ms_ninodes = 0, ms_nlog = 0,
       ms_logstart = 0, ms_inodestart = 0, ms_bmapstart = 0\<rparr>,
     freeinode = 1, used_block = 0\<rparr>"

end
