(* ===== verification/Path_Walk.thy ===== *)
theory Path_Walk
  imports Path_Names
begin

text \<open>
  What \<open>inode_name\<close> and \<open>inode_name_parent\<close> of \<open>src/fs.cxx\<close> compute: a walk through the directories on
  disk, one element of the path after the other. The walk takes and drops a reference to every inode
  on the way; afterwards the inode cache is as before, except that inodes which were already
  referenced may have been loaded, and that the caller has a reference to the result.
\<close>

section \<open>The directory tree on disk\<close>

text \<open>A state in which inode \<open>i\<close> is loaded from disk and locked.\<close>

definition loaded :: "DiskINode \<Rightarrow> u32 \<Rightarrow> INode" where
  "loaded di r = \<lparr>i_ref = r, i_locked = True, i_valid = True, i_dinode = di\<rparr>"

definition disk_dir :: "'a inode_cache_scheme \<Rightarrow> u32 \<Rightarrow> 'a inode_cache_scheme" where
  "disk_dir s i = put_inode (log_dev s, i) (loaded (disk_dinode s i) 1) s"

definition child :: "'a inode_cache_scheme \<Rightarrow> u32 \<Rightarrow> byte list \<Rightarrow> u32 option" where
  "child s i nm = map_option (\<lambda>(j, _). ucast j) (dir_lookup (disk_dir s i) (log_dev s, i) nm)"

definition is_dir :: "'a inode_cache_scheme \<Rightarrow> u32 \<Rightarrow> bool" where
  "is_dir s i \<longleftrightarrow> di_type (disk_dinode s i) = T_DIR"

text \<open>The inode of a list of path elements, or of its parent (\<open>np\<close>).\<close>

fun walk :: "bool \<Rightarrow> 'a inode_cache_scheme \<Rightarrow> u32 \<Rightarrow> byte list list \<Rightarrow> u32 option" where
  "walk np s i [] = (if np then None else Some i)"
| "walk np s i (e # es) = (if \<not> is_dir s i then None
     else if np \<and> es = [] then Some i
     else case child s i e of None \<Rightarrow> None | Some j \<Rightarrow> walk np s j es)"

text \<open>The inodes on the way exist and are linked, the directories are well formed, the names fit.\<close>

definition node_ok :: "'a inode_cache_scheme \<Rightarrow> u32 \<Rightarrow> bool" where
  "node_ok s i \<longleftrightarrow> inum_ok s i \<and> di_type (disk_dinode s i) \<noteq> 0 \<and> di_nlink (disk_dinode s i) \<noteq> 0"

fun walkable :: "'a inode_cache_scheme \<Rightarrow> u32 \<Rightarrow> byte list list \<Rightarrow> bool" where
  "walkable s i [] = node_ok s i"
| "walkable s i (e # es) = (node_ok s i \<and> legal_name e \<and>
     (is_dir s i \<longrightarrow> dir_ok (log_dev s, i) (disk_dir s i) \<and>
       (\<forall>j. child s i e = Some j \<longrightarrow> walkable s j es)))"

section \<open>Independence of the inode cache\<close>

lemma dir_lookup_cong:
  assumes "the_dinode s' k = the_dinode s k" "view s' = view s"
  shows "dir_lookup s' k = dir_lookup s k" "slots s' k = slots s k" "fcontent s' k = fcontent s k"
proof -
  show sl: "slots s' k = slots s k" by (intro ext) (simp add: slots_def Let_def assms)
  show fc: "fcontent s' k = fcontent s k" by (intro ext) (simp add: fcontent_def Let_def sl assms)
  show "dir_lookup s' k = dir_lookup s k"
    by (intro ext) (simp add: dir_lookup_def dir_entry_def dir_len_def fsize_def fc assms)
qed

lemma dir_ok_cong:
  assumes "the_dinode s' k = the_dinode s k" "view s' = view s" "fs_inv s' = fs_inv s" "used s' = used s"
    "data_block s' = data_block s" "log_dev s' = log_dev s" "inodes s k \<noteq> None" "inodes s' k \<noteq> None"
  shows "dir_ok k s' = dir_ok k s"
proof -
  have "(\<exists>i. inodes s' k = Some i \<and> dinode_wf (i_dinode i)) = (\<exists>i. inodes s k = Some i \<and> dinode_wf (i_dinode i))"
    using assms(1,7,8) by (auto simp: the_dinode_def)
  then show ?thesis
    by (simp add: dir_ok_def file_ok_def dense_def fsize_def assms dir_lookup_cong(2)[OF assms(1,2)])
qed

lemma disk_dinode_put_inode [simp]: "disk_dinode (put_inode k n s) = disk_dinode s"
  by (simp add: fun_eq_iff disk_dinode_def)

lemma inum_ok_put_inode [simp]: "inum_ok (put_inode k n s) = inum_ok s"
  by (simp add: fun_eq_iff inum_ok_def)

lemma child_put_inode [simp]:
  "child (put_inode k n s) i = child s i"
  "dir_ok (log_dev s, i) (disk_dir (put_inode k n s) i) = dir_ok (log_dev s, i) (disk_dir s i)"
proof -
  have td: "the_dinode (disk_dir (put_inode k n s) i) (log_dev s, i) = the_dinode (disk_dir s i) (log_dev s, i)"
    by (simp add: disk_dir_def the_dinode_def)
  have v: "view (disk_dir (put_inode k n s) i) = view (disk_dir s i)" by (simp add: disk_dir_def)
  show "child (put_inode k n s) i = child s i"
    by (intro ext) (simp add: child_def dir_lookup_cong(1)[OF td v])
  show "dir_ok (log_dev s, i) (disk_dir (put_inode k n s) i) = dir_ok (log_dev s, i) (disk_dir s i)"
    by (rule dir_ok_cong[OF td v]) (simp_all add: disk_dir_def)
qed

lemma walk_put_inode [simp]:
  "is_dir (put_inode k n s) i = is_dir s i" "node_ok (put_inode k n s) i = node_ok s i"
  "walk np (put_inode k n s) i es = walk np s i es" "walkable (put_inode k n s) i es = walkable s i es"
proof -
  show d: "is_dir (put_inode k n s) i = is_dir s i" "node_ok (put_inode k n s) i = node_ok s i" for i
    by (simp_all add: is_dir_def node_ok_def)
  show "walk np (put_inode k n s) i es = walk np s i es"
    by (induction es arbitrary: i) (simp_all add: d split: option.split)
  show "walkable (put_inode k n s) i es = walkable s i es"
    by (induction es arbitrary: i) (simp_all add: d)
qed

section \<open>References\<close>

definition rc :: "'a inode_cache_scheme \<Rightarrow> INodeKey \<Rightarrow> u32" where
  "rc s k = (case inodes s k of None \<Rightarrow> 0 | Some n \<Rightarrow> i_ref n)"

text \<open>Every cached inode is referenced and unlocked, and agrees with the disk once it is loaded.\<close>

definition coherent :: "'a inode_cache_scheme \<Rightarrow> bool" where
  "coherent s \<longleftrightarrow> (\<forall>k n. inodes s k = Some n \<longrightarrow> i_ref n \<noteq> 0 \<and> unat (i_ref n) < 2 ^ 31 \<and> \<not> i_locked n \<and>
     (i_valid n \<longrightarrow> i_dinode n = disk_dinode s (snd k)))"

text \<open>One more reference to \<open>k\<close>.\<close>

definition holds :: "INodeKey \<Rightarrow> 'a inode_cache_scheme \<Rightarrow> 'a inode_cache_scheme \<Rightarrow> bool" where
  "holds k s u \<longleftrightarrow> (\<exists>n. u = put_inode k n s \<and> i_ref n = rc s k + 1 \<and> \<not> i_locked n \<and>
     (if i_valid n then i_dinode n = disk_dinode s (snd k)
      else \<forall>m. inodes s k = Some m \<longrightarrow> (\<exists>r. n = m\<lparr>i_ref := r\<rparr>)))"

lemma rc_put_inode: "inodes s k = Some n \<Longrightarrow> i_ref m = i_ref n \<Longrightarrow> rc (put_inode k m s) = rc s"
  by (intro ext) (simp add: rc_def)

lemma coherent_put_inode:
  assumes "coherent s" "i_ref n \<noteq> 0" "unat (i_ref n) < 2 ^ 31" "\<not> i_locked n"
    "i_valid n \<longrightarrow> i_dinode n = disk_dinode s (snd k)"
  shows "coherent (put_inode k n s)"
  using assms unfolding coherent_def by (simp split: if_splits)

text \<open>Inodes that were referenced may have been loaded in between.\<close>

inductive warm :: "'a inode_cache_scheme \<Rightarrow> 'a inode_cache_scheme \<Rightarrow> bool" for s where
  same: "warm s s"
| load: "warm s u \<Longrightarrow> inodes u k = Some n \<Longrightarrow> \<not> i_valid n \<Longrightarrow>
    warm s (put_inode k (n\<lparr>i_valid := True, i_dinode := disk_dinode u (snd k)\<rparr>) u)"

lemma warm_same:
  assumes "warm s u"
  shows "fs_inv u = fs_inv s" "log_dev u = log_dev s" "disk_dinode u = disk_dinode s" "rc u = rc s"
    "walk np u i es = walk np s i es" "walkable u i es = walkable s i es" "is_dir u i = is_dir s i"
    "node_ok u i = node_ok s i" "child u i = child s i"
proof -
  show "fs_inv u = fs_inv s" using assms by induction simp_all
  show "log_dev u = log_dev s" using assms by induction simp_all
  show "disk_dinode u = disk_dinode s" using assms by induction simp_all
  show "rc u = rc s" using assms by induction (simp_all add: rc_put_inode)
  show "walk np u i es = walk np s i es" using assms by induction simp_all
  show "walkable u i es = walkable s i es" using assms by induction simp_all
  show "is_dir u i = is_dir s i" using assms by induction simp_all
  show "node_ok u i = node_ok s i" using assms by induction simp_all
  show "child u i = child s i" using assms by induction simp_all
qed

lemma warm_coherent: "warm s u \<Longrightarrow> coherent s \<Longrightarrow> coherent u"
proof (induction rule: warm.induct)
  case (load u k n)
  then have "i_ref n \<noteq> 0 \<and> unat (i_ref n) < 2 ^ 31 \<and> \<not> i_locked n" unfolding coherent_def by blast
  with load show ?case by (intro coherent_put_inode) simp_all
qed simp

lemma warm_trans: "warm t u \<Longrightarrow> warm s t \<Longrightarrow> warm s u"
  by (induction rule: warm.induct) (auto intro: warm.load)

lemma rc_bound: "coherent s \<Longrightarrow> unat (rc s k) < 2 ^ 31"
  by (auto simp: coherent_def rc_def split: option.split)

lemma rc_none: "coherent s \<Longrightarrow> rc s k = 0 \<longleftrightarrow> inodes s k = None"
  by (auto simp: coherent_def rc_def split: option.split)

lemma rc_succ: "coherent s \<Longrightarrow> rc s k + 1 \<noteq> 0 \<and> rc s k + 2 \<noteq> 0 \<and> (rc s k + 1 = 1 \<longleftrightarrow> inodes s k = None) \<and> rc s k + 2 \<noteq> 1"
proof -
  assume c: "coherent s"
  have b: "unat (rc s k) < 2 ^ 31" by (rule rc_bound[OF c])
  then have "unat (rc s k + 1) = unat (rc s k) + 1" "unat (rc s k + 2) = unat (rc s k) + 2"
    by (simp_all add: unat_word_ariths)
  then have "unat (rc s k + 1) \<noteq> unat (0 :: u32)" "unat (rc s k + 2) \<noteq> unat (0 :: u32)"
    "unat (rc s k + 2) \<noteq> unat (1 :: u32)" by simp_all
  then have "rc s k + 1 \<noteq> 0" "rc s k + 2 \<noteq> 0" "rc s k + 2 \<noteq> 1" by metis+
  then show ?thesis using rc_none[OF c, of k] by simp
qed

lemma inode_get_holds:
  assumes "coherent s" "dev = log_dev s"
  shows "\<exists>u. inode_get dev i s = Inr ((dev, i), u) \<and> holds (dev, i) s u"
  using assms by (auto simp: inode_get_run holds_def rc_def new_inode_def coherent_def split: option.split)

lemma inode_put_holds:
  assumes h: "holds (log_dev s, i) s u" and c: "coherent s" and n: "node_ok s i"
  shows "\<exists>t. inode_put (log_dev s, i) u = Inr ((), t) \<and> warm s t"
proof -
  let ?k = "(log_dev s, i)"
  obtain m where m: "u = put_inode ?k m s" "i_ref m = rc s ?k + 1" "\<not> i_locked m"
    "if i_valid m then i_dinode m = disk_dinode s i else \<forall>m'. inodes s ?k = Some m' \<longrightarrow> (\<exists>r. m = m'\<lparr>i_ref := r\<rparr>)"
    using h unfolding holds_def snd_conv by blast
  have put: "inode_put ?k u = Inr ((), if i_ref m = 1 then drop_inode ?k u else put_inode ?k (m\<lparr>i_ref := i_ref m - 1\<rparr>) u)"
    using inode_put_keep[of u ?k m] m n by (auto simp: node_ok_def)
  show ?thesis
  proof (cases "inodes s ?k")
    case None
    then show ?thesis using put m(1,2) warm.same[of s] rc_succ[OF c, of ?k] by (simp add: drop_put_inode)
  next
    case (Some a)
    then have a: "i_ref a = i_ref m - 1" "\<not> i_locked a" "i_valid a \<longrightarrow> i_dinode a = disk_dinode s i" "i_ref m \<noteq> 1"
      using c m(2) rc_succ[OF c, of ?k] by (auto simp: coherent_def rc_def)
    show ?thesis
    proof (cases "i_valid m \<and> \<not> i_valid a")
      case True
      then have "m\<lparr>i_ref := i_ref m - 1\<rparr> = a\<lparr>i_valid := True, i_dinode := disk_dinode s i\<rparr>"
        using m(3,4) a by (cases m; cases a) auto
      then show ?thesis using put m(1) a(4) warm.load[OF warm.same Some] True by simp
    next
      case False
      then have "m\<lparr>i_ref := i_ref m - 1\<rparr> = a" using m(3,4) a Some by (cases m; cases a) (auto split: if_splits)
      then have "put_inode ?k (m\<lparr>i_ref := i_ref m - 1\<rparr>) u = s" using Some m(1) by (simp add: put_inode_same)
      then show ?thesis using put a(4) warm.same by simp
    qed
  qed
qed

lemma INode_lock_holds:
  assumes h: "holds (log_dev s, i) s u" and c: "coherent s" and inv: "fs_inv s" and n: "node_ok s i"
  shows "INode_lock (log_dev s, i) u =
    Inr ((), put_inode (log_dev s, i) (loaded (disk_dinode s i) (rc s (log_dev s, i) + 1)) s)"
proof -
  let ?k = "(log_dev s, i)"
  obtain m where m: "u = put_inode ?k m s" "i_ref m = rc s ?k + 1" "\<not> i_locked m"
    "i_valid m \<longrightarrow> i_dinode m = disk_dinode s i" using h by (auto simp: holds_def split: if_splits)
  have r: "i_ref m \<ge> 1" using rc_succ[OF c, of ?k] m(2) by (simp add: word_le_nat_alt unat_gt_0 Suc_le_eq)
  show ?thesis
  proof (cases "i_valid m")
    case True
    then show ?thesis using INode_lock_cached[of u ?k m] m r by (cases m) (simp add: loaded_def)
  next
    case False
    then show ?thesis using INode_lock_load[of u ?k m] m r inv n by (cases m) (simp add: loaded_def node_ok_def)
  qed
qed

lemma inode_unlock_put_loaded:
  assumes "inodes u k = Some (loaded di r)" "r \<noteq> 0" "di_nlink di \<noteq> 0"
  shows "inode_unlock_put k u = Inr ((), if r = 1 then drop_inode k u
    else put_inode k \<lparr>i_ref = r - 1, i_locked = False, i_valid = True, i_dinode = di\<rparr> u)"
proof -
  let ?n = "(loaded di r)\<lparr>i_locked := False\<rparr>"
  have "INode_unlock k u = Inr ((), put_inode k ?n u)"
    using INode_unlock_run[OF assms(1)] assms(2) by (simp add: loaded_def word_le_nat_alt unat_gt_0 Suc_le_eq)
  moreover have "inode_put k (put_inode k ?n u) = Inr ((), if r = 1 then drop_inode k u
    else put_inode k \<lparr>i_ref = r - 1, i_locked = False, i_valid = True, i_dinode = di\<rparr> u)"
    using inode_put_keep[of "put_inode k ?n u" k ?n] assms(3)
    by (simp add: loaded_def drop_inode_def put_inode_def)
  ultimately show ?thesis by (simp add: inode_unlock_put_def bnd_def)
qed

text \<open>Dropping the reference of a locked inode.\<close>

lemma unlock_put_warm:
  assumes c: "coherent s" and n: "node_ok s i" and r: "r = rc s (log_dev s, i) + 1"
  shows "\<exists>t. warm s t \<and> (inodes s (log_dev s, i) = None \<longrightarrow> t = s) \<and>
    (inodes s (log_dev s, i) \<noteq> None \<longrightarrow> t = put_inode (log_dev s, i)
       \<lparr>i_ref = r - 1, i_locked = False, i_valid = True, i_dinode = disk_dinode s i\<rparr> s)"
proof (cases "inodes s (log_dev s, i)")
  case None
  then show ?thesis by (intro exI[of _ s]) (simp add: warm.same)
next
  case (Some m)
  let ?n = "\<lparr>i_ref = r - 1, i_locked = False, i_valid = True, i_dinode = disk_dinode s i\<rparr>"
  have m: "\<not> i_locked m" "i_valid m \<longrightarrow> i_dinode m = disk_dinode s i" "i_ref m = r - 1"
    using c Some r by (auto simp: coherent_def rc_def)
  show ?thesis
  proof (cases "i_valid m")
    case True
    then have "m = ?n" using m by (cases m) simp
    then have "put_inode (log_dev s, i) ?n s = s" using Some by (simp add: put_inode_def fun_upd_idem)
    with Some show ?thesis by (intro exI[of _ s]) (simp add: warm.same)
  next
    case False
    have "?n = m\<lparr>i_valid := True, i_dinode := disk_dinode s i\<rparr>" using m by (cases m) simp
    with Some show ?thesis using warm.load[OF warm.same Some False] by simp
  qed
qed

lemma put_inode_commute: "k \<noteq> k' \<Longrightarrow> put_inode k n (put_inode k' n' s) = put_inode k' n' (put_inode k n s)"
  by (simp add: put_inode_def fun_upd_twist)

lemma drop_put_other: "k \<noteq> k' \<Longrightarrow> drop_inode k (put_inode k' n' s) = put_inode k' n' (drop_inode k s)"
  by (simp add: put_inode_def drop_inode_def fun_upd_twist)

text \<open>A directory is left without a successor.\<close>

lemma leave_dir:
  assumes c: "coherent s" and n: "node_ok s i" and r: "r = rc s (log_dev s, i) + 1"
  shows "\<exists>t. inode_unlock_put (log_dev s, i) (put_inode (log_dev s, i) (loaded (disk_dinode s i) r) s) = Inr ((), t) \<and>
    warm s t"
proof -
  let ?k = "(log_dev s, i)"
  let ?u = "put_inode ?k (loaded (disk_dinode s i) r) s"
  have r': "r \<noteq> 0" "r = 1 \<longleftrightarrow> inodes s ?k = None" using rc_succ[OF c, of ?k] r by simp_all
  obtain t where t: "warm s t" "inodes s ?k = None \<longrightarrow> t = s" "inodes s ?k \<noteq> None \<longrightarrow> t = put_inode ?k
       \<lparr>i_ref = r - 1, i_locked = False, i_valid = True, i_dinode = disk_dinode s i\<rparr> s"
    using unlock_put_warm[OF c n r] by auto
  have "inode_unlock_put ?k ?u = Inr ((), t)"
    using inode_unlock_put_loaded[of ?u ?k "disk_dinode s i" r] r' n t(2,3)
    by (cases "inodes s ?k") (simp_all add: node_ok_def drop_put_inode)
  with t(1) show ?thesis by blast
qed

text \<open>A directory is left after a reference to its child was taken.\<close>

lemma enter_child:
  assumes c: "coherent s" and n: "node_ok s i" and r: "r = rc s (log_dev s, i) + 1"
  shows "\<exists>u t t'. inode_get (log_dev s) j (put_inode (log_dev s, i) (loaded (disk_dinode s i) r) s) = Inr ((log_dev s, j), u) \<and>
    inode_unlock_put (log_dev s, i) u = Inr ((), t') \<and> warm s t \<and> holds (log_dev s, j) t t'"
proof -
  let ?k = "(log_dev s, i)" and ?q = "(log_dev s, j)"
  let ?u = "put_inode ?k (loaded (disk_dinode s i) r) s"
  have r': "r \<noteq> 0" "r + 1 \<noteq> 0" "r + 1 \<noteq> 1" "r = 1 \<longleftrightarrow> inodes s ?k = None"
    using rc_succ[OF c, of ?k] r by (simp_all add: add.commute add.left_commute)
  have nl: "di_nlink (disk_dinode s i) \<noteq> 0" using n by (simp add: node_ok_def)
  show ?thesis
  proof (cases "j = i")
    case True
    let ?t = "put_inode ?k \<lparr>i_ref = r, i_locked = False, i_valid = True, i_dinode = disk_dinode s i\<rparr> s"
    have "inode_get (log_dev s) j ?u = Inr (?q, put_inode ?k (loaded (disk_dinode s i) (r + 1)) s)"
      using True by (simp add: inode_get_run loaded_def)
    moreover have "inode_unlock_put ?k (put_inode ?k (loaded (disk_dinode s i) (r + 1)) s) = Inr ((), ?t)"
      using inode_unlock_put_loaded[of "put_inode ?k (loaded (disk_dinode s i) (r + 1)) s" ?k "disk_dinode s i" "r + 1"] r' nl
      by simp
    moreover have "holds ?q s ?t" using True r by (auto simp: holds_def)
    ultimately show ?thesis using warm.same by blast
  next
    case False
    let ?m = "case inodes s ?q of None \<Rightarrow> new_inode | Some n \<Rightarrow> n\<lparr>i_ref := i_ref n + 1\<rparr>"
    let ?v = "put_inode ?q ?m ?u"
    have g: "inode_get (log_dev s) j ?u = Inr (?q, ?v)" using False by (simp add: inode_get_run)
    obtain t where t: "warm s t" "inodes s ?k = None \<longrightarrow> t = s" "inodes s ?k \<noteq> None \<longrightarrow> t = put_inode ?k
        \<lparr>i_ref = r - 1, i_locked = False, i_valid = True, i_dinode = disk_dinode s i\<rparr> s"
      using unlock_put_warm[OF c n r] by auto
    have up: "inode_unlock_put ?k ?v = Inr ((), put_inode ?q ?m t)"
      using inode_unlock_put_loaded[of ?v ?k "disk_dinode s i" r] r' nl t(2,3) False
      by (cases "inodes s ?k") (simp_all add: drop_put_inode drop_put_other put_inode_commute[of ?k ?q])
    have "i_ref ?m = rc t ?q + 1" unfolding warm_same(4)[OF t(1)]
      by (simp add: rc_def new_inode_def split: option.split)
    moreover have "\<not> i_locked ?m \<and> (i_valid ?m \<longrightarrow> i_dinode ?m = disk_dinode t (snd ?q))"
      unfolding warm_same(3)[OF t(1)] using c by (auto simp: coherent_def new_inode_def split: option.split)
    moreover have "inodes t ?q = inodes s ?q" using t(2,3) False by (cases "inodes s ?k") simp_all
    ultimately have "holds ?q t (put_inode ?q ?m t)" unfolding holds_def
      by (intro exI[of _ ?m]) (auto split: option.splits)
    with g up t(1) show ?thesis by blast
  qed
qed

section \<open>The loop over the path\<close>

lemma elements_Nil: "elements [] = []"
  by (simp add: elements_def)

lemma skipelem_cases:
  assumes "length name = DIRSIZ"
  shows "elements path = [] \<Longrightarrow> skipelem path name = None"
    "elements path = e # es \<Longrightarrow> legal_name e \<Longrightarrow> \<exists>path' r. skipelem path name = Some (path', e @ 0 # r) \<and>
       elements path' = es \<and> (path' = [] \<longleftrightarrow> es = []) \<and> length (e @ 0 # r) = DIRSIZ"
proof -
  show "skipelem path name = None" if "elements path = []"
    using that by (simp add: skipelem_elements(1))
  assume el: "elements path = e # es" and lg: "legal_name e"
  let ?p = "dropWhile (\<lambda>c. c = slash) (dropWhile (\<lambda>c. c \<noteq> slash) (dropWhile (\<lambda>c. c = slash) path))"
  let ?r = "drop (Suc (length e)) name"
  have sk: "skipelem path name = Some (?p, e @ 0 # ?r)"
    using el lg by (simp add: skipelem_elements(1) name_result_def legal_name_def)
  have es: "elements ?p = es" using skipelem_elements(2)[OF sk] el by simp
  have "?p = [] \<longleftrightarrow> es = []"
  proof
    assume "es = []"
    show "?p = []"
    proof (rule ccontr)
      assume "?p \<noteq> []"
      then have "elements ?p \<noteq> []" using elements_step[of ?p] hd_dropWhile[OF \<open>?p \<noteq> []\<close>] by simp
      then show False using es \<open>es = []\<close> by simp
    qed
  qed (use es elements_Nil in metis)
  moreover have "length (e @ 0 # ?r) = DIRSIZ" using assms lg by (simp add: legal_name_def)
  ultimately show "\<exists>path' r. skipelem path name = Some (path', e @ 0 # r) \<and>
       elements path' = es \<and> (path' = [] \<longleftrightarrow> es = []) \<and> length (e @ 0 # r) = DIRSIZ"
    using sk es by blast
qed

lemma locked_dir:
  assumes "k = (log_dev s, i)"
  shows "dir_ok k (put_inode k (loaded (disk_dinode s i) r) s) = dir_ok k (disk_dir s i)"
    "map_option (\<lambda>(j, _). ucast j) (dir_lookup (put_inode k (loaded (disk_dinode s i) r) s) k nm) = child s i nm"
proof -
  let ?u = "put_inode k (loaded (disk_dinode s i) r) s"
  have td: "the_dinode ?u k = the_dinode (disk_dir s i) k" using assms
    by (simp add: disk_dir_def the_dinode_def loaded_def)
  have v: "view ?u = view (disk_dir s i)" by (simp add: disk_dir_def)
  show "dir_ok k ?u = dir_ok k (disk_dir s i)"
    by (rule dir_ok_cong[OF td v]) (simp_all add: disk_dir_def assms)
  show "map_option (\<lambda>(j, _). ucast j) (dir_lookup ?u k nm) = child s i nm"
    unfolding child_def dir_lookup_cong(1)[OF td v] using assms by simp
qed

definition resolved :: "'a inode_cache_scheme \<Rightarrow> u32 option \<Rightarrow> 'a inode_cache_scheme \<Rightarrow> bool" where
  "resolved s res t \<longleftrightarrow> (\<exists>u. warm s u \<and>
     (case res of None \<Rightarrow> t = u | Some j \<Rightarrow> holds (log_dev s, j) u t))"

lemma resolved_warm: "resolved u res t \<Longrightarrow> warm s u \<Longrightarrow> resolved s res t"
proof -
  assume "resolved u res t" and w: "warm s u"
  then obtain v where "warm u v" "case res of None \<Rightarrow> t = v | Some j \<Rightarrow> holds (log_dev s, j) v t"
    unfolding resolved_def warm_same(2)[OF w] by blast
  then show "resolved s res t" using warm_trans[OF _ w] by (auto simp: resolved_def)
qed

lemma inode_name_loop_run:
  assumes "holds (log_dev s, i) s u" "coherent s" "fs_inv s" "walkable s i (elements path)" "length name = DIRSIZ"
  shows "\<exists>nm t. inode_name_loop np (log_dev s, i) path name u =
      Inr ((map_option (Pair (log_dev s)) (walk np s i (elements path)), nm), t) \<and>
    resolved s (walk np s i (elements path)) t \<and>
    (elements path \<noteq> [] \<longrightarrow> walk np s i (elements path) \<noteq> None \<longrightarrow> (\<exists>r. nm = last (elements path) @ 0 # r))"
  using assms
proof (induction "elements path" arbitrary: s i u path name)
  case Nil
  note h = Nil.prems
  have n: "node_ok s i" using h(4) Nil.hyps by simp
  have sk: "skipelem path name = None" using skipelem_cases(1)[OF h(5)] Nil.hyps by simp
  obtain t where "inode_put (log_dev s, i) u = Inr ((), t)" "warm s t" using inode_put_holds[OF h(1,2) n] by blast
  then show ?case using sk Nil.hyps[symmetric] h(1) warm.same[of s]
    by (auto simp: inode_name_loop.simps[of np _ path] bnd_def resolved_def)
next
  case (Cons e es)
  note h = Cons.prems and el = Cons.hyps(2)[symmetric]
  let ?k = "(log_dev s, i)"
  let ?r = "rc s ?k + 1"
  let ?l = "put_inode ?k (loaded (disk_dinode s i) ?r) s"
  have n: "node_ok s i" "legal_name e" using h(4) el by simp_all
  obtain path' r where sk: "skipelem path name = Some (path', e @ 0 # r)" "elements path' = es"
    "path' = [] \<longleftrightarrow> es = []" "length (e @ 0 # r) = DIRSIZ" using skipelem_cases(2)[OF h(5) el n(2)] by blast
  have lk: "INode_lock ?k u = Inr ((), ?l)" by (rule INode_lock_holds[OF h(1-3) n(1)])
  have di: "dinode ?k ?l = Inr (disk_dinode s i, ?l)" by (simp add: dinode_run loaded_def)
  obtain t0 where lv: "inode_unlock_put ?k ?l = Inr ((), t0)" "warm s t0" using leave_dir[OF h(2) n(1) refl] by blast
  note loop = inode_name_loop.simps[of np ?k path name]
  consider (leaf) "\<not> is_dir s i" | (up) "is_dir s i" "np" "es = []"
    | (gone) "is_dir s i" "\<not> (np \<and> es = [])" "child s i e = None"
    | (down) j where "is_dir s i" "\<not> (np \<and> es = [])" "child s i e = Some j" by blast
  then show ?case
  proof cases
    case leaf
    then have "inode_name_loop np ?k path name u = Inr ((None, e @ 0 # r), t0)"
      using sk lk di lv by (subst loop) (simp add: bnd_def is_dir_def)
    with leaf el lv show ?thesis by (simp add: resolved_def)
  next
    case up
    let ?t = "put_inode ?k \<lparr>i_ref = ?r, i_locked = False, i_valid = True, i_dinode = disk_dinode s i\<rparr> s"
    have "INode_unlock ?k ?l = Inr ((), ?t)"
      using INode_unlock_run[of ?l ?k "loaded (disk_dinode s i) ?r"] rc_succ[OF h(2), of ?k]
      by (simp add: loaded_def word_le_nat_alt unat_gt_0 Suc_le_eq)
    then have "inode_name_loop np ?k path name u = Inr ((Some ?k, e @ 0 # r), ?t)"
      using up sk lk di by (subst loop) (simp add: bnd_def is_dir_def)
    moreover have "holds ?k s ?t" by (auto simp: holds_def)
    ultimately show ?thesis using up el warm.same[of s] by (auto simp: resolved_def)
  next
    case gone
    have ok: "dir_ok ?k ?l" using h(4) el gone locked_dir(1)[of ?k s i ?r] by simp
    have "dir_lookup ?l ?k e = None" using locked_dir(2)[of ?k s i ?r e] gone by simp
    then have "dirlookup ?k (e @ 0 # r) ?l = Inr (None, ?l)" using dirlookup_run[OF ok n(2)] by simp
    then have "inode_name_loop np ?k path name u = Inr ((None, e @ 0 # r), t0)"
      using gone sk lk di lv by (subst loop) (auto simp: bnd_def is_dir_def)
    with gone el lv show ?thesis by (auto simp: resolved_def)
  next
    case down
    have ok: "dir_ok ?k ?l" using h(4) el down locked_dir(1)[of ?k s i ?r] by simp
    obtain j' p where dl: "dir_lookup ?l ?k e = Some (j', p)" "j = ucast j'"
      using locked_dir(2)[of ?k s i ?r e] down by (auto simp: case_prod_beta')
    obtain v t t' where v: "inode_get (log_dev s) j ?l = Inr ((log_dev s, j), v)"
      "inode_unlock_put ?k v = Inr ((), t')" "warm s t" "holds (log_dev s, j) t t'"
      using enter_child[OF h(2) n(1) refl, of j] by blast
    note ws = warm_same[OF v(3)]
    have "dirlookup ?k (e @ 0 # r) ?l = Inr (Some ((log_dev s, j), 16 * p), v)"
      using dirlookup_run[OF ok n(2), of r] dl v(1) by (simp add: bnd_def)
    then have step: "inode_name_loop np ?k path name u = inode_name_loop np (log_dev s, j) path' (e @ 0 # r) t'"
      using down sk lk di v(2) by (subst loop) (auto simp: bnd_def is_dir_def)
    have "\<exists>nm u. inode_name_loop np (log_dev t, j) path' (e @ 0 # r) t' =
        Inr ((map_option (Pair (log_dev t)) (walk np t j (elements path')), nm), u) \<and>
      resolved t (walk np t j (elements path')) u \<and>
      (elements path' \<noteq> [] \<longrightarrow> walk np t j (elements path') \<noteq> None \<longrightarrow> (\<exists>r. nm = last (elements path') @ 0 # r))"
      using v(4) warm_coherent[OF v(3) h(2)] h(3,4) down el sk(2,4) ws(1,2,6)
      by (intro Cons.hyps(1)) simp_all
    then obtain nm w where w: "inode_name_loop np (log_dev s, j) path' (e @ 0 # r) t' =
        Inr ((map_option (Pair (log_dev s)) (walk np s j es), nm), w)"
      "resolved t (walk np s j es) w" "es \<noteq> [] \<longrightarrow> walk np s j es \<noteq> None \<longrightarrow> (\<exists>r. nm = last es @ 0 # r)"
      using ws(2,5) sk(2) by auto
    have wk: "walk np s i (elements path) = walk np s j es" using down el by simp
    have "es = [] \<Longrightarrow> \<exists>r. nm = e @ 0 # r"
      using w(1) down(2) skipelem_cases(1)[OF sk(4), of path'] sk(2)
      by (auto simp: inode_name_loop.simps[of np _ path'])
    then show ?thesis unfolding step wk using w resolved_warm[OF w(2) v(3)] el
      by - (rule exI[of _ nm], rule exI[of _ w], auto)
  qed
qed

section \<open>A concrete tree\<close>

lemma walk_drop_inode:
  "disk_dinode (drop_inode k s) = disk_dinode s" "child (drop_inode k s) = child s"
  "walk np (drop_inode k s) i es = walk np s i es" "walkable (drop_inode k s) i es = walkable s i es"
proof -
  show "disk_dinode (drop_inode k s) = disk_dinode s" by (metis put_drop_inode disk_dinode_put_inode)
  show "child (drop_inode k s) = child s" by (rule ext) (metis put_drop_inode child_put_inode(1))
  show "walk np (drop_inode k s) i es = walk np s i es" by (metis put_drop_inode walk_put_inode(3))
  show "walkable (drop_inode k s) i es = walkable s i es" by (metis put_drop_inode walk_put_inode(4))
qed

text \<open>A root directory with the entry \<open>.\<close> and an empty cache.\<close>

lemma demo_tree:
  "\<exists>s :: inode_cache. coherent s \<and> fs_inv s \<and> log_dev s = ROOTDEV \<and>
     walkable s ROOTINO [cstr ''.'', cstr ''.''] \<and> (\<forall>np. walk np s ROOTINO [cstr ''.'', cstr ''.''] = Some 1)"
proof -
  have nm: "legal_name (cstr ''.'')" by (simp add: legal_name_def cstr_def)
  have fs: "free_slot demo_dir (1, 1) = 0" "dir_lookup demo_dir (1, 1) (cstr ''.'') = None"
    by (simp_all add: free_slot_def dir_lookup_def)
  have "di_nlink (the_dinode demo_dir (1, 1)) = 1" "log_dev demo_dir = 1"
    by (simp_all add: demo_dir_def the_dinode_def demo_dir_inode_def demo_inode_def)
  then obtain t where t: "dir_ok (1, 1) t" "file_frame (1, 1) demo_dir t"
    "dir_lookup t (1, 1) (cstr ''.'') = Some (1, 0)" "disk_dinode t 1 = the_dinode t (1, 1)"
    "di_nlink (the_dinode t (1, 1)) = 1"
    using dirlink_effect[of "(1, 1)" demo_dir "cstr ''.''" 1 "[]"] nm fs by auto
  have env: "log_dev t = 1" "inum_ok t 1" "fs_inv t"
    using t(1,2) demo_dir_facts(2) \<open>log_dev demo_dir = 1\<close>
    by (simp_all add: file_frame_def same_env_def dir_ok_def file_ok_def inum_ok_def)
  have only: "inodes t k = None" if "k \<noteq> (1, 1)" "k \<noteq> (1, 2)" for k
    using t(2) that by (simp add: file_frame_def demo_dir_def demo_file_defs)
  let ?s = "drop_inode (1, 2) (drop_inode (1, 1) t)"
  have "inodes ?s k = None" for k using only[of k] by (simp add: drop_inode_def)
  then have "coherent ?s" by (simp add: coherent_def)
  obtain m where m: "inodes t (1, 1) = Some m" using file_ok_basic(3)[of "(1, 1)" t] t(1) by (auto simp: dir_ok_def)
  have td: "the_dinode (disk_dir t 1) (1, 1) = the_dinode t (1, 1)" using t(4) env by (simp add: disk_dir_def the_dinode_def loaded_def)
  have v: "view (disk_dir t 1) = view t" by (simp add: disk_dir_def)
  have dk: "dir_ok (1, 1) (disk_dir t 1)" using dir_ok_cong[OF td v] t(1) m env by (simp add: disk_dir_def)
  have ch: "child t 1 (cstr ''.'') = Some 1" using dir_lookup_cong(1)[OF td v] t(3) env by (simp add: child_def)
  have no: "node_ok t 1" "is_dir t 1" using t env by (simp_all add: node_ok_def is_dir_def dir_ok_def)
  have w: "walkable t 1 [cstr ''.'', cstr ''.'']" "walk np t 1 [cstr ''.'', cstr ''.''] = Some 1" for np
    using no dk ch nm env by (simp_all add: cstr_def)
  show ?thesis using w env \<open>coherent ?s\<close> by (intro exI[of _ ?s]) (simp add: walk_drop_inode del: walk.simps walkable.simps)
qed

text \<open>The two resolvers, as calls of \<open>inode_name_x\<close>.\<close>

lemma inode_name_run:
  assumes "coherent s" "fs_inv s" "log_dev s = ROOTDEV" "path \<noteq> []" "hd path = slash"
    and "walkable s ROOTINO (elements path)"
  shows "(\<exists>t. inode_name path s = Inr (map_option (Pair ROOTDEV) (walk False s ROOTINO (elements path)), t) \<and>
      resolved s (walk False s ROOTINO (elements path)) t) \<and>
    (\<exists>nm t. inode_name_parent path s = Inr ((map_option (Pair ROOTDEV) (walk True s ROOTINO (elements path)), nm), t) \<and>
      resolved s (walk True s ROOTINO (elements path)) t \<and>
      (walk True s ROOTINO (elements path) \<noteq> None \<longrightarrow> (\<exists>r. nm = last (elements path) @ 0 # r)))"
proof -
  have l: "length name_buffer = DIRSIZ" by (simp add: name_buffer_def)
  have x: "\<exists>nm t. inode_name_x path np name_buffer s =
      Inr ((map_option (Pair ROOTDEV) (walk np s ROOTINO (elements path)), nm), t) \<and>
    resolved s (walk np s ROOTINO (elements path)) t \<and>
    (elements path \<noteq> [] \<longrightarrow> walk np s ROOTINO (elements path) \<noteq> None \<longrightarrow> (\<exists>r. nm = last (elements path) @ 0 # r))" for np
  proof -
    obtain u where u: "inode_get ROOTDEV ROOTINO s = Inr ((ROOTDEV, ROOTINO), u)" "holds (ROOTDEV, ROOTINO) s u"
      using inode_get_holds[OF assms(1), of ROOTDEV ROOTINO] assms(3) by auto
    have "inode_name_x path np name_buffer s = inode_name_loop np (log_dev s, ROOTINO) path name_buffer u"
      using u(1) assms(3-5) by (simp add: inode_name_x_def bnd_def)
    then show ?thesis
      using inode_name_loop_run[of s ROOTINO u path name_buffer np] u(2) assms(1-3,6) l by simp
  qed
  have "elements path \<noteq> []" if "walk True s ROOTINO (elements path) \<noteq> None" using that by auto
  with x[of True] have "\<exists>nm t. inode_name_parent path s =
      Inr ((map_option (Pair ROOTDEV) (walk True s ROOTINO (elements path)), nm), t) \<and>
      resolved s (walk True s ROOTINO (elements path)) t \<and>
      (walk True s ROOTINO (elements path) \<noteq> None \<longrightarrow> (\<exists>r. nm = last (elements path) @ 0 # r))"
    unfolding inode_name_parent_def by blast
  moreover have "\<exists>t. inode_name path s = Inr (map_option (Pair ROOTDEV) (walk False s ROOTINO (elements path)), t) \<and>
      resolved s (walk False s ROOTINO (elements path)) t"
    using x[of False] by (auto simp: inode_name_def bnd_def)
  ultimately show ?thesis by blast
qed

section \<open>Properties\<close>

text \<open>
  C29: path resolution is a walk through the directories on disk. For a path that starts with a slash,
  whose names are shorter than \<open>DIRSIZ\<close> and whose directories are well formed, \<open>inode_name\<close> returns the
  inode that following the names from the root reaches, or null when a name is missing or an inode on
  the way is not a directory; \<open>inode_name_parent\<close> does the same for all names but the last and returns
  that one, terminated, in the name buffer. The calls return, no lock stays held, no inode is deleted,
  and the only reference left over is the one to the result.
\<close>

theorem inode_name_resolves:
  assumes "coherent s" "fs_inv s" "log_dev s = ROOTDEV" "path \<noteq> []" "hd path = slash"
    and "walkable s ROOTINO (elements path)"
  shows "(\<exists>t. inode_name path s = Inr (map_option (Pair ROOTDEV) (walk False s ROOTINO (elements path)), t) \<and>
      resolved s (walk False s ROOTINO (elements path)) t) \<and>
    (\<exists>nm t. inode_name_parent path s = Inr ((map_option (Pair ROOTDEV) (walk True s ROOTINO (elements path)), nm), t) \<and>
      resolved s (walk True s ROOTINO (elements path)) t \<and>
      (walk True s ROOTINO (elements path) \<noteq> None \<longrightarrow> (\<exists>r. nm = last (elements path) @ 0 # r)))"
  by (rule inode_name_run[OF assms])

theorem inode_name_resolves_witness:
  "\<exists>s t :: inode_cache. coherent s \<and> elements (cstr ''/./.'') = [cstr ''.'', cstr ''.''] \<and>
     walkable s ROOTINO (elements (cstr ''/./.'')) \<and> inode_name (cstr ''/./.'') s = Inr (Some (1, 1), t)"
proof -
  obtain s :: inode_cache where s: "coherent s" "fs_inv s" "log_dev s = ROOTDEV"
    "walkable s ROOTINO [cstr ''.'', cstr ''.'']" "walk False s ROOTINO [cstr ''.'', cstr ''.''] = Some 1"
    using demo_tree by blast
  have e: "elements (cstr ''/./.'') = [cstr ''.'', cstr ''.'']" by (simp add: cstr_def elements_def)
  have h: "cstr ''/./.'' \<noteq> []" "hd (cstr ''/./.'') = slash" by (simp_all add: cstr_def)
  show ?thesis using inode_name_resolves[OF s(1-3) h, unfolded e, OF s(4)] s(1,4,5) unfolding e by auto
qed

end
