(* ===== verification/Boot.thy ===== *)
theory Boot
  imports Mkfs Path_Walk Transactions Fuse_Handlers
begin

text \<open>
  From \<open>mkfs\<close> to a mounted file system: what \<open>mkfs/mkfs.c\<close> writes without any file is executed
  symbolically, and \<open>op_init\<close> is run on the image. The result is an idle file system whose root directory
  holds the names \<open>.\<close> and \<open>..\<close> and whose other blocks and inodes are free.
\<close>

section \<open>The image of mkfs\<close>

lemma xint_id [simp]: "xint x = x"
proof -
  have "get_u32 (\<lambda>i. ucast (drop_bit (8 * i) x)) 0 = get_u32 (put_u32 (\<lambda>_. 0) 0 x) 0"
  proof (rule u32c.get_local)
    fix i :: nat assume "0 \<le> i" "i < 0 + 4"
    then consider "i = 0" | "i = 1" | "i = 2" | "i = 3" by linarith
    then show "ucast (drop_bit (8 * i) x) = put_u32 (\<lambda>_. 0) 0 x i" by cases (simp_all add: put_u32_def)
  qed
  then show ?thesis by (simp add: xint_def u32c.get_put)
qed

lemma xshort_id [simp]: "xshort x = x"
proof -
  have "get_u16 (\<lambda>i. ucast (drop_bit (8 * i) x)) 0 = get_u16 (put_u16 (\<lambda>_. 0) 0 x) 0"
  proof (rule u16c.get_local)
    fix i :: nat assume "0 \<le> i" "i < 0 + 2"
    then consider "i = 0" | "i = 1" by linarith
    then show "ucast (drop_bit (8 * i) x) = put_u16 (\<lambda>_. 0) 0 x i" by cases (simp_all add: put_u16_def)
  qed
  then show ?thesis by (simp add: xshort_def u16c.get_put)
qed

lemma image_place: "unat b < 2 ^ 22 \<Longrightarrow> image_offset b = unat b * BSIZE \<and> image_index b = unat b"
  by (simp add: image_index_def image_offset_def unat_word_ariths)

lemma bm_bit_set_bits: "bm_bit (set_bits n) i \<longleftrightarrow> i < n"
proof (induction n)
  case 0
  show ?case by (simp add: set_bits_def bm_bit_def)
next
  case (Suc n)
  have "set_bits (Suc n) = (set_bits n)(n div 8 := set_bits n (n div 8) OR bit_mask n)"
    by (simp add: set_bits_def)
  then show ?case unfolding bm_bit_set by (simp only: bm_bit_set Suc) auto
qed

text \<open>
  The blocks \<open>mkfs\<close> writes: the super block, the first inode block, the bitmap and the first data block.
\<close>

definition boot_sb :: superblock where
  "boot_sb = \<lparr>ms_magic = FS_MAGIC, ms_size = 1000, ms_nblocks = 954, ms_ninodes = 200, ms_nlog = 30,
     ms_logstart = 2, ms_inodestart = 32, ms_bmapstart = 45\<rparr>"

definition boot_sb_block :: bytes where
  "boot_sb_block = put_u32s (\<lambda>_. 0) 0 [FS_MAGIC, 1000, 954, 200, 30, 2, 32, 45]"

definition boot_image :: "bytes \<Rightarrow> bytes \<Rightarrow> bytes \<Rightarrow> image" where
  "boot_image ib bm db = (\<lambda>k. if k = 1 then boot_sb_block else if k = 32 then ib
     else if k = 45 then bm else if k = 46 then db else (\<lambda>_. 0))"

definition mk_state :: "bytes \<Rightarrow> bytes \<Rightarrow> bytes \<Rightarrow> u32 \<Rightarrow> u32 \<Rightarrow> mkfs_state" where
  "mk_state ib bm db fi ub = \<lparr>mk_image = boot_image ib bm db, mk_length = 1024000, mk_sb = boot_sb,
     freeinode = fi, used_block = ub\<rparr>"

lemma boot_image_upd [simp]:
  "(boot_image ib bm db)(32 := x) = boot_image x bm db"
  "(boot_image ib bm db)(45 := x) = boot_image ib x db"
  "(boot_image ib bm db)(46 := x) = boot_image ib bm x"
  by (simp_all add: fun_eq_iff boot_image_def)

lemma mkfs_blocks [simp]:
  "rsect 32 (mk_state ib bm db fi ub) = Inr (ib, mk_state ib bm db fi ub)"
  "rsect 46 (mk_state ib bm db fi ub) = Inr (db, mk_state ib bm db fi ub)"
  "wsect 32 x (mk_state ib bm db fi ub) = Inr ((), mk_state x bm db fi ub)"
  "wsect 45 x (mk_state ib bm db fi ub) = Inr ((), mk_state ib x db fi ub)"
  "wsect 46 x (mk_state ib bm db fi ub) = Inr ((), mk_state ib bm x fi ub)"
  using image_place[of 32] image_place[of 45] image_place[of 46]
  by (simp_all add: rsect_def wsect_def bnd_def mk_state_def) (simp_all add: boot_image_def)

lemma write_superblock_run:
  "write_superblock mkfs_start = Inr ((), mk_state (\<lambda>_. 0) (\<lambda>_. 0) (\<lambda>_. 0) 1 46)"
proof -
  let ?s = "\<lambda>n. mkfs_start\<lparr>mk_sb := boot_sb, used_block := 46, mk_length := n * BSIZE\<rparr>"
  have "for_each [0..<FSSIZE] (\<lambda>i. wsect (of_nat i) (\<lambda>_. 0)) (?s 0) = Inr ((), ?s FSSIZE)"
  proof (rule for_each_upto)
    fix i assume i: "i < FSSIZE"
    then have u: "unat (of_nat i :: u32) = i" by (simp add: unat_of_nat)
    then have "unat (of_nat i :: u32) < 2 ^ 22" using i by simp
    from image_place[OF this] u have p: "image_offset (of_nat i) = i * BSIZE" "image_index (of_nat i) = i" by simp_all
    have "(\<lambda>_ _. 0)(i := (\<lambda>_. 0)) = ((\<lambda>_ _. 0) :: image)" by (simp add: fun_eq_iff)
    with p show "wsect (of_nat i) (\<lambda>_. 0) (?s i) = Inr ((), ?s (Suc i))"
      by (simp add: wsect_def mkfs_start_def)
  qed
  then have "write_superblock mkfs_start = wsect 1 boot_sb_block (?s FSSIZE)"
    by (simp add: write_superblock_def bnd_def Let_def mkfs_start_def boot_sb_def boot_sb_block_def)
  also have "\<dots> = Inr ((), mk_state (\<lambda>_. 0) (\<lambda>_. 0) (\<lambda>_. 0) 1 46)"
    using image_place[of 1] by (simp add: wsect_def mkfs_start_def mk_state_def boot_image_def fun_eq_iff)
  finally show ?thesis .
qed

text \<open>The inode of the root directory with \<open>n\<close> bytes, and an entry as \<open>mkfs\<close> stores it.\<close>

definition root_dinode :: "u32 \<Rightarrow> u32 \<Rightarrow> DiskINode" where
  "root_dinode n b = \<lparr>di_type = T_DIR, di_major = 0, di_minor = 0, di_nlink = 1, di_size = n,
     di_addrs = b # replicate NDIRECT 0\<rparr>"

definition root_entry :: "byte list \<Rightarrow> DirEntry" where
  "root_entry nm = \<lparr>de_inum = 1, de_name = name_field nm\<rparr>"

lemma root_dinode_wf [simp]: "dinode_wf (root_dinode n b)"
  by (simp add: root_dinode_def dinode_wf_def)

lemma root_inode [simp]:
  "rinode 1 (mk_state ib bm db fi ub) = Inr (get_dinode ib 64, mk_state ib bm db fi ub)"
  "winode 1 di (mk_state ib bm db fi ub) = Inr ((), mk_state (put_dinode ib 64 di) bm db fi ub)"
proof -
  have "IBLOCK 1 (mk_sb (mk_state ib bm db fi ub)) = 32" "inode_pos 1 = 64"
    by (simp_all add: IBLOCK_def mk_state_def boot_sb_def inode_pos_def)
  then show "rinode 1 (mk_state ib bm db fi ub) = Inr (get_dinode ib 64, mk_state ib bm db fi ub)"
    "winode 1 di (mk_state ib bm db fi ub) = Inr ((), mk_state (put_dinode ib 64 di) bm db fi ub)"
    by (simp_all add: rinode_def winode_def bnd_def)
qed

lemma iappend_root:
  assumes d: "get_dinode ib 64 = root_dinode n b" and b: "b = 0 \<and> ub = 46 \<or> b = 46"
    and bs: "length bs = 16" and n: "unat n + 16 \<le> BSIZE"
  shows "iappend 1 bs (mk_state ib bm db fi ub) =
    Inr ((), mk_state (put_dinode ib 64 (root_dinode (n + 16) 46)) bm (put_bytes db (unat n) bs) fi
      (if b = 0 then 47 else ub))"
proof -
  let ?ub = "if b = 0 then 47 else ub"
  have q: "unat n div BSIZE = 0" using n by simp
  have sl: "iappend_slot 0 (root_dinode n b) (mk_state ib bm db fi ub) =
      Inr (root_dinode n 46, mk_state ib bm db fi ?ub)"
    using b by (auto simp: iappend_slot_def root_dinode_def next_block_def bnd_def mk_state_def)
  have "iappend_block 0 (root_dinode n b) (mk_state ib bm db fi ub) = Inr ((root_dinode n 46, 46), mk_state ib bm db fi ?ub)"
    using sl by (simp add: iappend_block_def bnd_def) (simp add: root_dinode_def)
  moreover have "iappend_loop [] off din s = Inr ((din, off), s)" for off din and s :: mkfs_state
    by (subst iappend_loop.simps) simp
  ultimately have "iappend_loop bs (unat n) (root_dinode n b) (mk_state ib bm db fi ub) =
      Inr ((root_dinode n 46, unat n + 16), mk_state ib bm (put_bytes db (unat n) bs) fi ?ub)"
    using bs n q by (subst iappend_loop.simps) (simp add: bnd_def Let_def)
  then show ?thesis using d by (simp add: iappend_def bnd_def root_dinode_def)
qed

lemma add_dirent_root:
  assumes d: "get_dinode ib 64 = root_dinode n b" and b: "b = 0 \<and> ub = 46 \<or> b = 46"
    and n: "unat n + 16 \<le> BSIZE" and nm: "legal_name nm"
  shows "add_dirent 1 1 nm (mk_state ib bm db fi ub) =
    Inr ((), mk_state (put_dinode ib 64 (root_dinode (n + 16) 46)) bm
      (put_bytes db (unat n) (dirent_bytes (root_entry nm))) fi (if b = 0 then 47 else ub))"
proof -
  have "strncpy (c_str nm) DIRSIZ = Some (name_field nm)" using name_field_strncpy[OF nm, of "[]"] by (simp add: c_str_def)
  moreover have "length (dirent_bytes de) = 16" for de by (simp add: dirent_bytes_def)
  ultimately show ?thesis using iappend_root[OF d b _ n] by (simp add: add_dirent_def root_entry_def)
qed

text \<open>The four blocks in the end.\<close>

definition boot_ib :: bytes where
  "boot_ib = fold (\<lambda>di d. put_dinode d 64 di)
     [root_dinode 0 0, root_dinode 16 46, root_dinode 32 46, root_dinode 32 46, root_dinode 1024 46] (\<lambda>_. 0)"

definition boot_db :: bytes where
  "boot_db = put_bytes (put_bytes (\<lambda>_. 0) 0 (dirent_bytes (root_entry (cstr ''.''))))
     16 (dirent_bytes (root_entry (cstr ''..'')))"

lemma mkfs_run: "mkfs_main True [] mkfs_start = Inr ((), mk_state boot_ib (set_bits 47) boot_db 2 47)"
proof -
  have nm: "legal_name (cstr ''.'')" "legal_name (cstr ''..'')" by (simp_all add: legal_name_def cstr_def)
  have ia: "ialloc T_DIR (mk_state ib bm db 1 ub) = Inr (1, mk_state (put_dinode ib 64 (root_dinode 0 0)) bm db 2 ub)"
    for ib bm db ub
  proof -
    have "(mk_state ib bm db 1 ub)\<lparr>freeinode := 2\<rparr> = mk_state ib bm db 2 ub" "freeinode (mk_state ib bm db 1 ub) = 1"
      by (simp_all add: mk_state_def)
    moreover have "zero_dinode\<lparr>di_type := T_DIR, di_nlink := 1, di_size := 0\<rparr> = root_dinode 0 0"
      by (simp add: zero_dinode_def root_dinode_def) (simp add: numeral_eq_Suc)
    ultimately show ?thesis by (simp add: ialloc_def bnd_def)
  qed
  have rd: "get_dinode (put_dinode d 64 (root_dinode n b)) 64 = root_dinode n b" for d n b
    by (rule dinodec.get_put) simp
  have sz: "(root_dinode n b)\<lparr>di_size := m\<rparr> = root_dinode m b" "di_size (root_dinode n b) = n" for n b m
    by (simp_all add: root_dinode_def)
  have bal: "mkfs_balloc 47 (mk_state ib bm db fi ub) = Inr ((), mk_state ib (set_bits 47) db fi ub)" for ib bm db fi ub
  proof -
    have "ms_bmapstart (mk_sb (mk_state ib bm db fi ub)) = 45" by (simp add: mk_state_def boot_sb_def)
    then show ?thesis by (simp add: mkfs_balloc_def bnd_def)
  qed
  have ub: "used_block (mk_state ib bm db fi ub) = ub" for ib bm db fi ub by (simp add: mk_state_def)
  show ?thesis
    by (simp add: mkfs_main_def bnd_def write_superblock_run ia rd nm add_dirent_root sz bal ub Let_def boot_ib_def boot_db_def)
qed

section \<open>Start-up\<close>

text \<open>The super block and the log parameters as they are found in block 1 of an image.\<close>

definition with_super :: "bytes \<Rightarrow> 'a log_state_scheme \<Rightarrow> 'a log_state_scheme" where
  "with_super d s = s\<lparr>sb_magic := get_u32 d 0, sb_size := get_u32 d 4,
     sb_nblocks := get_u32 d 8, sb_ninodes := get_u32 d 12, sb_nlog := get_u32 d 16,
     sb_logstart := get_u32 d 20, sb_inodestart := get_u32 d 24, sb_bmapstart := get_u32 d 28\<rparr>"

definition with_log :: "u32 \<Rightarrow> 'a log_state_scheme \<Rightarrow> 'a log_state_scheme" where
  "with_log dev s = s\<lparr>log_start := sb_logstart s, log_size := sb_nlog s, log_dev := dev\<rparr>"

lemma SuperBlock_init_run:
  assumes c: "cache_inv {} {} s" and b: "in_image s 1" and m: "get_u32 (mmap_base s 1) 0 = FS_MAGIC"
  shows "SuperBlock_init dev s = Log_init dev (with_super (mmap_base s 1) s)"
proof -
  let ?d = "mmap_base s 1" and ?k = "(dev, 1)"
  have v: "view s ?k = ?d" using view_absent[OF c, of ?k] b by simp
  have rd: "block_read dev 1 s = Inr (?k, holdd ?k ?d s)" using block_read_hold[OF c _ b] v by simp
  have bd: "block_data ?k (holdd ?k ?d s) = Inr (?d, holdd ?k ?d s)"
    by (simp add: block_data_def deref_block_def bnd_def holdd_def)
  have cw: "cache_inv {} {} (with_super ?d s)" using c by (simp add: cache_inv_def with_super_def)
  have w: "with_super ?d (holdd ?k ?d s) = holdd ?k ?d (with_super ?d s)"
    by (simp add: with_super_def holdd_def refcnt_of_def)
  have rl: "block_release ?k (holdd ?k ?d (with_super ?d s)) = Inr ((), with_super ?d s)"
    by (rule block_release_unpinned[OF cw]) simp_all
  have mg: "sb_magic (with_super ?d s) = FS_MAGIC" using m by (simp add: with_super_def)
  show ?thesis
    using rd bd rl mg w[unfolded with_super_def] by (simp add: SuperBlock_init_def bnd_def with_super_def)
qed

lemma Log_init_run:
  assumes "log_geom (with_log dev s)" "cache_inv {} {} s" "head_ok (with_log dev s) (mmap_base s)"
    "length (lh_block (log_hdr s)) = LOG_SIZE"
  shows "Log_init dev s = Inr ((), recover_result (with_log dev s))"
proof -
  have "cache_inv {} {} (with_log dev s)" "mmap_base (with_log dev s) = mmap_base s" "log_hdr (with_log dev s) = log_hdr s"
    using assms(2) by (simp_all add: cache_inv_def with_log_def)
  with recover_run[OF assms(1)] assms(3,4) show ?thesis by (simp add: Log_init_def bnd_def with_log_def)
qed

lemma head_block_twice: "head_block [] (head_block [] d) = head_block [] d"
  by (simp add: head_block_def put_u32_def fun_eq_iff)

text \<open>
  \<open>op_init\<close> recovers twice: \<open>SuperBlock::init\<close> and \<open>op_init\<close> itself call \<open>Log::init\<close>. The second recovery
  finds the log that the first one cleared and changes nothing on the image.
\<close>

definition at_boot :: "image \<Rightarrow> nat \<Rightarrow> byte list \<Rightarrow> fs_state" where
  "at_boot img sz inp = with_log ROOTDEV (with_super (img 1) (main_state img sz inp))"

definition console_on :: "Device list \<Rightarrow> Device list" where
  "console_on ds = ds[CONSOLE := \<lparr>d_read = True, d_write = True\<rparr>]"

lemma op_init_run:
  assumes sz: "2 * BSIZE \<le> sz" and m: "get_u32 (img 1) 0 = FS_MAGIC"
    and g: "log_geom (at_boot img sz inp)" and h: "head_ok (at_boot img sz inp) img"
  shows "\<exists>tr bs. length bs = LOG_SIZE \<and> op_init (main_state img sz inp) = Inr ((),
    (at_boot img sz inp)\<lparr>mmap_base := apply_writes (recovery_trace (unat (log_start (at_boot img sz inp))) img) img,
      wtrace := tr, log_hdr := \<lparr>lh_n = 0, lh_block = bs\<rparr>,
      dev_table := console_on (dev_table (at_boot img sz inp))\<rparr>)"
proof -
  let ?s = "main_state img sz inp"
  let ?b = "at_boot img sz inp"
  let ?st = "unat (log_start ?b)"
  let ?im = "apply_writes (recovery_trace ?st img) img"
  let ?n = "unat (get_u32 (img ?st) 0)"
  have c: "cache_inv {} {} ?s" "cache_inv {} {} (with_super (img 1) ?s)"
    by (simp_all add: cache_inv_def main_state_def with_super_def)
  have i1: "in_image ?s 1" using sz by (simp add: in_image_def main_state_def)
  have im: "mmap_base ?s = img" "mmap_base (with_super (img 1) ?s) = img" "mmap_base ?b = img"
    by (simp_all add: main_state_def with_super_def at_boot_def with_log_def)
  have l: "length (lh_block (log_hdr (with_super (img 1) ?s))) = LOG_SIZE" by (simp add: main_state_def with_super_def)
  have "SuperBlock_init ROOTDEV ?s = Log_init ROOTDEV (with_super (img 1) ?s)"
    using SuperBlock_init_run[OF c(1) i1] m im by simp
  also have "\<dots> = Inr ((), recover_result ?b)"
    using Log_init_run[OF _ c(2) _ l] g h im unfolding at_boot_def by simp
  finally have r1: "SuperBlock_init ROOTDEV ?s = Inr ((), recover_result ?b)" .
  have nb: "?n \<le> LOG_SIZE" using h by (simp add: head_ok_def Let_def)
  define t where "t = (recover_result ?b)\<lparr>dev_table := console_on (dev_table ?b)\<rparr>"
  have fl: "sb_logstart ?b = log_start ?b" "sb_nlog ?b = log_size ?b" "log_dev ?b = ROOTDEV"
    "lh_block (log_hdr ?b) = replicate LOG_SIZE 0" "blocks ?b = Map.empty"
    by (simp_all add: at_boot_def with_log_def with_super_def main_state_def)
  have wt: "with_log ROOTDEV t = t" using fl by (simp add: t_def with_log_def recover_result_def Let_def)
  have tf: "mmap_base t = ?im" "log_start t = log_start ?b" "lh_n (log_hdr t) = 0" "length (lh_block (log_hdr t)) = LOG_SIZE"
    "log_geom t" "cache_inv {} {} t"
    using g nb fl(4,5) im by (simp_all add: t_def recover_result_def Let_def log_geom_def cache_inv_def)
  have st: "?st \<notin> fst ` set (disk_log ?st img)" using h g by (intro disk_log_outside) (auto simp: log_geom_def)
  have hd: "?im ?st = head_block [] (img ?st)"
    using st by (simp add: recovery_trace_def apply_writes_other)
  have ho: "head_ok t (mmap_base t)"
    by (rule head_ok_empty[OF tf(5)]) (simp add: tf hd)
  have r2: "Log_init ROOTDEV t = Inr ((), recover_result t)"
    using Log_init_run[of ROOTDEV t] tf(4-6) ho wt by simp
  have again: "apply_writes (recovery_trace ?st ?im) ?im = ?im"
  proof -
    have "disk_log ?st ?im = []" by (simp add: disk_log_def hd)
    then have "apply_writes (recovery_trace ?st ?im) ?im = ?im(?st := ?im ?st)"
      by (simp add: recovery_trace_def hd head_block_twice)
    then show ?thesis by simp
  qed
  have "op_init ?s = Inr ((), recover_result t)"
    using r1 r2 by (simp add: op_init_def bnd_def Console_init_def t_def console_on_def recover_result_def Let_def)
  moreover have "recover_result t = ?b\<lparr>mmap_base := ?im,
      wtrace := wtrace (recover_result t), log_hdr := \<lparr>lh_n = 0, lh_block = lh_block (log_hdr (recover_result t))\<rparr>,
      dev_table := console_on (dev_table ?b)\<rparr>"
    unfolding recover_result_def[of t] Let_def tf(1,2) again
    by (simp add: t_def recover_result_def Let_def)
  moreover have "length (lh_block (log_hdr (recover_result t))) = LOG_SIZE"
    unfolding recover_result_def[of t] Let_def tf(1,2) hd using tf(4) by simp
  ultimately show ?thesis by metis
qed

section \<open>The fresh file system\<close>

definition boot_img :: image where
  "boot_img = boot_image boot_ib (set_bits 47) boot_db"

lemma boot_img_blocks [simp]:
  "boot_img (Suc 0) = boot_sb_block" "boot_img 2 = (\<lambda>_. 0)" "boot_img 32 = boot_ib" "boot_img 45 = set_bits 47" "boot_img 46 = boot_db"
  "32 < k \<Longrightarrow> k < 45 \<Longrightarrow> boot_img k = (\<lambda>_. 0)"
  by (simp_all add: boot_img_def boot_image_def)

lemma boot_super:
  "get_u32 boot_sb_block 0 = FS_MAGIC" "get_u32 boot_sb_block 4 = 1000" "get_u32 boot_sb_block 8 = 954"
  "get_u32 boot_sb_block 12 = 200" "get_u32 boot_sb_block 16 = 30" "get_u32 boot_sb_block 20 = 2"
  "get_u32 boot_sb_block 24 = 32" "get_u32 boot_sb_block 28 = 45"
proof -
  have "get_u32 boot_sb_block (0 + 4 * j) = [FS_MAGIC, 1000, 954, 200, 30, 2, 32, 45] ! j" if "j < 8" for j
    unfolding boot_sb_block_def by (rule get_put_u32s) (use that in simp)
  from this[of 0] this[of 1] this[of 2] this[of 3] this[of 4] this[of 5] this[of 6] this[of 7]
  show "get_u32 boot_sb_block 0 = FS_MAGIC" "get_u32 boot_sb_block 4 = 1000" "get_u32 boot_sb_block 8 = 954"
    "get_u32 boot_sb_block 12 = 200" "get_u32 boot_sb_block 16 = 30" "get_u32 boot_sb_block 20 = 2"
    "get_u32 boot_sb_block 24 = 32" "get_u32 boot_sb_block 28 = 45"
    by (simp_all add: numeral_eq_Suc)
qed

text \<open>The mounted state; what recovery leaves in the ghost trace and in the header does not matter.\<close>

definition boot_state :: "byte list \<Rightarrow> (nat \<times> bytes) list \<Rightarrow> u32 list \<Rightarrow> fs_state" where
  "boot_state inp tr bs = (at_boot boot_img 1024000 inp)\<lparr>mmap_base := boot_img, wtrace := tr, log_hdr := \<lparr>lh_n = 0, lh_block = bs\<rparr>,
     dev_table := console_on (dev_table (at_boot boot_img 1024000 inp))\<rparr>"

lemma at_boot_fields:
  "sb_size (at_boot boot_img sz inp) = 1000" "sb_ninodes (at_boot boot_img sz inp) = 200"
  "sb_inodestart (at_boot boot_img sz inp) = 32" "sb_bmapstart (at_boot boot_img sz inp) = 45"
  "log_start (at_boot boot_img sz inp) = 2" "log_size (at_boot boot_img sz inp) = 30"
  "log_dev (at_boot boot_img sz inp) = 1" "st_size (at_boot boot_img sz inp) = sz"
  "mmap_base (at_boot boot_img sz inp) = boot_img" "blocks (at_boot boot_img sz inp) = Map.empty"
  "inodes (at_boot boot_img sz inp) = Map.empty" "outstanding (at_boot boot_img sz inp) = 0"
  "\<not> committing (at_boot boot_img sz inp)"
  by (simp_all add: at_boot_def with_log_def with_super_def main_state_def boot_super)

lemma boot_fields [simp]:
  "sb_size (boot_state inp tr bs) = 1000" "sb_ninodes (boot_state inp tr bs) = 200"
  "sb_inodestart (boot_state inp tr bs) = 32" "sb_bmapstart (boot_state inp tr bs) = 45"
  "log_start (boot_state inp tr bs) = 2" "log_size (boot_state inp tr bs) = 30"
  "log_dev (boot_state inp tr bs) = 1" "st_size (boot_state inp tr bs) = 1024000"
  "mmap_base (boot_state inp tr bs) = boot_img" "blocks (boot_state inp tr bs) = Map.empty"
  "inodes (boot_state inp tr bs) = Map.empty" "outstanding (boot_state inp tr bs) = 0"
  "\<not> committing (boot_state inp tr bs)" "log_hdr (boot_state inp tr bs) = \<lparr>lh_n = 0, lh_block = bs\<rparr>"
  by (simp_all add: boot_state_def at_boot_fields)

lemma boot_run:
  "\<exists>tr bs. length bs = LOG_SIZE \<and> op_init (main_state boot_img 1024000 inp) = Inr ((), boot_state inp tr bs)"
proof -
  let ?b = "at_boot boot_img 1024000 inp"
  have g: "log_geom ?b" by (simp add: log_geom_def at_boot_fields)
  have z: "get_u32 (boot_img 2) 0 = 0" by (simp add: get_u32_def)
  have h: "head_ok ?b boot_img" by (rule head_ok_empty[OF g]) (simp add: at_boot_fields z)
  have m: "get_u32 (boot_img 1) 0 = FS_MAGIC" by (simp add: boot_super)
  have "head_block [] (\<lambda>_. 0) = (\<lambda>_. 0)" by (simp add: head_block_def put_u32_def fun_eq_iff)
  then have "apply_writes (recovery_trace 2 boot_img) boot_img = boot_img"
    by (simp add: recovery_trace_def disk_log_def get_u32_def fun_upd_idem)
  then show ?thesis
    using op_init_run[OF _ m g h] by (simp add: boot_state_def at_boot_fields)
qed

lemma boot_view [simp]: "unat b < 2 ^ 22 \<Longrightarrow> view (boot_state inp tr bs) (dev, b) = boot_img (unat b)"
  by (simp add: view_def image_place)

lemma boot_used: "x < BIT_PER_BLOCK \<Longrightarrow> used (boot_state inp tr bs) x \<longleftrightarrow> x < 47"
  by (simp add: used_def BIT_BLOCK_def bm_bit_set_bits)

lemma boot_idle: "length bs = LOG_SIZE \<Longrightarrow> idle (boot_state inp tr bs)"
proof -
  let ?s = "boot_state inp tr bs"
  assume l: "length bs = LOG_SIZE"
  have d: "data_start ?s = 46" by (simp add: data_start_def)
  have "jinv {} ?s"
    using l by (simp add: jinv_def log_geom_def log_wf_def logged_def pins_def) (simp add: cache_inv_def)
  moreover have "fs_geom ?s" using d by (simp add: fs_geom_def)
  moreover have "meta_used ?s" using boot_used[of _ inp tr bs] by (simp add: meta_used_def d)
  ultimately show ?thesis by (simp add: idle_def fs_inv_def header_clear_def logged_def get_u32_def)
qed

lemma boot_free: "free_blocks (boot_state inp tr bs) = {47..<FSSIZE}"
  using boot_used[of _ inp tr bs] by (auto simp: free_blocks_def)

section \<open>The root directory\<close>

lemma boot_inode_block: "unat i < 200 \<Longrightarrow> unat (INODE_BLOCK (boot_state inp tr bs) i) = 32 + unat i div 16"
  by (simp add: INODE_BLOCK_def unat_word_ariths unat_of_nat)

lemma boot_ib_other: "p + 64 \<le> 64 \<or> 128 \<le> p \<Longrightarrow> get_dinode boot_ib p = get_dinode (\<lambda>_. 0) p"
  unfolding boot_ib_def by (auto simp: dinodec.get_put_apart)

lemma get_dinode_zero: "di_type (get_dinode (\<lambda>_. 0) p) = 0"
  by (simp add: zero_dinode_def)

lemma boot_inodes:
  assumes i: "inum_ok (boot_state inp tr bs) i"
  shows "i = 1 \<Longrightarrow> disk_dinode (boot_state inp tr bs) i = root_dinode 1024 46"
    "i \<noteq> 1 \<Longrightarrow> di_type (disk_dinode (boot_state inp tr bs) i) = FT_Invalid"
proof -
  let ?s = "boot_state inp tr bs"
  have u: "unat i < 200" using i by (simp add: inum_ok_def)
  have b: "unat (INODE_BLOCK ?s i) < 2 ^ 22" unfolding boot_inode_block[OF u] using u by simp
  have d: "disk_dinode ?s i = get_dinode (boot_img (32 + unat i div 16)) (inode_pos i)"
    using boot_view[OF b] boot_inode_block[OF u] by (simp add: disk_dinode_def)
  show "disk_dinode ?s i = root_dinode 1024 46" if "i = 1"
    unfolding d using that by (simp add: inode_pos_def boot_ib_def dinodec.get_put)
  show "di_type (disk_dinode ?s i) = FT_Invalid" if ne: "i \<noteq> 1"
  proof (cases "unat i div 16 = 0")
    case True
    have "unat i \<noteq> 1" using ne by (metis unat_1 unsigned_word_eqI)
    then have "unat i = 0 \<or> 2 \<le> unat i" by linarith
    moreover have "inode_pos i = 64 * unat i" using True by (simp add: inode_pos_def div_eq_0_iff)
    ultimately show ?thesis unfolding d True using boot_ib_other[of "inode_pos i"] get_dinode_zero by auto
  next
    case False
    then have "boot_img (32 + unat i div 16) = (\<lambda>_. 0)" using u by (intro boot_img_blocks) auto
    then show ?thesis unfolding d by (simp add: zero_dinode_def)
  qed
qed

lemma get_dirent_put_bytes:
  assumes wf: "dirent_wf de"
  shows "get_dirent (put_bytes d (16 * j) (dirent_bytes de)) (16 * i) = (if i = j then de else get_dirent d (16 * i))"
proof -
  have l: "length (dirent_bytes de) = 16" by (simp add: dirent_bytes_def)
  show ?thesis
  proof (cases "i = j")
    case True
    have "get_dirent (put_bytes d (16 * j) (dirent_bytes de)) (16 * j) =
        get_dirent (\<lambda>i. put_bytes d (16 * j) (dirent_bytes de) (16 * j + i)) 0"
      by (rule get_dirent_shift[symmetric])
    also have "\<dots> = get_dirent (\<lambda>i. dirent_bytes de ! i) 0"
      by (rule direntc.get_frame) (simp add: put_bytes_def l)
    also have "\<dots> = de" using dirent_of_bytes[OF wf] by (simp add: dirent_of_def)
    finally show ?thesis using True by simp
  next
    case False
    then consider "Suc i \<le> j" | "Suc j \<le> i" by linarith
    then have "16 * i + 16 \<le> 16 * j \<or> 16 * j + 16 \<le> 16 * i" by cases auto
    then have "get_dirent (put_bytes d (16 * j) (dirent_bytes de)) (16 * i) = get_dirent d (16 * i)"
      by (intro direntc.get_frame) (auto simp: put_bytes_def l)
    with False show ?thesis by simp
  qed
qed

lemma boot_entries:
  "get_dirent boot_db (16 * j) = (if j = 0 then root_entry (cstr ''.'') else if j = 1 then root_entry (cstr ''..'')
     else Codec.zero_dirent)"
proof -
  have wf: "dirent_wf (root_entry (cstr ''.''))" "dirent_wf (root_entry (cstr ''..''))"
    by (simp_all add: dirent_wf_def root_entry_def name_field_def cstr_def)
  have z: "get_dirent (\<lambda>_. 0) p = Codec.zero_dirent" for p
    by (simp add: get_dirent_def Codec.zero_dirent_def get_u16_def get_bytes_def map_replicate_const)
  show ?thesis
    using get_dirent_put_bytes[OF wf(1), of "\<lambda>_. 0" 0 j] z
      get_dirent_put_bytes[OF wf(2), of "put_bytes (\<lambda>_. 0) 0 (dirent_bytes (root_entry (cstr ''.'')))" 1 j]
    by (cases "j = 0") (simp_all add: boot_db_def)
qed

lemma boot_root_dir:
  assumes l: "length bs = LOG_SIZE" and t_def: "t = disk_dir (boot_state inp tr bs) 1"
  shows "dir_ok (1, 1) t" "dir_len t (1, 1) = 64" "j < 64 \<Longrightarrow> dir_entry t (1, 1) j = get_dirent boot_db (16 * j)"
proof -
  let ?s = "boot_state inp tr bs"
  have t: "t = put_inode (1, 1) (loaded (root_dinode 1024 46) 1) ?s"
    using boot_inodes(1)[of inp tr bs 1] by (simp add: t_def disk_dir_def inum_ok_def)
  have td: "the_dinode t (1, 1) = root_dinode 1024 46" by (simp add: t the_dinode_def loaded_def)
  have sl: "slots t (1, 1) i = (if i = 0 then 46 else 0)" if "i < NSLOTS" for i
    by (cases i) (simp_all add: slots_def td root_dinode_def Let_def)
  have inv: "fs_inv t" using boot_idle[OF l, of inp tr] by (simp add: t idle_def)
  have fs: "fsize t (1, 1) = 1024" by (simp add: fsize_def td root_dinode_def)
  have so: "slot_of 0 = 0" by (simp add: slot_of_def)
  have us: "used t 46" "data_block t 46" using boot_used[of 46 inp tr bs] by (simp_all add: t data_block_def data_start_def)
  have fk: "file_ok (1, 1) t" unfolding file_ok_def
    using inv sl us by (auto simp: t loaded_def)
  have dn: "dense (1, 1) t" unfolding dense_def fs using sl[of 0] so by simp
  show "dir_ok (1, 1) t" using fk dn td fs by (simp add: dir_ok_def root_dinode_def)
  show "dir_len t (1, 1) = 64" by (simp add: dir_len_def fs)
  show "dir_entry t (1, 1) j = get_dirent boot_db (16 * j)" if "j < 64"
  proof -
    have "fcontent t (1, 1) p = boot_db p" if "p < 1024" for p
      using that sl[of 0] so by (simp add: fcontent_def t)
    with that show ?thesis by (simp add: dir_entry_def) (rule direntc.get_frame, simp)
  qed
qed

lemma boot_entry_is:
  assumes l: "length bs = LOG_SIZE" and nm: "legal_name nm" and j: "j < 64" and t: "t = disk_dir (boot_state inp tr bs) 1"
  shows "entry_is nm (dir_entry t (1, 1) j) \<longleftrightarrow> j = 0 \<and> nm = cstr ''.'' \<or> j = 1 \<and> nm = cstr ''..''"
proof -
  have lg: "legal_name (cstr ''.'')" "legal_name (cstr ''..'')" by (simp_all add: legal_name_def cstr_def)
  show ?thesis
    unfolding boot_root_dir(3)[OF l t j] boot_entries root_entry_def
    using entry_is_name_field[OF lg(1) nm, of 1] entry_is_name_field[OF lg(2) nm, of 1]
    by (auto simp: entry_is_def Codec.zero_dirent_def)
qed

lemma boot_child:
  assumes l: "length bs = LOG_SIZE" and nm: "legal_name nm"
  shows "child (boot_state inp tr bs) 1 nm = (if nm = cstr ''.'' \<or> nm = cstr ''..'' then Some 1 else None)"
proof -
  let ?t = "disk_dir (boot_state inp tr bs) 1"
  note d = boot_root_dir[OF l refl, where inp = inp and tr = tr]
  have e: "entry_is nm (dir_entry ?t (1, 1) j) \<longleftrightarrow> j = 0 \<and> nm = cstr ''.'' \<or> j = 1 \<and> nm = cstr ''..''" if "j < 64" for j
    by (rule boot_entry_is[OF l nm that refl])
  have i: "de_inum (dir_entry ?t (1, 1) j) = 1" if "j < 2" for j
    using d(3)[of j] that by (simp add: boot_entries root_entry_def)
  have ne: "cstr ''.'' \<noteq> cstr ''..''" by (simp add: cstr_def)
  have up: "[0..<64] = 0 # 1 # [2..<64]" by (simp add: upt_conv_Cons)
  have "find (\<lambda>j. entry_is nm (dir_entry ?t (1, 1) j)) [2..<64] = None"
    using e by (auto simp: find_None_iff)
  then have "find (\<lambda>j. entry_is nm (dir_entry ?t (1, 1) j)) [0..<64] =
      (if nm = cstr ''.'' then Some 0 else if nm = cstr ''..'' then Some 1 else None)"
    using e[of 0] e[of 1] ne unfolding up by simp
  then show ?thesis using i[of 0] i[of 1] d(2) ne by (simp add: child_def dir_lookup_def)
qed

lemma boot_unique:
  assumes l: "length bs = LOG_SIZE"
  shows "unique_names (disk_dir (boot_state inp tr bs) 1) (1, 1)"
  unfolding unique_names_def bound_once_def boot_root_dir(2)[OF l refl]
proof (intro allI impI)
  fix nm i j
  let ?t = "disk_dir (boot_state inp tr bs) 1"
  assume a: "legal_name nm" "i < 64" "j < 64" "entry_is nm (dir_entry ?t (1, 1) i) \<and> entry_is nm (dir_entry ?t (1, 1) j)"
  have "cstr ''.'' \<noteq> cstr ''..''" by (simp add: cstr_def)
  then show "i = j" using a(4) boot_entry_is[OF l a(1,2) refl] boot_entry_is[OF l a(1,3) refl] by auto
qed

lemma boot_walk:
  assumes l: "length bs = LOG_SIZE"
  shows "(\<forall>e \<in> set es. legal_name e) \<Longrightarrow> walkable (boot_state inp tr bs) 1 es \<and>
    walk False (boot_state inp tr bs) 1 es = (if set es \<subseteq> {cstr ''.'', cstr ''..''} then Some 1 else None)"
proof (induction es)
  let ?s = "boot_state inp tr bs"
  have r: "disk_dinode ?s 1 = root_dinode 1024 46" using boot_inodes(1)[of inp tr bs 1] by (simp add: inum_ok_def)
  then have n: "node_ok ?s 1" "is_dir ?s 1" by (simp_all add: node_ok_def is_dir_def inum_ok_def root_dinode_def)
  {
    case Nil
    show ?case using n by simp
  next
    case (Cons e es)
    then have lg: "legal_name e" and "walkable ?s 1 es" by simp_all
    then show ?case using n boot_child[OF l lg, of inp tr] boot_root_dir(1)[OF l refl, where inp = inp and tr = tr] Cons by simp
  }
qed

section \<open>Properties\<close>

text \<open>
  C30: \<open>op_init\<close> of a fresh process on any image with a super block and a log header that recovery can
  follow returns, and does what one recovery does: \<open>Log::init\<close> is called twice, and the second call
  changes nothing. Afterwards the log is empty and no operation runs.
\<close>

theorem op_init_recovers:
  assumes "2 * BSIZE \<le> sz" "get_u32 (img 1) 0 = FS_MAGIC"
    and "log_geom (at_boot img sz inp)" "head_ok (at_boot img sz inp) img"
  shows "\<exists>s. op_init (main_state img sz inp) = Inr ((), s) \<and>
    (\<forall>k. mmap_base s k = recovered (at_boot img sz inp) img k) \<and> header_clear s \<and> logged s = [] \<and>
    outstanding s = 0 \<and> \<not> committing s \<and> blocks s = Map.empty \<and> inodes s = Map.empty"
proof -
  let ?b = "at_boot img sz inp"
  obtain tr bs where r: "op_init (main_state img sz inp) = Inr ((),
    ?b\<lparr>mmap_base := apply_writes (recovery_trace (unat (log_start ?b)) img) img,
      wtrace := tr, log_hdr := \<lparr>lh_n = 0, lh_block = bs\<rparr>, dev_table := console_on (dev_table ?b)\<rparr>)"
    using op_init_run[OF assms] by blast
  have b: "outstanding ?b = 0" "\<not> committing ?b" "blocks ?b = Map.empty" "inodes ?b = Map.empty"
    by (simp_all add: at_boot_def with_log_def with_super_def main_state_def)
  have "apply_writes (recovery_trace (unat (log_start ?b)) img) img (unat (log_start ?b)) = head_block [] (img (unat (log_start ?b)))"
    by (simp add: recovery_trace_def)
  then show ?thesis unfolding r using b by (simp add: recovered_def header_clear_def logged_def)
qed

theorem op_init_recovers_witness:
  "get_u32 (boot_img 1) 0 = FS_MAGIC \<and>
   (\<exists>s. op_init (main_state boot_img 1024000 []) = Inr ((), s) \<and> header_clear s)"
proof -
  let ?b = "at_boot boot_img 1024000 []"
  have g: "log_geom ?b" by (simp add: log_geom_def at_boot_fields)
  have h: "head_ok ?b boot_img" by (rule head_ok_empty[OF g]) (simp add: at_boot_fields get_u32_def)
  have m: "get_u32 (boot_img 1) 0 = FS_MAGIC" by (simp add: boot_super)
  show ?thesis using op_init_recovers[OF _ m g h] m by auto
qed

text \<open>
  C31: the image that \<open>mkfs\<close> writes without files can be mounted, and \<open>op_init\<close> makes of it an idle file
  system: the invariants of the log, the cache and the layout hold, exactly the blocks from 47 on are
  free, exactly the root inode is in use, and the root is a well-formed directory in which the names
  \<open>.\<close> and \<open>..\<close> lead to itself and no other name leads anywhere.
\<close>

theorem mkfs_boots:
  "\<exists>m s. mkfs_main True [] mkfs_start = Inr ((), m) \<and>
     op_init (main_state (mk_image m) (mk_length m) inp) = Inr ((), s) \<and>
     idle s \<and> coherent s \<and> log_dev s = ROOTDEV \<and> free_blocks s = {47..<FSSIZE} \<and>
     {i. inum_ok s i \<and> di_type (disk_dinode s i) \<noteq> FT_Invalid} = {ROOTINO} \<and>
     dir_ok (ROOTDEV, ROOTINO) (disk_dir s ROOTINO) \<and>
     (\<forall>es. (\<forall>e \<in> set es. legal_name e) \<longrightarrow> walkable s ROOTINO es \<and>
       walk False s ROOTINO es = (if set es \<subseteq> {cstr ''.'', cstr ''..''} then Some ROOTINO else None))"
proof -
  obtain tr bs where l: "length bs = LOG_SIZE"
    and r: "op_init (main_state boot_img 1024000 inp) = Inr ((), boot_state inp tr bs)"
    using boot_run by blast
  let ?s = "boot_state inp tr bs"
  have "{i. inum_ok ?s i \<and> di_type (disk_dinode ?s i) \<noteq> FT_Invalid} = {1}"
  proof -
    have io: "inum_ok ?s 1" by (simp add: inum_ok_def)
    from boot_inodes(1)[OF io] have "di_type (disk_dinode ?s 1) = T_DIR" by (simp add: root_dinode_def)
    with io boot_inodes(2)[of inp tr bs] show ?thesis by force
  qed
  moreover have "coherent ?s" by (simp add: coherent_def)
  ultimately show ?thesis
    using mkfs_run r boot_idle[OF l] boot_free boot_root_dir(1)[OF l refl] boot_walk[OF l]
    by (intro exI[of _ "mk_state boot_ib (set_bits 47) boot_db 2 47"] exI[of _ ?s])
      (simp add: mk_state_def boot_img_def[symmetric])
qed

theorem mkfs_boots_witness:
  "\<exists>m s. mkfs_main True [] mkfs_start = Inr ((), m) \<and>
     op_init (main_state (mk_image m) (mk_length m) []) = Inr ((), s) \<and>
     walk False s ROOTINO [cstr ''..'', cstr ''.''] = Some ROOTINO \<and> walk False s ROOTINO [cstr ''etc''] = None"
proof -
  have "legal_name (cstr ''.'')" "legal_name (cstr ''..'')" "legal_name (cstr ''etc'')"
    by (simp_all add: legal_name_def cstr_def)
  moreover have "cstr ''etc'' \<noteq> cstr ''.''" "cstr ''etc'' \<noteq> cstr ''..''" by (simp_all add: cstr_def)
  moreover obtain m and s :: fs_state where ms: "mkfs_main True [] mkfs_start = Inr ((), m)"
     "op_init (main_state (mk_image m) (mk_length m) []) = Inr ((), s)"
     "\<forall>es. (\<forall>e \<in> set es. legal_name e) \<longrightarrow> walkable s ROOTINO es \<and>
       walk False s ROOTINO es = (if set es \<subseteq> {cstr ''.'', cstr ''..''} then Some ROOTINO else None)"
    using mkfs_boots[of "[]"] by blast
  moreover note ms(3)[rule_format, of "[cstr ''..'', cstr ''.'']"] ms(3)[rule_format, of "[cstr ''etc'']"]
  ultimately show ?thesis by (intro exI[of _ m] exI[of _ s]) (simp del: walk.simps)
qed

end
