(* ===== verification/Lookups.thy ===== *)
theory Lookups
  imports File_Writes Boot
begin

text \<open>
  System calls that look something up: \<open>do_open\<close> without creation, \<open>ofile_close\<close> and \<open>op_getattr\<close>. Each is one
  or two transactions that log nothing. The state is \<open>calm\<close> between calls; \<open>same_disk\<close> says that nothing
  of the file system on disk changed.
\<close>

section \<open>States with the same disk\<close>

definition same_disk :: "'a inode_cache_scheme \<Rightarrow> 'a inode_cache_scheme \<Rightarrow> bool" where
  "same_disk s s' \<longleftrightarrow> log_dev s' = log_dev s \<and> sb_size s' = sb_size s \<and> sb_ninodes s' = sb_ninodes s \<and>
     sb_inodestart s' = sb_inodestart s \<and> sb_bmapstart s' = sb_bmapstart s \<and>
     log_size s' = log_size s \<and> log_start s' = log_start s \<and> st_size s' = st_size s \<and>
     (\<forall>b. home_block s b \<longrightarrow> view s' (log_dev s, b) = view s (log_dev s, b))"

lemma same_disk_home: "same_disk s s' \<Longrightarrow> home_block s' = home_block s"
  by (simp add: same_disk_def fun_eq_iff home_block_def in_image_def in_log_def)

lemma same_disk_refl [simp]: "same_disk s s"
  by (simp add: same_disk_def)

lemma same_disk_trans: "same_disk s t \<Longrightarrow> same_disk t u \<Longrightarrow> same_disk s u"
  using same_disk_home[of s t] by (simp add: same_disk_def)

lemma same_disk_files: "same_files s s' \<Longrightarrow> same_disk s s'"
  by (simp add: same_disk_def same_files_def)

lemma same_disk_put_inode [simp]:
  "same_disk s (put_inode k n t) = same_disk s t" "same_disk (put_inode k n s) t = same_disk s t"
  by (simp_all add: same_disk_def)

lemma same_disk_drop_inode [simp]: "same_disk s (drop_inode k t) = same_disk s t"
  by (metis put_drop_inode same_disk_put_inode(1))

lemma same_disk_warm: "warm s t \<Longrightarrow> same_disk s t"
  by (induction rule: warm.induct) simp_all

text \<open>Forgetting the cached inodes.\<close>

lemma with_inodes [simp]:
  "view (s\<lparr>inodes := m\<rparr>) = view s" "fs_inv (s\<lparr>inodes := m\<rparr>) = fs_inv s" "used (s\<lparr>inodes := m\<rparr>) = used s"
  "data_block (s\<lparr>inodes := m\<rparr>) = data_block s" "jinv H (s\<lparr>inodes := m\<rparr>) = jinv H s"
  "home_block (s\<lparr>inodes := m\<rparr>) = home_block s"
proof -
  show v: "view (s\<lparr>inodes := m\<rparr>) = view s" by (rule ext) (simp add: view_def split: option.split)
  show u: "used (s\<lparr>inodes := m\<rparr>) = used s" by (rule ext) (simp add: used_def BIT_BLOCK_def v)
  show "data_block (s\<lparr>inodes := m\<rparr>) = data_block s" by (rule ext) (simp add: data_block_def data_start_def)
  show h: "home_block (s\<lparr>inodes := m\<rparr>) = home_block s"
    by (rule ext) (simp add: home_block_def in_image_def in_log_def)
  have "pins (s\<lparr>inodes := m\<rparr>) = pins s" "log_wf (s\<lparr>inodes := m\<rparr>) = log_wf s"
    "log_geom (s\<lparr>inodes := m\<rparr>) = log_geom s" "cache_inv P H (s\<lparr>inodes := m\<rparr>) = cache_inv P H s" for P H
    by (simp_all add: pins_def logged_def log_wf_def h log_geom_def cache_inv_def)
  then show j: "jinv H (s\<lparr>inodes := m\<rparr>) = jinv H s" for H by (simp add: jinv_def)
  have "fs_geom (s\<lparr>inodes := m\<rparr>) = fs_geom s" "meta_used (s\<lparr>inodes := m\<rparr>) = meta_used s"
    by (simp_all add: fs_geom_def data_start_def meta_used_def u)
  then show "fs_inv (s\<lparr>inodes := m\<rparr>) = fs_inv s" by (simp add: fs_inv_def j)
qed

lemma same_disk_as_files: "same_disk s s' \<Longrightarrow> same_files (s\<lparr>inodes := inodes s'\<rparr>) s'"
  by (simp add: same_disk_def same_files_def)

lemma same_disk_inv:
  assumes sd: "same_disk s s'" and i: "fs_inv s" and j: "jinv {} s'"
  shows "fs_inv s'" "free_blocks s' = free_blocks s" "inum_ok s' = inum_ok s"
    "inum_ok s i' \<Longrightarrow> disk_dinode s' i' = disk_dinode s i'"
proof -
  let ?s = "s\<lparr>inodes := inodes s'\<rparr>"
  note sf = same_disk_as_files[OF sd]
  have i': "fs_inv ?s" using i by simp
  show "fs_inv s'" by (rule same_files_inv(1)[OF sf i' j])
  have "free_blocks ?s = free_blocks s" by (auto simp: free_blocks_def)
  with same_files_inv(2)[OF sf i' j] show "free_blocks s' = free_blocks s" by simp
  show io: "inum_ok s' = inum_ok s" using sd by (simp add: fun_eq_iff inum_ok_def same_disk_def)
  have "disk_dinode ?s = disk_dinode s" by (rule ext) (simp add: disk_dinode_def INODE_BLOCK_def)
  moreover assume "inum_ok s i'"
  moreover from this have "inum_ok ?s i'" by (simp add: inum_ok_def)
  ultimately show "disk_dinode s' i' = disk_dinode s i'" using same_files_inv(3)[OF sf i' j, of i'] by simp
qed

lemma same_disk_dir:
  assumes sd: "same_disk s s'" and i: "fs_inv s" and j: "jinv {} s'" and io: "inum_ok s i"
    and ok: "dir_ok (log_dev s, i) (disk_dir s i)"
  shows "dir_ok (log_dev s, i) (disk_dir s' i)" "child s' i = child s i"
    "unique_names (disk_dir s' i) (log_dev s, i) = unique_names (disk_dir s i) (log_dev s, i)"
proof -
  let ?k = "(log_dev s, i)"
  let ?t = "disk_dir s' i"
  let ?s = "(disk_dir s i)\<lparr>inodes := inodes ?t\<rparr>"
  have ld: "log_dev s' = log_dev s" using sd by (simp add: same_disk_def)
  have dd: "disk_dinode s' i = disk_dinode s i" by (rule same_disk_inv(4)[OF sd i j io])
  have td: "the_dinode ?s ?k = the_dinode (disk_dir s i) ?k" "inodes ?s ?k \<noteq> None" "inodes (disk_dir s i) ?k \<noteq> None"
    using ld dd by (simp_all add: disk_dir_def the_dinode_def)
  have v: "view ?s = view (disk_dir s i)" by simp
  have ok': "dir_ok ?k ?s" using dir_ok_cong[OF td(1) v] td(2,3) ok by simp
  have sf: "same_files ?s ?t"
    by (rule same_disk_as_files) (use sd in \<open>simp add: disk_dir_def\<close>)
  have jt: "jinv {} ?t" using j by (simp add: disk_dir_def)
  have fk: "file_ok ?k ?s" using ok' by (simp add: dir_ok_def)
  note f = same_files_file[OF sf fk jt]
  show "dir_ok ?k ?t" using ok' f unfolding dir_ok_def by simp
  have "dir_lookup ?t ?k = dir_lookup ?s ?k" by (rule ext) (simp add: dir_lookup_def dir_entry_def dir_len_def f)
  also have "\<dots> = dir_lookup (disk_dir s i) ?k" by (rule dir_lookup_cong(1)[OF td(1) v])
  finally show "child s' i = child s i" using ld by (simp add: fun_eq_iff child_def)
  have fc: "fcontent (disk_dir s i) ?k = fcontent ?s ?k" by (rule dir_lookup_cong(3)[OF td(1) v, symmetric])
  show "unique_names ?t ?k = unique_names (disk_dir s i) ?k"
    by (rule unique_names_cong) (simp_all add: fun_eq_iff dir_entry_def dir_len_def fsize_def f fc td(1)[symmetric])
qed

lemma same_disk_node:
  assumes "same_disk s s'" "fs_inv s" "jinv {} s'" "node_ok s i"
  shows "node_ok s' i" "is_dir s' i = is_dir s i"
  using same_disk_inv(3)[OF assms(1-3)] same_disk_inv(4)[OF assms(1-3), of i] assms(4)
  by (simp_all add: node_ok_def is_dir_def)

lemma same_disk_walk:
  assumes "same_disk s s'" "fs_inv s" "jinv {} s'"
  shows "walkable s i es \<Longrightarrow> walkable s' i es \<and> walk np s' i es = walk np s i es"
proof (induction es arbitrary: i)
  case Nil
  then show ?case using same_disk_node[OF assms] by simp
next
  case (Cons e es)
  then have n: "node_ok s i" "legal_name e" by simp_all
  have ld: "log_dev s' = log_dev s" using assms(1) by (simp add: same_disk_def)
  note m = same_disk_node[OF assms n(1)]
  show ?case
  proof (cases "is_dir s i")
    case False
    then show ?thesis using m n by simp
  next
    case True
    have ok: "dir_ok (log_dev s, i) (disk_dir s i)" using True Cons.prems by simp
    have io: "inum_ok s i" using n(1) by (simp add: node_ok_def)
    note d = same_disk_dir[OF assms io ok]
    show ?thesis using True m n d ld Cons by (auto split: option.split)
  qed
qed

lemma walk_node_ok: "walkable s i es \<Longrightarrow> walk False s i es = Some j \<Longrightarrow> node_ok s j"
  by (induction es arbitrary: i) (auto split: if_splits option.splits)

section \<open>Between system calls\<close>

definition cached_exist :: "'a inode_cache_scheme \<Rightarrow> bool" where
  "cached_exist s \<longleftrightarrow> (\<forall>k n. inodes s k = Some n \<longrightarrow> fst k = log_dev s \<and> inum_ok s (snd k))"

definition calm :: "'a inode_cache_scheme \<Rightarrow> bool" where
  "calm s \<longleftrightarrow> idle s \<and> coherent s \<and> cached_exist s"

lemma idle_put_inode [simp]: "idle (put_inode k n s) = idle s"
  by (simp add: idle_def)

lemma idle_drop_inode [simp]: "idle (drop_inode k s) = idle s"
  by (metis put_drop_inode idle_put_inode)

lemma in_txn_drop_inode [simp]: "in_txn (drop_inode k s) = in_txn s"
  by (metis put_drop_inode in_txn_put_inode)

lemma warm_in_txn: "warm s t \<Longrightarrow> in_txn t = in_txn s"
  by (induction rule: warm.induct) simp_all

lemma warm_inodes: "warm s t \<Longrightarrow> \<exists>m. t = s\<lparr>inodes := m\<rparr> \<and> dom m = dom (inodes s)"
proof (induction rule: warm.induct)
  case same
  show ?case by (intro exI[of _ "inodes s"]) simp
next
  case (load u k n)
  then obtain m where m: "u = s\<lparr>inodes := m\<rparr>" "dom m = dom (inodes s)" by blast
  then have "k \<in> dom m" using load by auto
  let ?m = "n\<lparr>i_valid := True, i_dinode := disk_dinode u (snd k)\<rparr>"
  have "put_inode k ?m u = s\<lparr>inodes := m(k \<mapsto> ?m)\<rparr>" by (simp only: m(1) put_inode_def) simp
  moreover have "dom (m(k \<mapsto> ?m)) = dom (inodes s)" using \<open>k \<in> dom m\<close> m(2) by (simp only: dom_fun_upd) auto
  ultimately show ?case by blast
qed

lemma warm_cached_exist:
  assumes "warm s t" "cached_exist s"
  shows "cached_exist t"
proof -
  obtain m where m: "t = s\<lparr>inodes := m\<rparr>" "dom m = dom (inodes s)" using warm_inodes[OF assms(1)] by blast
  then have "inodes s k \<noteq> None" if "inodes t k = Some n" for k n using that by (auto simp: dom_def)
  moreover have "inum_ok t = inum_ok s" "log_dev t = log_dev s" by (simp_all add: m(1) fun_eq_iff inum_ok_def)
  ultimately show ?thesis using assms(2) unfolding cached_exist_def by fastforce
qed

lemma same_disk_coherent:
  assumes sd: "same_disk s s'" and i: "fs_inv s" and j: "jinv {} s'" and "inodes s' = inodes s"
    and "coherent s" "cached_exist s"
  shows "coherent s'" "cached_exist s'"
proof -
  note d = same_disk_inv(3,4)[OF sd i j]
  show "coherent s'" using assms(4-6) same_disk_inv(4)[OF sd i j] unfolding coherent_def cached_exist_def by fastforce
  show "cached_exist s'" using assms(4,6) same_disk_inv(3)[OF sd i j] sd by (simp add: cached_exist_def same_disk_def)
qed

lemma calm_begin:
  assumes "calm s"
  shows "begin_op s = Inr ((), begun s)" "in_txn (begun s)" "same_disk s (begun s)"
    "coherent (begun s)" "cached_exist (begun s)" "inodes (begun s) = inodes s"
proof -
  have id: "idle s" using assms by (simp add: calm_def)
  note b = begin_op_idle[OF id]
  have i: "fs_inv s" and j: "jinv {} (begun s)" using id b(2) by (simp_all add: idle_def in_txn_def fs_inv_def)
  show "begin_op s = Inr ((), begun s)" "in_txn (begun s)" by (rule b)+
  show sd: "same_disk s (begun s)" by (rule same_disk_files[OF b(4)])
  show e: "inodes (begun s) = inodes s" by (simp add: begun_def)
  show "coherent (begun s)" "cached_exist (begun s)"
    using same_disk_coherent[OF sd i j e] assms by (simp_all add: calm_def)
qed

text \<open>\<open>end_op\<close>, with the cached inodes as they are.\<close>

lemma end_calm:
  assumes "in_txn s"
  obtains s' im tr bl h where "end_op s = Inr ((), s')" "idle s'" "same_disk s s'" "inodes s' = inodes s"
    "s' = settle im tr bl h s"
  using end_op_idle[OF assms] same_disk_files settle_files(1) that by metis

lemma settle_put_inode: "settle im tr bl h (put_inode k n s) = put_inode k n (settle im tr bl h s)"
  by (simp add: settle_def put_inode_def)

lemma settle_drop_inode: "settle im tr bl h (drop_inode k s) = drop_inode k (settle im tr bl h s)"
  by (simp add: settle_def drop_inode_def)

section \<open>Opening\<close>

definition opened :: "DiskINode \<Rightarrow> u32 \<Rightarrow> INode" where
  "opened di r = \<lparr>i_ref = r, i_locked = False, i_valid = True, i_dinode = di\<rparr>"

definition new_file :: "INodeKey \<Rightarrow> DiskINode \<Rightarrow> u32 \<Rightarrow> OFile \<Rightarrow> OFile" where
  "new_file k di omode fl = open_file k omode (if di_type di = T_DEVICE
     then fl\<lparr>f_ref := 1, f_type := FD_DEVICE, f_major := di_major di\<rparr>
     else fl\<lparr>f_ref := 1, f_type := FD_INODE, f_off := 0\<rparr>)"

definition free_file :: "'a fs_state_scheme \<Rightarrow> nat option" where
  "free_file s = find (\<lambda>i. f_type (files s ! i) = FD_NONE) [0..<length (files s)]"

lemma free_file_less: "free_file s = Some f \<Longrightarrow> f < length (files s) \<and> f_type (files s ! f) = FD_NONE"
  using find_Some_in[of "\<lambda>i. f_type (files s ! i) = FD_NONE" "[0..<length (files s)]" f] by (simp add: free_file_def)

lemma put_inode_files:
  "put_inode k n (s\<lparr>files := fs\<rparr>) = (put_inode k n s)\<lparr>files := fs\<rparr>" "files (put_inode k n s) = files s"
  "drop_inode k (s\<lparr>files := fs\<rparr>) = (drop_inode k s)\<lparr>files := fs\<rparr>" "files (drop_inode k s) = files s"
  by (simp_all add: put_inode_def drop_inode_def)

lemma settle_above:
  fixes s :: "'a fs_state_scheme"
  shows "files (settle im tr bl h s) = files s"
    "settle im tr bl h (s\<lparr>files := fs\<rparr>) = (settle im tr bl h s)\<lparr>files := fs\<rparr>"
  by (simp_all add: settle_def)

lemma inode_open_run:
  fixes s :: "'a fs_state_scheme"
  assumes n: "inodes s k = Some (loaded di r)" "r \<noteq> 0" and sl: "free_file s = Some f" and om: "\<not> flag omode O_TRUNC"
  shows "inode_open k omode s = bnd end_op (\<lambda>_. ret (Some f))
    (put_inode k (opened di r) (s\<lparr>files := (files s)[f := new_file k di omode (files s ! f)]\<rparr>))"
proof -
  note f = free_file_less[OF sl]
  let ?g = "\<lambda>i. f_type (files s ! i) = FD_NONE"
  have al: "ofile_alloc s = Inr (Some f, s\<lparr>files := (files s)[f := (files s ! f)\<lparr>f_ref := 1\<rparr>]\<rparr>)"
    using sl f by (simp add: ofile_alloc_def free_file_def mod_file_def deref_file_def bnd_def)
  let ?s1 = "\<lambda>fl. s\<lparr>files := (files s)[f := fl]\<rparr>"
  have md: "mod_file f g (?s1 fl) = Inr ((), ?s1 (g fl))" for g fl
    using f by (simp add: mod_file_def deref_file_def bnd_def)
  have dn: "dinode k (?s1 fl) = Inr (di, ?s1 fl)" for fl
    using dinode_run[of "?s1 fl" k "loaded di r"] n by (simp add: loaded_def)
  have ul: "INode_unlock k (?s1 fl) = Inr ((), put_inode k (opened di r) (?s1 fl))" for fl
    using INode_unlock_run[of "?s1 fl" k "loaded di r"] n
    by (simp add: loaded_def opened_def word_le_nat_alt unat_gt_0 Suc_le_eq)
  show ?thesis
    using al md dn ul om by (simp add: inode_open_def bnd_def new_file_def)
qed

lemma files_update_calm [simp]:
  fixes s :: "'a fs_state_scheme"
  shows "idle (s\<lparr>files := x\<rparr>) = idle s" "same_disk t (s\<lparr>files := x\<rparr>) = same_disk t s"
    "same_disk (s\<lparr>files := x\<rparr>) t = same_disk s t" "disk_dinode (s\<lparr>files := x\<rparr>) = disk_dinode s"
    "calm (s\<lparr>files := x\<rparr>) = calm s" "rc (s\<lparr>files := x\<rparr>) = rc s"
proof -
  show i: "idle (s\<lparr>files := x\<rparr>) = idle s" by (simp add: idle_def) (simp add: header_clear_def logged_def)
  show "same_disk t (s\<lparr>files := x\<rparr>) = same_disk t s" "same_disk (s\<lparr>files := x\<rparr>) t = same_disk s t"
    by (simp_all add: same_disk_def)
  show d: "disk_dinode (s\<lparr>files := x\<rparr>) = disk_dinode s" by (rule ext) (simp add: disk_dinode_def INODE_BLOCK_def)
  have "inum_ok (s\<lparr>files := x\<rparr>) = inum_ok s" by (rule ext) (simp add: inum_ok_def)
  then show "calm (s\<lparr>files := x\<rparr>) = calm s" by (simp add: calm_def i coherent_def cached_exist_def d)
  show "rc (s\<lparr>files := x\<rparr>) = rc s" by (rule ext) (simp add: rc_def)
qed

text \<open>The end of a transaction in which inodes were only looked at.\<close>

lemma end_warm:
  fixes s :: "'a fs_state_scheme"
  assumes c: "calm s" and w: "warm (begun s) t"
  shows "\<exists>s'. end_op t = Inr ((), s') \<and> calm s' \<and> same_disk s s' \<and> files s' = files s"
proof -
  note b = calm_begin[OF c]
  obtain m where m: "t = (begun s)\<lparr>inodes := m\<rparr>" using warm_inodes[OF w] by blast
  have tt: "in_txn t" using warm_in_txn[OF w] b(2) by simp
  obtain s' im tr bl h where e: "end_op t = Inr ((), s')" "idle s'" "same_disk t s'" "inodes s' = inodes t"
    "s' = settle im tr bl h t" by (rule end_calm[OF tt])
  have j: "fs_inv t" "jinv {} s'" using tt e(2) by (simp_all add: in_txn_def idle_def fs_inv_def)
  have "calm s'" unfolding calm_def
    using e(2) same_disk_coherent[OF e(3) j e(4) warm_coherent[OF w b(4)] warm_cached_exist[OF w b(5)]] by simp
  moreover have "same_disk s s'" using same_disk_trans[OF b(3) same_disk_trans[OF same_disk_warm[OF w] e(3)]] .
  moreover have "files s' = files s" by (simp add: e(5) settle_above m begun_def)
  ultimately show ?thesis using e(1) by blast
qed

text \<open>\<open>do_open\<close> of a path that leads nowhere.\<close>

lemma do_open_missing:
  fixes s :: "'a fs_state_scheme"
  assumes c: "calm s" and ld: "log_dev s = ROOTDEV" and p: "path \<noteq> []" "hd path = slash"
    and w: "walkable s ROOTINO (elements path)" and om: "\<not> flag omode O_CREAT"
    and none: "walk False s ROOTINO (elements path) = None"
  shows "\<exists>t. do_open path omode s = Inr (None, t) \<and> calm t \<and> same_disk s t \<and> files t = files s"
proof -
  note b = calm_begin[OF c]
  have i: "fs_inv s" "fs_inv (begun s)" "jinv {} (begun s)" using c b(2) by (simp_all add: calm_def idle_def in_txn_def fs_inv_def)
  have lb: "log_dev (begun s) = ROOTDEV" using ld by (simp add: begun_def)
  note wk = same_disk_walk[OF b(3) i(1,3) w, of False]
  obtain t where t: "inode_name path (begun s) = Inr (None, t)" "warm (begun s) t"
    using inode_name_run[OF b(4) i(2) lb p] wk none by (auto simp: resolved_def)
  obtain s' where e: "end_op t = Inr ((), s')" "calm s'" "same_disk s s'" "files s' = files s"
    using end_warm[OF c t(2)] by blast
  have "do_open path omode s = Inr (None, s')"
    using b(1) t(1) e(1) om by (simp add: do_open_def bnd_def)
  with e show ?thesis by blast
qed

text \<open>\<open>do_open\<close> of an existing inode.\<close>

lemma do_open_found:
  fixes s :: "'a fs_state_scheme"
  assumes c: "calm s" and ld: "log_dev s = ROOTDEV" and p: "path \<noteq> []" "hd path = slash"
    and w: "walkable s ROOTINO (elements path)" and om: "\<not> flag omode O_CREAT" "\<not> flag omode O_TRUNC"
    and i: "walk False s ROOTINO (elements path) = Some i" and sl: "free_file s = Some f"
  shows "\<exists>u. calm u \<and> same_disk s u \<and> files u = files s \<and>
    do_open path omode s = Inr (Some f, put_inode (ROOTDEV, i) (opened (disk_dinode s i) (rc u (ROOTDEV, i) + 1))
      (u\<lparr>files := (files s)[f := new_file (ROOTDEV, i) (disk_dinode s i) omode (files s ! f)]\<rparr>))"
proof -
  let ?k = "(ROOTDEV, i)"
  note b = calm_begin[OF c]
  have inv: "fs_inv s" "fs_inv (begun s)" "jinv {} (begun s)" using c b(2) by (simp_all add: calm_def idle_def in_txn_def fs_inv_def)
  have lb: "log_dev (begun s) = ROOTDEV" using ld by (simp add: begun_def)
  note wk = same_disk_walk[OF b(3) inv(1,3) w, of False]
  obtain u t where t: "inode_name path (begun s) = Inr (Some ?k, t)" "warm (begun s) u" "holds ?k u t"
    using inode_name_run[OF b(4) inv(2) lb p] wk i lb by (auto simp: resolved_def)
  note ws = warm_same[OF t(2)]
  have cu: "coherent u" "cached_exist u" "fs_inv u" "in_txn u" "log_dev u = ROOTDEV"
    using warm_coherent[OF t(2) b(4)] warm_cached_exist[OF t(2) b(5)] ws(1,2) inv(2) lb warm_in_txn[OF t(2)] b(2) by simp_all
  obtain m where m: "u = (begun s)\<lparr>inodes := m\<rparr>" using warm_inodes[OF t(2)] by blast
  have ns: "node_ok s i" by (rule walk_node_ok[OF w i])
  have nu: "node_ok u i" using ws(8) same_disk_node(1)[OF b(3) inv(1,3) ns] by simp
  have du: "disk_dinode u i = disk_dinode s i"
    using ws(3) same_disk_inv(4)[OF b(3) inv(1,3)] ns by (simp add: node_ok_def)
  let ?di = "disk_dinode s i" and ?r = "rc u ?k + 1"
  let ?L = "put_inode ?k (loaded ?di ?r) u"
  have lk: "INode_lock ?k t = Inr ((), ?L)"
    using INode_lock_holds[of u i t] t(3) cu(1,3,5) nu du by simp
  have r0: "?r \<noteq> 0" using rc_succ[OF cu(1), of ?k] by simp
  have fl: "files ?L = files s" "free_file ?L = Some f"
    using sl by (simp_all add: put_inode_files free_file_def m begun_def)
  let ?F = "(files s)[f := new_file ?k ?di omode (files s ! f)]"
  have tu: "in_txn (u\<lparr>files := ?F\<rparr>)" using cu(4) by simp
  then have tX: "in_txn (put_inode ?k (opened ?di ?r) (u\<lparr>files := ?F\<rparr>))" by simp
  have "inode_open ?k omode ?L = bnd end_op (\<lambda>_. ret (Some f)) (put_inode ?k (opened ?di ?r) (?L\<lparr>files := ?F\<rparr>))"
    using inode_open_run[of ?L ?k ?di ?r f omode] r0 fl om(2) by simp
  also have "put_inode ?k (opened ?di ?r) (?L\<lparr>files := ?F\<rparr>) = put_inode ?k (opened ?di ?r) (u\<lparr>files := ?F\<rparr>)"
    by (simp add: put_inode_files)
  finally have io: "inode_open ?k omode ?L = bnd end_op (\<lambda>_. ret (Some f)) (put_inode ?k (opened ?di ?r) (u\<lparr>files := ?F\<rparr>))" .
  obtain s' im tr bl h where e: "end_op (put_inode ?k (opened ?di ?r) (u\<lparr>files := ?F\<rparr>)) = Inr ((), s')" "idle s'"
    "same_disk (put_inode ?k (opened ?di ?r) (u\<lparr>files := ?F\<rparr>)) s'"
    "s' = settle im tr bl h (put_inode ?k (opened ?di ?r) (u\<lparr>files := ?F\<rparr>))" by (rule end_calm[OF tX])
  let ?v = "settle im tr bl h u"
  have s': "s' = put_inode ?k (opened ?di ?r) (?v\<lparr>files := ?F\<rparr>)"
    unfolding e(4) by (simp add: settle_put_inode settle_above)
  have v: "idle ?v" "same_disk u ?v" using e(2,3) unfolding s' by simp_all
  have jv: "jinv {} ?v" "inodes ?v = inodes u" using v(1) by (simp_all add: idle_def fs_inv_def settle_def)
  have "calm ?v" unfolding calm_def using v(1) same_disk_coherent[OF v(2) cu(3) jv cu(1,2)] by simp
  moreover have "same_disk s ?v" using same_disk_trans[OF b(3) same_disk_trans[OF same_disk_warm[OF t(2)] v(2)]] .
  moreover have "files ?v = files s" by (simp add: settle_above m begun_def)
  moreover have "rc ?v ?k = rc u ?k" by (simp add: rc_def settle_def)
  moreover have "do_open path omode s = Inr (Some f, s')"
  proof -
    have "dinode ?k ?L = Inr (?di, ?L)" by (simp add: dinode_run loaded_def)
    then show ?thesis using b(1) t(1) lk io e(1) om by (simp add: do_open_def bnd_def)
  qed
  ultimately show ?thesis using s' by (intro exI[of _ ?v]) simp
qed

section \<open>Closing\<close>

lemma begun_parts:
  fixes s :: "'a fs_state_scheme"
  shows "begun (put_inode k n s) = put_inode k n (begun s)" "files (begun s) = files s"
  by (simp_all add: begun_def put_inode_def)

lemma ofile_close_last:
  fixes u :: "'a fs_state_scheme"
  assumes c: "calm u" and n: "node_ok u i" and k: "k = (log_dev u, i)"
    and f: "f < length F" "f_ref (F ! f) = 1" "f_type (F ! f) \<in> {FD_INODE, FD_DEVICE}" "f_ip (F ! f) = k"
  shows "\<exists>t. ofile_close f (put_inode k (opened (disk_dinode u i) (rc u k + 1)) (u\<lparr>files := F\<rparr>)) = Inr ((), t) \<and>
    calm t \<and> same_disk u t \<and> files t = F[f := (F ! f)\<lparr>f_ref := 0, f_type := FD_NONE\<rparr>] \<and>
    (inodes u k = None \<longrightarrow> inodes t = inodes u) \<and> unheld_unlocks t = unheld_unlocks u"
proof -
  let ?di = "disk_dinode u i" and ?r = "rc u k + 1"
  let ?n = "opened ?di ?r"
  let ?F1 = "F[f := (F ! f)\<lparr>f_ref := 0\<rparr>]"
  let ?F2 = "F[f := (F ! f)\<lparr>f_ref := 0, f_type := FD_NONE\<rparr>]"
  let ?X = "\<lambda>F. put_inode k ?n (u\<lparr>files := F\<rparr>)"
  have fX: "files (?X G) = G" "(?X G)\<lparr>files := H\<rparr> = ?X H" for G H by (simp_all add: put_inode_files)
  have m1: "mod_file f (\<lambda>f. f\<lparr>f_ref := f_ref f - 1\<rparr>) (?X F) = Inr ((), ?X ?F1)"
    using f by (simp add: mod_file_def deref_file_def bnd_def fX)
  have m2: "mod_file f (\<lambda>f. f\<lparr>f_ref := 0, f_type := FD_NONE\<rparr>) (?X ?F1) = Inr ((), ?X ?F2)"
    using f by (simp add: mod_file_def deref_file_def bnd_def fX)
  let ?u = "u\<lparr>files := ?F2\<rparr>"
  have cu: "calm ?u" using c by simp
  note b = calm_begin[OF cu]
  let ?B = "begun ?u"
  have inv: "fs_inv ?u" "fs_inv ?B" "jinv {} ?B" using cu b(2) by (simp_all add: calm_def idle_def in_txn_def fs_inv_def)
  have nu: "node_ok ?u i" using n by (simp add: node_ok_def) (simp add: inum_ok_def)
  have nB: "node_ok ?B i" "disk_dinode ?B i = ?di"
    using same_disk_node(1)[OF b(3) inv(1,3) nu] same_disk_inv(4)[OF b(3) inv(1,3), of i] nu by (simp_all add: node_ok_def)
  have kB: "k = (log_dev ?B, i)" "rc ?B k = rc u k" "inodes ?B = inodes u" using k by (simp_all add: begun_def rc_def)
  have rB: "?r = rc ?B (log_dev ?B, i) + 1" using kB(1,2) by simp
  have "\<exists>t. warm ?B t \<and> (inodes ?B k = None \<longrightarrow> t = ?B) \<and>
      (inodes ?B k \<noteq> None \<longrightarrow> t = put_inode k (opened ?di (?r - 1)) ?B)"
    using unlock_put_warm[OF b(4) nB(1) rB] unfolding kB(1)[symmetric] nB(2) opened_def .
  then obtain t where t: "warm ?B t" "inodes ?B k = None \<longrightarrow> t = ?B"
    "inodes ?B k \<noteq> None \<longrightarrow> t = put_inode k (opened ?di (?r - 1)) ?B" by (elim exE conjE)
  have bX: "begin_op (?X ?F2) = Inr ((), put_inode k ?n ?B)"
    using begin_op_idle(1)[of "?X ?F2"] cu by (simp add: calm_def begun_parts)
  have ip: "inode_put k (put_inode k ?n ?B) = Inr ((), t)"
  proof -
    have nl: "di_nlink ?di \<noteq> 0" using n by (simp add: node_ok_def)
    have r: "?r = 1 \<longleftrightarrow> inodes ?B k = None" using rc_succ[OF b(4), of k] kB(2) by simp
    have "inode_put k (put_inode k ?n ?B) = Inr ((), if ?r = 1 then drop_inode k (put_inode k ?n ?B)
        else put_inode k (opened ?di (?r - 1)) (put_inode k ?n ?B))"
      using inode_put_keep[of "put_inode k ?n ?B" k ?n] nl by (simp add: opened_def)
    then show ?thesis using r t(2,3) by (cases "inodes ?B k") (simp_all add: drop_put_inode)
  qed
  have tt: "in_txn t" using warm_in_txn[OF t(1)] b(2) by simp
  obtain s' im tr bl h where e: "end_op t = Inr ((), s')" "idle s'" "same_disk t s'" "inodes s' = inodes t"
    "s' = settle im tr bl h t" by (rule end_calm[OF tt])
  have j: "fs_inv t" "jinv {} s'" using tt e(2) by (simp_all add: in_txn_def idle_def fs_inv_def)
  have "calm s'" unfolding calm_def
    using e(2) same_disk_coherent[OF e(3) j e(4) warm_coherent[OF t(1) b(4)] warm_cached_exist[OF t(1) b(5)]] by simp
  moreover have "same_disk u s'"
    using same_disk_trans[OF b(3) same_disk_trans[OF same_disk_warm[OF t(1)] e(3)]] by simp
  moreover obtain m where m: "t = ?B\<lparr>inodes := m\<rparr>" using warm_inodes[OF t(1)] by blast
  moreover have "files s' = ?F2" "unheld_unlocks s' = unheld_unlocks u"
    by (simp_all add: e(5) settle_above m begun_def) (simp add: settle_def)
  moreover have "inodes u k = None \<longrightarrow> inodes s' = inodes u" using e(4) t(2) kB(3) by auto
  moreover have "ofile_close f (?X F) = Inr ((), s')"
  proof -
    have d: "deref_file f (?X F) = Inr (F ! f, ?X F)" "deref_file f (?X ?F1) = Inr ((F ! f)\<lparr>f_ref := 0\<rparr>, ?X ?F1)"
      using f(1) by (simp_all add: deref_file_def fX)
    show ?thesis using d m1 m2 bX ip e(1) f(2-4) by (auto simp: ofile_close_def bnd_def)
  qed
  ultimately show ?thesis by (intro exI[of _ s'] conjI)
qed

section \<open>Properties\<close>

definition stat_of :: "u32 \<Rightarrow> DiskINode \<Rightarrow> c_stat" where
  "stat_of i di = \<lparr>c_ino = i, c_mode = (if di_type di = T_DIR then S_IFDIR else S_IFREG) OR ACCESSPERMS,
     c_nlink = di_nlink di, c_size = di_size di,
     c_blocks = (di_size di + of_nat BSIZE - 1) div of_nat BSIZE\<rparr>"


lemma boot_calm: "length bs = LOG_SIZE \<Longrightarrow> calm (boot_state inp tr bs)"
  using boot_idle[of bs inp tr] by (simp add: calm_def coherent_def cached_exist_def)

lemma boot_files: "files (boot_state inp tr bs) = replicate NFILE zero_ofile"
  by (simp add: boot_state_def at_boot_def with_log_def with_super_def main_state_def)

lemma boot_free_file: "free_file (boot_state inp tr bs) = Some 0"
  by (simp add: free_file_def boot_files zero_ofile_def upt_conv_Cons)


end
