(* ===== verification/Creation.thy ===== *)
theory Creation
  imports Lookups
begin

text \<open>
  Creating files: \<open>create\<close> of \<open>src/op_open.cxx\<close> for a name that is new and for one that exists, and the
  system calls \<open>op_create\<close> and \<open>op_mkdir\<close> on top of it. A creation takes the lowest free inode, initialises
  it and binds the name in the parent directory, in one transaction.
\<close>

section \<open>Files beside a change of the inode table\<close>

text \<open>
  A file keeps its contents when the blocks it may live in and the bitmap stay the same.
\<close>

lemma file_same_data:
  assumes ok: "file_ok k s" and inv: "fs_inv s'" and env: "same_env s s'" and n: "inodes s' k = inodes s k"
    and v: "\<And>b. data_block s (unat b) \<Longrightarrow> view s' (log_dev s, b) = view s (log_dev s, b)"
    and u: "\<And>x. x < unat (sb_size s) \<Longrightarrow> used s' x = used s x"
  shows "file_ok k s'" "slots s' k = slots s k" "fcontent s' k = fcontent s k" "the_dinode s' k = the_dinode s k"
proof -
  note f = file_ok_basic[OF ok]
  show td: "the_dinode s' k = the_dinode s k" by (simp add: the_dinode_def n)
  have vs: "view s' (fst k, slots s k i) = view s (fst k, slots s k i)" if "i < NSLOTS" "slots s k i \<noteq> 0" for i
    using v[OF file_ok_slot(1)[OF ok that]] f(2) by simp
  have "view s' (fst k, di_addrs (the_dinode s k) ! 12) = view s (fst k, di_addrs (the_dinode s k) ! 12)"
    if "di_addrs (the_dinode s k) ! 12 \<noteq> 0"
    using vs[of 12] that by (simp add: slots_def Let_def)
  then show sl: "slots s' k = slots s k" by (intro ext) (simp add: slots_def Let_def td)
  show "fcontent s' k = fcontent s k"
    using vs slot_of_less(1) by (intro ext) (simp add: fcontent_def Let_def sl)
  have "used s' (unat (slots s k i))" if "i < NSLOTS" "slots s k i \<noteq> 0" for i
    using u file_ok_slot(1,2)[OF ok that] by (simp add: data_block_def)
  moreover have "data_block s' = data_block s" "log_dev s' = log_dev s"
    using env by (simp_all add: same_env_def fun_eq_iff data_block_def data_start_def)
  ultimately show "file_ok k s'" using ok inv unfolding file_ok_def sl n by simp
qed

lemma dir_same_data:
  assumes ok: "dir_ok k s" and inv: "fs_inv s'" and env: "same_env s s'" and n: "inodes s' k = inodes s k"
    and v: "\<And>b. data_block s (unat b) \<Longrightarrow> view s' (log_dev s, b) = view s (log_dev s, b)"
    and u: "\<And>x. x < unat (sb_size s) \<Longrightarrow> used s' x = used s x"
  shows "dir_ok k s'" "dir_lookup s' k = dir_lookup s k" "free_slot s' k = free_slot s k"
    "unique_names s' k = unique_names s k"
proof -
  have fk: "file_ok k s" using ok by (simp add: dir_ok_def)
  note f = file_same_data[OF fk inv env n v u]
  show "dir_ok k s'" using ok f by (simp add: dir_ok_def dense_def fsize_def)
  show "dir_lookup s' k = dir_lookup s k"
    by (rule ext) (simp add: dir_lookup_def dir_entry_def dir_len_def fsize_def f)
  have "dir_entry s' k = dir_entry s k" by (rule ext) (simp add: dir_entry_def f)
  moreover have "dir_len s' k = dir_len s k" by (simp add: dir_len_def fsize_def f)
  ultimately show "free_slot s' k = free_slot s k" "unique_names s' k = unique_names s k"
    using unique_names_cong[of s' k s k] by (simp_all only: free_slot_def)
qed

section \<open>A new inode\<close>

text \<open>
  The first half of \<open>create\<close>: allocate, lock, initialise and write the inode. \<open>m\<close> is the object in the
  cache, locked and with one reference.
\<close>

definition fresh_dinode :: "FileType \<Rightarrow> u16 \<Rightarrow> u16 \<Rightarrow> DiskINode" where
  "fresh_dinode type major minor =
     zero_dinode\<lparr>di_type := type, di_major := major, di_minor := minor, di_nlink := 1\<rparr>"

definition with_fresh :: "u32 \<Rightarrow> FileType \<Rightarrow> u16 \<Rightarrow> u16 \<Rightarrow> 'a inode_cache_scheme \<Rightarrow> 'a inode_cache_scheme" where
  "with_fresh i type major minor s = iupdate (log_dev s, i)
     (put_inode (log_dev s, i) (loaded (fresh_dinode type major minor) 1) (ialloc_result i type s))"

lemma fresh_dinode_wf [simp]: "dinode_wf (fresh_dinode type major minor)"
  by (simp add: fresh_dinode_def dinode_wf_def zero_dinode_def)

lemma fresh_run:
  assumes i: "fs_inv s" and r: "room s 2" and fr: "free_inums s \<noteq> {}" "i = of_nat (Min (free_inums s))"
    and n: "inodes s (log_dev s, i) = None" and ty: "type \<noteq> 0"
  shows "bnd (inode_alloc (log_dev s) type) (\<lambda>a. case a of None \<Rightarrow> g
      | Some ip \<Rightarrow> bnd (INode_lock ip) (\<lambda>_.
          bnd (set_dinode ip (\<lambda>di. di\<lparr>di_major := major, di_minor := minor, di_nlink := 1\<rparr>)) (\<lambda>_.
          bnd (INode_update ip) (\<lambda>_. c ip)))) s = c (log_dev s, i) (with_fresh i type major minor s)"
    and "inum_ok s i" "i \<noteq> 0" "di_type (disk_dinode s i) = 0"
proof -
  let ?k = "(log_dev s, i)" and ?a = "ialloc_result i type s"
  have fin: "finite (free_inums s)" by (simp add: free_inums_def)
  define x where "x = Min (free_inums s)"
  have x: "x \<in> free_inums s" "i = of_nat x" using Min_in[OF fin fr(1)] fr(2) by (simp_all add: x_def)
  then have io: "inum_ok s i" "unat i = x" using inum_ok_of_nat[of x s] by (simp_all add: free_inums_def)
  show "inum_ok s i" by fact
  show "i \<noteq> 0" using io(2) x(1) by (auto simp: free_inums_def)
  show "di_type (disk_dinode s i) = 0" using x by (simp add: free_inums_def)
  have g: "log_geom s" using fs_inv_geom(1)[OF i] .
  have r1: "room s 1" using room_le[OF r] by simp
  have lr: "log_room s" using room_log_room[of s 0] r1 g by simp
  have al: "inode_alloc (log_dev s) type s = Inr (Some ?k, put_inode ?k new_inode ?a)"
    using inode_alloc_run[OF i r1, of type] fr n by (simp add: bnd_def inode_get_run ialloc_result_def)
  have ia: "fs_inv ?a" by (rule fs_inv_ialloc[OF i lr io(1)])
  have ra: "room ?a 1" unfolding ialloc_result_def using room_logd[of s 1] r g by (simp add: numeral_2_eq_2)
  have lra: "log_room ?a" using room_log_room[of ?a 0] ra fs_inv_geom(1)[OF ia] by simp
  have ld: "log_dev ?a = log_dev s" "inum_ok ?a i" using io(1) by (simp_all add: ialloc_result_def)
  have da: "disk_dinode ?a i = zero_dinode\<lparr>di_type := type\<rparr>" using disk_dinode_ialloc[OF i io(1) io(1)] by simp
  let ?n1 = "loaded (zero_dinode\<lparr>di_type := type\<rparr>) 1"
  have lk: "INode_lock ?k (put_inode ?k new_inode ?a) = Inr ((), put_inode ?k ?n1 ?a)"
    using INode_lock_load[of "put_inode ?k new_inode ?a" ?k new_inode] ia ld da ty
    by (simp add: new_inode_def loaded_def)
  let ?n2 = "loaded (fresh_dinode type major minor) 1"
  have sd: "set_dinode ?k (\<lambda>di. di\<lparr>di_major := major, di_minor := minor, di_nlink := 1\<rparr>) (put_inode ?k ?n1 ?a) =
      Inr ((), put_inode ?k ?n2 ?a)"
    by (simp add: loaded_def fresh_dinode_def)
  have up: "INode_update ?k (put_inode ?k ?n2 ?a) = Inr ((), with_fresh i type major minor s)"
    using INode_update_run[of "put_inode ?k ?n2 ?a" ?k ?n2] ia lra ld by (simp add: with_fresh_def)
  show "bnd (inode_alloc (log_dev s) type) (\<lambda>a. case a of None \<Rightarrow> g
      | Some ip \<Rightarrow> bnd (INode_lock ip) (\<lambda>_.
          bnd (set_dinode ip (\<lambda>di. di\<lparr>di_major := major, di_minor := minor, di_nlink := 1\<rparr>)) (\<lambda>_.
          bnd (INode_update ip) (\<lambda>_. c ip)))) s = c ?k (with_fresh i type major minor s)" for g c
    using al lk sd up by (simp add: bnd_def)
qed

lemma fresh_facts:
  assumes i: "fs_inv s" and r: "room s (Suc (Suc n))" and io: "inum_ok s i" and t: "t = with_fresh i type major minor s"
  shows "fs_inv t" "room t n" "same_env s t"
    "inodes t = (inodes s)((log_dev s, i) \<mapsto> loaded (fresh_dinode type major minor) 1)"
    "\<And>j. inum_ok s j \<Longrightarrow> disk_dinode t j = (if j = i then fresh_dinode type major minor else disk_dinode s j)"
    "\<And>b. data_block s (unat b) \<Longrightarrow> view t (log_dev s, b) = view s (log_dev s, b)"
    "\<And>y. y < unat (sb_size s) \<Longrightarrow> used t y = used s y" "free_blocks t = free_blocks s"
proof -
  let ?k = "(log_dev s, i)" and ?a = "ialloc_result i type s" and ?n = "loaded (fresh_dinode type major minor) 1"
  let ?b = "put_inode ?k ?n ?a"
  have g: "log_geom s" "fs_geom s" using fs_inv_geom(1)[OF i] i by (simp_all add: fs_inv_def)
  have lr: "log_room s" using room_log_room[OF r g(1)] .
  have ia: "fs_inv ?a" by (rule fs_inv_ialloc[OF i lr io])
  have ra: "room ?a (Suc n)" unfolding ialloc_result_def using room_logd[OF r g(1)] .
  have ga: "log_geom ?a" "fs_geom ?a" using fs_inv_geom(1)[OF ia] ia by (simp_all add: fs_inv_def)
  have lra: "log_room ?a" using room_log_room[OF ra ga(1)] .
  have ld: "log_dev ?a = log_dev s" "inum_ok ?a = inum_ok s" "data_block ?a = data_block s" "sb_size ?a = sb_size s"
    by (simp_all add: ialloc_result_def fun_eq_iff inum_ok_def data_block_def)
  have ib: "inum_ok ?b (snd ?k)" "fs_inv ?b" using io ia ld by simp_all
  show "fs_inv t" unfolding t with_fresh_def using fs_inv_iupdate[of ?b ?k] ib lra by simp
  show "room t n" unfolding t with_fresh_def iupdate_def using room_logd[of ?b n] ra ga(1) by simp
  show "same_env s t" unfolding t with_fresh_def using iupdate_fields(9)[of ?b ?k]
    by (simp add: same_env_def ialloc_result_def)
  show "inodes t = (inodes s)((log_dev s, i) \<mapsto> ?n)"
    unfolding t with_fresh_def by (simp add: ialloc_result_def put_inode_def)
  have td: "the_dinode ?b ?k = fresh_dinode type major minor" by (simp add: the_dinode_def loaded_def)
  show "disk_dinode t j = (if j = i then fresh_dinode type major minor else disk_dinode s j)" if j: "inum_ok s j" for j
  proof -
    have "disk_dinode (iupdate ?k ?b) j = (if j = i then the_dinode ?b ?k else disk_dinode ?b j)"
      using disk_dinode_iupdate[OF ib(2,1), of j] j ld td by simp
    moreover have "disk_dinode ?b j = disk_dinode ?a j" by simp
    ultimately show ?thesis using disk_dinode_ialloc[OF i io j, of type] td unfolding t with_fresh_def by simp
  qed
  show "view t (log_dev s, b) = view s (log_dev s, b)" if b: "data_block s (unat b)" for b
  proof -
    have "view t (log_dev s, b) = view ?a (log_dev s, b)"
      unfolding t with_fresh_def using view_iupdate_data[of ?b ?k b] ga(2) ib(1) b ld by simp
    then show ?thesis using data_not_inode_block[OF g(2) io b] by (simp add: ialloc_result_def view_logd)
  qed
  show us: "used t y = used s y" if y: "y < unat (sb_size s)" for y
  proof -
    have "used t y = used ?a y" unfolding t with_fresh_def using used_iupdate[of ?b ?k y] ib y ld by simp
    also have "\<dots> = used s y" unfolding ialloc_result_def using INODE_BLOCK_not_bitmap[OF g(2) io y]
      by (intro used_logd_other) simp
    finally show ?thesis .
  qed
  have "sb_size t = sb_size s" using \<open>same_env s t\<close> by (simp add: same_env_def)
  then show "free_blocks t = free_blocks s" using us by (auto simp: free_blocks_def)
qed

section \<open>The parent directory\<close>

lemma warm_dir_ok: "warm s u \<Longrightarrow> dir_ok (log_dev u, i) (disk_dir u i) = dir_ok (log_dev s, i) (disk_dir s i)"
proof (induction rule: warm.induct)
  case (load u k n)
  then show ?case using child_put_inode(2)[of u i k] by simp
qed simp

lemma walk_parent:
  "walkable s i es \<Longrightarrow> walk True s i es = Some d \<Longrightarrow> es \<noteq> [] \<and> node_ok s d \<and> is_dir s d \<and> legal_name (last es) \<and>
     dir_ok (log_dev s, d) (disk_dir s d) \<and> walk False s i es = child s d (last es) \<and>
     (\<forall>j. child s d (last es) = Some j \<longrightarrow> node_ok s j)"
proof (induction es arbitrary: i)
  case Nil
  then show ?case by simp
next
  case (Cons e es)
  have dir: "is_dir s i" using Cons.prems(2) by (auto split: if_splits)
  show ?case
  proof (cases "es = []")
    case True
    then have "d = i" using Cons.prems(2) dir by simp
    with True dir Cons.prems(1) show ?thesis by (simp split: option.split)
  next
    case False
    then obtain j where j: "child s i e = Some j" "walk True s j es = Some d"
      using Cons.prems(2) dir by (auto split: option.splits)
    then have "walkable s j es" using Cons.prems(1) dir by simp
    from Cons.IH[OF this j(2)] show ?thesis using False j(1) dir by simp
  qed
qed

text \<open>
  \<open>create\<close> up to the lock of the parent: the parent is loaded, locked and holds one more reference.
\<close>

lemma parent_locked:
  assumes c: "coherent s" and i: "fs_inv s" and ld: "log_dev s = ROOTDEV" and p: "path \<noteq> []" "hd path = slash"
    and w: "walkable s ROOTINO (elements path)" "walk True s ROOTINO (elements path) = Some d"
  obtains u t r where "inode_name_parent path s = Inr ((Some (ROOTDEV, d), last (elements path) @ 0 # r), t)"
    "warm s u" "coherent u" "fs_inv u" "log_dev u = ROOTDEV"
    "INode_lock (ROOTDEV, d) t = Inr ((), put_inode (ROOTDEV, d) (loaded (disk_dinode s d) (rc u (ROOTDEV, d) + 1)) u)"
proof -
  note wp = walk_parent[OF w]
  obtain r t u where n: "inode_name_parent path s = Inr ((Some (ROOTDEV, d), last (elements path) @ 0 # r), t)"
    "warm s u" "holds (ROOTDEV, d) u t"
    using inode_name_run[OF c i ld p w(1)] w(2) ld by (auto simp: resolved_def)
  note ws = warm_same[OF n(2)]
  have u: "coherent u" "fs_inv u" "log_dev u = ROOTDEV" using warm_coherent[OF n(2) c] ws(1,2) i ld by simp_all
  have "INode_lock (ROOTDEV, d) t = Inr ((), put_inode (ROOTDEV, d) (loaded (disk_dinode s d) (rc u (ROOTDEV, d) + 1)) u)"
    using INode_lock_holds[of u d t] n(3) u wp ws(3,8) by simp
  with n(1,2) u show ?thesis using that by blast
qed

lemma locked_dir_lookup:
  assumes k: "k = (log_dev s, d)" and ok: "dir_ok k (disk_dir s d)" and nm: "legal_name e"
  shows "dir_ok k (put_inode k (loaded (disk_dinode s d) r) s)"
    "child s d e = None \<Longrightarrow> dirlookup k (e @ 0 # x) (put_inode k (loaded (disk_dinode s d) r) s) =
      Inr (None, put_inode k (loaded (disk_dinode s d) r) s)"
    "child s d e = Some j \<Longrightarrow> \<exists>p. dirlookup k (e @ 0 # x) (put_inode k (loaded (disk_dinode s d) r) s) =
      bnd (inode_get (log_dev s) j) (\<lambda>ip. ret (Some (ip, 16 * p))) (put_inode k (loaded (disk_dinode s d) r) s)"
proof -
  let ?L = "put_inode k (loaded (disk_dinode s d) r) s"
  show dk: "dir_ok k ?L" using ok locked_dir(1)[OF k, of r] by simp
  note lk = locked_dir(2)[OF k, of r e]
  show "dirlookup k (e @ 0 # x) ?L = Inr (None, ?L)" if "child s d e = None"
    using lk that dirlookup_run[OF dk nm, of x] by simp
  show "\<exists>p. dirlookup k (e @ 0 # x) ?L = bnd (inode_get (log_dev s) j) (\<lambda>ip. ret (Some (ip, 16 * p))) ?L"
    if c: "child s d e = Some j"
  proof -
    obtain j' p where "dir_lookup ?L k e = Some (j', p)" "j = ucast j'" using lk c by (auto simp: case_prod_beta')
    then show ?thesis using dirlookup_run[OF dk nm, of x] k by (intro exI[of _ p]) simp
  qed
qed

section \<open>A name that exists\<close>

text \<open>
  \<open>create\<close> of a name that exists: a file is returned, locked, when a file was asked for; anything else fails
  and leaves nothing behind.
\<close>

lemma create_found:
  fixes s :: "'a inode_cache_scheme"
  assumes c: "coherent s" and i: "fs_inv s" and ld: "log_dev s = ROOTDEV" and p: "path \<noteq> []" "hd path = slash"
    and w: "walkable s ROOTINO (elements path)" "walk True s ROOTINO (elements path) = Some d"
    and ch: "child s d (last (elements path)) = Some j"
    and ty: "type = T_DIR \<or> type = T_FILE"
  shows "\<exists>a t. warm s a \<and> warm s t \<and> create path type major minor s =
    Inr (if type = T_FILE \<and> di_type (disk_dinode s j) \<in> {T_FILE, T_DEVICE}
      then (Some (ROOTDEV, j), put_inode (ROOTDEV, j) (loaded (disk_dinode s j) (rc a (ROOTDEV, j) + 1)) a)
      else (None, t))"
proof -
  let ?k = "(ROOTDEV, d)" and ?q = "(ROOTDEV, j)" and ?e = "last (elements path)"
  note wp = walk_parent[OF w]
  obtain u t r where n: "inode_name_parent path s = Inr ((Some ?k, ?e @ 0 # r), t)" "warm s u" "coherent u" "fs_inv u"
    "log_dev u = ROOTDEV" "INode_lock ?k t = Inr ((), put_inode ?k (loaded (disk_dinode s d) (rc u ?k + 1)) u)"
    by (rule parent_locked[OF c i ld p w])
  note ws = warm_same[OF n(2)]
  have du: "disk_dinode s d = disk_dinode u d" using ws(3) by simp
  let ?L = "put_inode ?k (loaded (disk_dinode u d) (rc u ?k + 1)) u"
  have dk: "dir_ok ?k (disk_dir u d)" using warm_dir_ok[OF n(2), of d] wp ld n(5) by simp
  have k: "?k = (log_dev u, d)" using n(5) by simp
  have nu: "node_ok u d" "node_ok u j" using wp ch ws(8) by simp_all
  have lg: "legal_name ?e \<and> child u d ?e = Some j" using wp ch ws(9) by simp
  obtain x where lk: "dirlookup ?k (?e @ 0 # r) ?L = bnd (inode_get (log_dev u) j) (\<lambda>ip. ret (Some (ip, 16 * x))) ?L"
    using locked_dir_lookup(3)[OF k dk conjunct1[OF lg] conjunct2[OF lg], of r "rc u ?k + 1"] by (elim exE)
  obtain v a a' where v: "inode_get (log_dev u) j ?L = Inr ((log_dev u, j), v)" "inode_unlock_put (log_dev u, d) v = Inr ((), a')"
    "warm u a" "holds (log_dev u, j) a a'"
    using enter_child[OF n(3) nu(1) refl, of j] n(5) by auto
  note wa = warm_same[OF v(3)]
  have ca: "coherent a" "fs_inv a" "log_dev a = ROOTDEV" "node_ok a j" "disk_dinode a j = disk_dinode s j"
    using warm_coherent[OF v(3) n(3)] wa(1,2,3,8) n(4,5) nu(2) ws(3) by simp_all
  let ?L2 = "put_inode ?q (loaded (disk_dinode a j) (rc a ?q + 1)) a"
  have l2: "INode_lock ?q a' = Inr ((), ?L2)" using INode_lock_holds[of a j a'] v(4) ca(1-4) n(5) by simp
  have di: "dinode ?q ?L2 = Inr (disk_dinode s j, ?L2)" using ca(5) by (simp add: dinode_run loaded_def)
  obtain b where b: "inode_unlock_put ?q ?L2 = Inr ((), b)" "warm a b"
    using leave_dir[OF ca(1,4) refl] ca(3) by auto
  have "create path type major minor s =
    Inr (if type = T_FILE \<and> di_type (disk_dinode s j) \<in> {T_FILE, T_DEVICE} then (Some ?q, ?L2) else (None, b))"
    using n(1,6) du lk v(1,2) l2 di b(1) ty n(5) by (auto simp: create_def bnd_def)
  moreover have "warm s a" using warm_trans[OF v(3) n(2)] .
  moreover have "warm s b" using warm_trans[OF b(2) warm_trans[OF v(3) n(2)]] .
  ultimately show ?thesis using ca(5) by metis
qed

section \<open>A name that is new\<close>

lemma same_disk_used: "same_disk s t \<Longrightarrow> fs_inv s \<Longrightarrow> x < unat (sb_size s) \<Longrightarrow> used t x = used s x"
proof -
  assume sd: "same_disk s t" and i: "fs_inv s" and x: "x < unat (sb_size s)"
  have "fs_geom s" using i by (simp add: fs_inv_def)
  from BIT_BLOCK_home(3)[OF this x] show ?thesis using sd by (simp add: used_def same_disk_def BIT_BLOCK_def)
qed

lemma same_disk_owned:
  assumes sd: "same_disk s s'" and i: "fs_inv s" and j: "jinv {} s'" and io: "inum_ok s i"
    and ok: "dir_ok (log_dev s, i) (disk_dir s i)"
  shows "owned (disk_dir s' i) (log_dev s, i) = owned (disk_dir s i) (log_dev s, i)"
proof -
  let ?k = "(log_dev s, i)"
  let ?t = "disk_dir s' i"
  let ?s = "(disk_dir s i)\<lparr>inodes := inodes ?t\<rparr>"
  have ld: "log_dev s' = log_dev s" using sd by (simp add: same_disk_def)
  have dd: "disk_dinode s' i = disk_dinode s i" by (rule same_disk_inv(4)[OF sd i j io])
  have td: "the_dinode ?s ?k = the_dinode (disk_dir s i) ?k" "inodes ?s ?k \<noteq> None" "inodes (disk_dir s i) ?k \<noteq> None"
    using ld dd by (simp_all add: disk_dir_def the_dinode_def)
  have v: "view ?s = view (disk_dir s i)" by simp
  have ok': "dir_ok ?k ?s" using dir_ok_cong[OF td(1) v] td(2,3) ok by simp
  have sf: "same_files ?s ?t"
    by (rule same_disk_as_files) (use sd in \<open>simp add: disk_dir_def\<close>)
  have jt: "jinv {} ?t" using j by (simp add: disk_dir_def)
  have fk: "file_ok ?k ?s" using ok' by (simp add: dir_ok_def)
  have "owned ?t ?k = owned ?s ?k" by (rule same_files_file(4)[OF sf fk jt])
  also have "\<dots> = owned (disk_dir s i) ?k" using dir_lookup_cong(2)[OF td(1) v] by (simp add: owned_def)
  finally show ?thesis .
qed

text \<open>
  A change of one binding: the name \<open>e\<close> of directory \<open>d\<close> now leads to \<open>c\<close>; no name comes to be there twice, the
  directory takes its new blocks from the free ones, of the inodes only \<open>d\<close> and \<open>i\<close> may have changed, of the
  blocks in use only those of \<open>d\<close> and \<open>B\<close>.
\<close>

definition rebound :: "u32 \<Rightarrow> byte list \<Rightarrow> u32 option \<Rightarrow> u32 \<Rightarrow> u32 set \<Rightarrow> 'a inode_cache_scheme \<Rightarrow> 'a inode_cache_scheme \<Rightarrow> bool" where
  "rebound d e c i B s t \<longleftrightarrow> child t d e = c \<and>
     (unique_names (disk_dir s d) (log_dev s, d) \<longrightarrow> unique_names (disk_dir t d) (log_dev s, d)) \<and>
     (\<forall>nm. legal_name nm \<and> nm \<noteq> e \<longrightarrow> child t d nm = child s d nm) \<and>
     dir_ok (log_dev s, d) (disk_dir t d) \<and>
     owned (disk_dir t d) (log_dev s, d) - owned (disk_dir s d) (log_dev s, d) \<subseteq> of_nat ` free_blocks s \<and>
     di_nlink (disk_dinode t d) = di_nlink (disk_dinode s d) \<and>
     (\<forall>j. inum_ok s j \<and> j \<noteq> i \<and> j \<noteq> d \<longrightarrow> disk_dinode t j = disk_dinode s j) \<and>
     (\<forall>b. data_block s (unat b) \<and> used s (unat b) \<and> b \<notin> owned (disk_dir s d) (log_dev s, d) \<and> b \<notin> B \<longrightarrow>
        used t (unat b) \<and> view t (log_dev s, b) = view s (log_dev s, b))"

text \<open>What a creation does to the disk: inode \<open>i\<close> is initialised and bound.\<close>

definition created :: "u32 \<Rightarrow> byte list \<Rightarrow> u32 \<Rightarrow> DiskINode \<Rightarrow> 'a inode_cache_scheme \<Rightarrow> 'a inode_cache_scheme \<Rightarrow> bool" where
  "created d e i di s t \<longleftrightarrow> disk_dinode t i = di \<and> free_blocks t \<subseteq> free_blocks s \<and> rebound d e (Some i) i {} s t"

lemma rebound_same_disk:
  assumes cr: "rebound d e c i B s t" and sd: "same_disk t u" and inv: "fs_inv t" "jinv {} u"
    and env: "log_dev t = log_dev s" "inum_ok t = inum_ok s" "data_block t = data_block s" "sb_size t = sb_size s"
    and io: "inum_ok s d"
  shows "rebound d e c i B s u"
proof -
  note d = same_disk_inv[OF sd inv]
  have dk: "dir_ok (log_dev t, d) (disk_dir t d)" using cr env(1) by (simp add: rebound_def)
  have iod: "inum_ok t d" using io env(2) by simp
  note sdir = same_disk_dir[OF sd inv iod dk] and so = same_disk_owned[OF sd inv iod dk]
  have dd: "disk_dinode u j = disk_dinode t j" if "inum_ok s j" for j using d(4) that env(2) by simp
  have g: "fs_geom t" using inv(1) by (simp add: fs_inv_def)
  have "used u (unat b)" "view u (log_dev s, b) = view t (log_dev s, b)" if b: "data_block s (unat b)" "used t (unat b)" for b
  proof -
    have hb: "home_block t b" using data_block_home(1)[OF g] b(1) env(3) by simp
    then show "view u (log_dev s, b) = view t (log_dev s, b)" using sd env(1) by (simp add: same_disk_def)
    have sz: "unat b < unat (sb_size t)" using b(1) env(4) by (simp add: data_block_def)
    then show "used u (unat b)" using same_disk_used[OF sd inv(1)] b(2) by simp
  qed
  then show ?thesis using cr d(2) dd io sdir so env(1) unfolding rebound_def by simp
qed

lemma created_same_disk:
  assumes cr: "created d e i di s t" and sd: "same_disk t u" and inv: "fs_inv t" "jinv {} u"
    and env: "log_dev t = log_dev s" "inum_ok t = inum_ok s" "data_block t = data_block s" "sb_size t = sb_size s"
    and io: "inum_ok s i" "inum_ok s d"
  shows "created d e i di s u"
  using rebound_same_disk[OF _ sd inv env io(2)] same_disk_inv(2)[OF sd inv] same_disk_inv(4)[OF sd inv, of i] cr env(2) io(1)
  by (simp add: created_def)

text \<open>The parent directory in the cache and on disk.\<close>

lemma disk_dir_locked:
  assumes k: "k = (log_dev s, d)" and n: "disk_dinode s d = the_dinode s k" and ok: "dir_ok k s"
  shows "dir_ok k (disk_dir s d)" "\<And>nm. child s d nm = map_option (\<lambda>(j, _). ucast j) (dir_lookup s k nm)"
    "owned (disk_dir s d) k = owned s k" "unique_names (disk_dir s d) k = unique_names s k"
proof -
  have td: "the_dinode (disk_dir s d) k = the_dinode s k" using k n by (simp add: disk_dir_def the_dinode_def loaded_def)
  have v: "view (disk_dir s d) = view s" by (simp add: disk_dir_def)
  have nn: "inodes s k \<noteq> None" "inodes (disk_dir s d) k \<noteq> None"
    using ok file_ok_basic(3)[of k s] k by (auto simp: dir_ok_def disk_dir_def)
  show "dir_ok k (disk_dir s d)" using dir_ok_cong[OF td v _ _ _ _ nn] ok by (simp add: disk_dir_def)
  show "child s d nm = map_option (\<lambda>(j, _). ucast j) (dir_lookup s k nm)" for nm
    unfolding child_def using dir_lookup_cong(1)[OF td v] k by simp
  show "owned (disk_dir s d) k = owned s k" using dir_lookup_cong(2)[OF td v] by (simp add: owned_def)
  show "unique_names (disk_dir s d) k = unique_names s k"
    by (rule unique_names_cong) (simp_all add: fun_eq_iff dir_entry_def dir_len_def fsize_def td dir_lookup_cong(3)[OF td v])
qed

lemma ucast_inum:
  assumes "unat (i :: u32) < 65536"
  shows "(ucast (ucast i :: u16) :: u32) = i" "i \<noteq> 0 \<Longrightarrow> (ucast i :: u16) \<noteq> 0"
proof -
  have "unat (ucast i :: u16) = unat i" using assms by (simp add: unsigned_ucast_eq unsigned_take_bit_eq take_bit_nat_eq_self)
  then have "unat (ucast (ucast i :: u16) :: u32) = unat i" using assms by (simp add: unsigned_ucast_eq unsigned_take_bit_eq take_bit_nat_eq_self)
  then show "(ucast (ucast i :: u16) :: u32) = i" by (rule unsigned_word_eqI)
  show "(ucast i :: u16) \<noteq> 0" if "i \<noteq> 0"
  proof
    assume "(ucast i :: u16) = 0"
    then have "unat i = 0" using \<open>unat (ucast i :: u16) = unat i\<close> by simp
    with that show False by (simp add: unat_eq_0)
  qed
qed

lemma same_env_derived:
  assumes "same_env s t"
  shows "log_dev t = log_dev s" "inum_ok t = inum_ok s" "data_block t = data_block s" "sb_size t = sb_size s"
  using assms by (simp_all add: same_env_def fun_eq_iff inum_ok_def data_block_def data_start_def)

text \<open>The second half: the locked parent \<open>w\<close>, with the new name in it, is written and released.\<close>

lemma link_into_parent:
  assumes lg: "legal_name e" and k: "k = (log_dev s, d)" and io: "inum_ok s i" "inum_ok s d" "i \<noteq> d" "unat i < 65536" "i \<noteq> 0"
    and inv: "fs_inv s" and nk: "inodes s k = Some (loaded (disk_dinode s d) r)" and dk: "dir_ok k s"
    and none: "dir_lookup s k e = None" and rm: "room s 9" and fb: "2 \<le> card (free_blocks s)"
    and cap: "16 * free_slot s k + 16 \<le> MAX_FILE * BSIZE" and v: "v = with_fresh i type major minor s"
  obtains y where "dirlink k (e @ 0 # x) i v = Inr (0, y)" "fs_inv y" "same_env s y"
    "inodes y = (inodes s)((log_dev s, i) \<mapsto> loaded (fresh_dinode type major minor) 1, k \<mapsto> loaded (disk_dinode y d) r)"
    "created d e i (fresh_dinode type major minor) s y"
proof -
  let ?q = "(log_dev s, i)"
  have r9: "room s (Suc (Suc 7))" using rm by simp
  note fv = fresh_facts[OF inv r9 io(1) v]
  have nv: "inodes v k = inodes s k" using fv(4) k io(3) by simp
  note dv = dir_same_data[OF dk fv(1,3) nv fv(6,7)]
  note ev = same_env_derived[OF fv(3)]
  have iv: "inum_ok v (snd k)" using io(2) k ev by simp
  obtain y where y: "dirlink k (e @ 0 # x) i v = Inr (0, y)" "dir_ok k y" "file_frame k v y"
    "dir_lookup y k e = Some (ucast i, free_slot v k)"
    "\<forall>nm. legal_name nm \<and> nm \<noteq> e \<longrightarrow> dir_lookup y k nm = dir_lookup v k nm" "disk_dinode y (snd k) = the_dinode y k"
    "di_nlink (the_dinode y k) = di_nlink (the_dinode v k)" "free_blocks y \<subseteq> free_blocks v"
    "inodes y k = Some ((the (inodes v k))\<lparr>i_dinode := the_dinode y k\<rparr>)" "unique_names v k \<longrightarrow> unique_names y k"
    using dirlink_effect[OF dv(1) iv fv(2) _ _ lg _ ucast_inum(2)[OF io(4,5)], of x] fb cap none dv(2,3) fv(8) by auto
  have iy: "fs_inv y" using y(2) by (simp add: dir_ok_def file_ok_def)
  have env: "same_env s y" using fv(3) y(3) by (simp add: file_frame_def same_env_def)
  note ey = same_env_derived[OF env]
  have ino: "inodes y = (inodes s)(?q \<mapsto> loaded (fresh_dinode type major minor) 1, k \<mapsto> loaded (disk_dinode y d) r)"
  proof (rule ext)
    have oth: "inodes y x = inodes v x" if "x \<noteq> k" for x using y(3) that unfolding file_frame_def by blast
    fix k' show "inodes y k' = ((inodes s)(?q \<mapsto> loaded (fresh_dinode type major minor) 1, k \<mapsto> loaded (disk_dinode y d) r)) k'"
      using oth[of k'] y(6,9) fv(4) nv nk k by (cases "k' = k") (simp_all add: loaded_def)
  qed
  have ky: "k = (log_dev y, d)" using k ey by simp
  have dy: "disk_dinode y d = the_dinode y k" using y(6) k by simp
  have ds: "disk_dinode s d = the_dinode s k" using nk by (simp add: the_dinode_def loaded_def)
  note ddy = disk_dir_locked[OF ky dy y(2)]
  note dds = disk_dir_locked[OF k ds dk]
  have cr: "created d e i (fresh_dinode type major minor) s y"
    unfolding created_def rebound_def
  proof (intro conjI allI impI)
    have j: "disk_dinode y j = disk_dinode v j" if "inum_ok s j" "j \<noteq> d" for j
      using y(3) that k ev by (simp add: file_frame_def)
    show "disk_dinode y i = fresh_dinode type major minor" using j[OF io(1,3)] fv(5)[OF io(1)] by simp
    show "child y d e = Some i" using ddy(2)[of e] y(4) ucast_inum(1)[OF io(4)] by simp
    show "child y d nm = child s d nm" if "legal_name nm \<and> nm \<noteq> e" for nm
      using ddy(2)[of nm] dds(2)[of nm] y(5) that dv(2) by simp
    show "unique_names (disk_dir y d) (log_dev s, d)" if "unique_names (disk_dir s d) (log_dev s, d)"
      using that y(10) dv(4) ddy(4) dds(4) k by simp
    show "dir_ok (log_dev s, d) (disk_dir y d)" using ddy(1) k by simp
    have own: "owned v k = owned (disk_dir s d) (log_dev s, d)"
      using file_same_data(2)[OF _ fv(1,3) nv fv(6,7)] dk dds(3) k by (simp add: owned_def dir_ok_def)
    then show "owned (disk_dir y d) (log_dev s, d) - owned (disk_dir s d) (log_dev s, d) \<subseteq> of_nat ` free_blocks s"
      using y(3) ddy(3) fv(8) k by (simp add: file_frame_def)
    show "di_nlink (disk_dinode y d) = di_nlink (disk_dinode s d)"
      using dy ds y(7) nv by (simp add: the_dinode_def)
    show "disk_dinode y j = disk_dinode s j" if "inum_ok s j \<and> j \<noteq> i \<and> j \<noteq> d" for j
      using j[of j] fv(5)[of j] that by simp
    show "free_blocks y \<subseteq> free_blocks s" using y(8) fv(8) by simp
    fix b assume b: "data_block s (unat b) \<and> used s (unat b) \<and> b \<notin> owned (disk_dir s d) (log_dev s, d) \<and> b \<notin> {}"
    have ub: "used v (unat b)" using fv(7)[of "unat b"] b by (simp add: data_block_def)
    then have yb: "used y (unat b) \<and> view y (fst k, b) = view v (fst k, b)" using y(3) b own ev k by (simp add: file_frame_def)
    then show "used y (unat b)" by simp
    show "view y (log_dev s, b) = view s (log_dev s, b)" using yb fv(6) b k by simp
  qed
  show thesis by (rule that[OF y(1) iy env ino cr])
qed

section \<open>The whole creation\<close>

lemma rebound_from:
  assumes cr: "rebound d e c i B L y" and sd: "same_disk s L" and inv: "fs_inv s" "jinv {} L"
    and io: "inum_ok s d" and ok: "dir_ok (log_dev s, d) (disk_dir s d)"
  shows "rebound d e c i B s y"
proof -
  note dk = same_disk_inv[OF sd inv]
  have ld: "log_dev L = log_dev s" "data_block L = data_block s" "sb_size L = sb_size s"
    using sd by (simp_all add: same_disk_def fun_eq_iff data_block_def data_start_def)
  note dir = same_disk_dir[OF sd inv io ok]
  note own = same_disk_owned[OF sd inv io ok]
  have us: "used L (unat b) = used s (unat b)" "view L (log_dev s, b) = view s (log_dev s, b)" if "data_block s (unat b)" for b
  proof -
    show "used L (unat b) = used s (unat b)" using same_disk_used[OF sd inv(1)] that by (simp add: data_block_def)
    have "home_block s b" using data_block_home(1)[of s b] inv(1) that by (simp add: fs_inv_def)
    then show "view L (log_dev s, b) = view s (log_dev s, b)" using sd by (simp add: same_disk_def)
  qed
  show ?thesis using cr dk dir own us io unfolding rebound_def ld by simp
qed

lemma created_from:
  assumes cr: "created d e i di L y" and sd: "same_disk s L" and inv: "fs_inv s" "jinv {} L"
    and io: "inum_ok s d" and ok: "dir_ok (log_dev s, d) (disk_dir s d)"
  shows "created d e i di s y"
  using rebound_from[OF _ sd inv io ok] same_disk_inv(2)[OF sd inv] cr by (simp add: created_def)

lemma same_disk_free_inums:
  assumes "same_disk s t" "fs_inv s" "jinv {} t"
  shows "free_inums t = free_inums s"
proof -
  note d = same_disk_inv(3,4)[OF assms]
  have n: "sb_ninodes t = sb_ninodes s" using assms(1) by (simp add: same_disk_def)
  have "disk_dinode t (of_nat x) = disk_dinode s (of_nat x)" if "1 \<le> x" "x < unat (sb_ninodes s)" for x
    using d(2) inum_ok_of_nat[of x s] that by simp
  then show ?thesis using n by (auto simp: free_inums_def)
qed

text \<open>
  The cache at the end of a change of directory \<open>d\<close> and inode \<open>i\<close>: the parent is as loaded, if it is
  cached, and every other cached inode is as before.
\<close>

lemma coherent_parent:
  assumes c: "coherent u" "cached_exist u" and ld: "log_dev u = ROOTDEV" "log_dev z = ROOTDEV" "inum_ok z = inum_ok u"
    and zi: "inodes z = (if inodes u (ROOTDEV, d) = None then inodes u
      else (inodes u)((ROOTDEV, d) \<mapsto> opened (disk_dinode z d) (rc u (ROOTDEV, d))))"
    and uq: "inodes u (ROOTDEV, i) = None"
    and same: "\<And>j. inum_ok u j \<Longrightarrow> j \<noteq> i \<Longrightarrow> j \<noteq> d \<Longrightarrow> disk_dinode z j = disk_dinode u j"
  shows "coherent z" "cached_exist z"
proof -
  let ?k = "(ROOTDEV, d)"
  have uk: "fst k' = ROOTDEV" "inum_ok u (snd k')" if "inodes u k' = Some nd" for k' nd
    using c(2) that ld(1) unfolding cached_exist_def by (metis, metis)
  have ou: "i_ref nd \<noteq> 0" "unat (i_ref nd) < 2 ^ 31" "\<not> i_locked nd" "i_valid nd \<longrightarrow> i_dinode nd = disk_dinode u (snd k')"
    if "inodes u k' = Some nd" for k' nd using c(1) that unfolding coherent_def by blast+
  have cz: "i_ref nd \<noteq> 0 \<and> unat (i_ref nd) < 2 ^ 31 \<and> \<not> i_locked nd \<and> (i_valid nd \<longrightarrow> i_dinode nd = disk_dinode z (snd k'))"
    "fst k' = ROOTDEV" "inum_ok u (snd k')" if nd: "inodes z k' = Some nd" for k' nd
  proof -
    have "\<exists>m'. inodes u k' = Some m'" using nd unfolding zi by (auto split: if_splits)
    then obtain m' where m': "inodes u k' = Some m'" by blast
    show "fst k' = ROOTDEV" "inum_ok u (snd k')" using uk[OF m'] .
    show "i_ref nd \<noteq> 0 \<and> unat (i_ref nd) < 2 ^ 31 \<and> \<not> i_locked nd \<and> (i_valid nd \<longrightarrow> i_dinode nd = disk_dinode z (snd k'))"
    proof (cases "k' = ?k")
      case True
      then have "nd = opened (disk_dinode z d) (rc u ?k)" using nd m' unfolding zi by simp
      moreover have "rc u ?k \<noteq> 0" using rc_none[OF c(1), of ?k] m' True by simp
      ultimately show ?thesis using rc_bound[OF c(1), of ?k] True by (simp add: opened_def)
    next
      case False
      then have "inodes u k' = Some nd" using nd unfolding zi by (auto split: if_splits)
      moreover have "snd k' \<noteq> i" "snd k' \<noteq> d" using False uk(1)[OF m'] uq m' by (cases k', auto)+
      then have "disk_dinode z (snd k') = disk_dinode u (snd k')" using same uk(2)[OF m'] by simp
      ultimately show ?thesis using ou by simp
    qed
  qed
  show "coherent z" unfolding coherent_def using cz(1) by blast
  show "cached_exist z" unfolding cached_exist_def ld(2,3) using cz(2,3) by blast
qed

lemma create_new:
  fixes s :: "'a inode_cache_scheme"
  assumes t: "in_txn s" "room s 9" and c: "coherent s" "cached_exist s" and ld: "log_dev s = ROOTDEV"
    and p: "path \<noteq> []" "hd path = slash"
    and w: "walkable s ROOTINO (elements path)" "walk True s ROOTINO (elements path) = Some d"
    and none: "child s d (last (elements path)) = None"
    and fr: "free_inums s \<noteq> {}" "i = of_nat (Min (free_inums s))" "inodes s (ROOTDEV, i) = None"
    and nn: "unat (sb_ninodes s) \<le> 65536" and fb: "2 \<le> card (free_blocks s)"
    and cap: "unat (di_size (disk_dinode s d)) + 16 \<le> MAX_FILE * BSIZE"
  shows "\<exists>z. create path T_FILE major minor s =
      Inr (Some (ROOTDEV, i), put_inode (ROOTDEV, i) (loaded (fresh_dinode T_FILE major minor) 1) z) \<and>
    in_txn z \<and> coherent z \<and> cached_exist z \<and> inodes z (ROOTDEV, i) = None \<and> log_dev z = ROOTDEV \<and> same_env s z \<and>
    created d (last (elements path)) i (fresh_dinode T_FILE major minor) s z \<and> inum_ok s i"
proof -
  let ?k = "(ROOTDEV, d)" and ?q = "(ROOTDEV, i)" and ?e = "last (elements path)" and ?f = "fresh_dinode T_FILE major minor"
  have inv: "fs_inv s" using t(1) by (simp add: in_txn_def)
  note wp = walk_parent[OF w]
  obtain u v x where n: "inode_name_parent path s = Inr ((Some ?k, ?e @ 0 # x), v)" "warm s u" "coherent u" "fs_inv u"
    "log_dev u = ROOTDEV" "INode_lock ?k v = Inr ((), put_inode ?k (loaded (disk_dinode s d) (rc u ?k + 1)) u)"
    by (rule parent_locked[OF c(1) inv ld p w])
  let ?r = "rc u ?k + 1"
  note ws = warm_same[OF n(2)]
  have du: "disk_dinode s d = disk_dinode u d" using ws(3) by simp
  let ?L = "put_inode ?k (loaded (disk_dinode u d) ?r) u"
  obtain m where m: "u = s\<lparr>inodes := m\<rparr>" "dom m = dom (inodes s)" using warm_inodes[OF n(2)] by blast
  have "?q \<notin> dom m" using m(2) fr(3) by (simp add: domIff)
  then have uq: "inodes u ?q = None" using m(1) by (simp add: domIff)
  have k: "?k = (log_dev u, d)" "?k = (log_dev ?L, d)" using n(5) by simp_all
  have dk: "dir_ok ?k (disk_dir u d)" using warm_dir_ok[OF n(2), of d] wp ld n(5) by simp
  have lg: "legal_name ?e" "child u d ?e = None" using wp none ws(9) by simp_all
  note lk = locked_dir_lookup(1)[OF k(1) dk lg(1), of ?r] locked_dir_lookup(2)[OF k(1) dk lg, of x ?r]
  have sd: "same_disk s ?L" using same_disk_warm[OF n(2)] by simp
  have iL: "fs_inv ?L" "jinv {} ?L" using n(4) by (simp_all add: fs_inv_def)
  note sL = same_disk_inv[OF sd inv iL(2)]
  have rL: "room ?L 9" "sb_ninodes ?L = sb_ninodes s" using t(2) m by (simp_all add: room_def)
  have fL: "free_inums ?L = free_inums s" by (rule same_disk_free_inums[OF sd inv iL(2)])
  have qL: "inodes ?L ?q = None" "?q = (log_dev ?L, i)"
  proof -
    show "?q = (log_dev ?L, i)" using n(5) by simp
    have "i \<noteq> d"
    proof
      assume "i = d"
      have "Min (free_inums s) \<in> free_inums s" using Min_in[OF _ fr(1)] by (simp add: free_inums_def)
      then have "di_type (disk_dinode s i) = 0" using fr(2) by (simp add: free_inums_def)
      then show False using wp \<open>i = d\<close> by (simp add: node_ok_def)
    qed
    then show "inodes ?L ?q = None" using uq by simp
  qed
  have r2: "room ?L 2" using room_le[OF rL(1)] by simp
  have fr': "free_inums ?L \<noteq> {}" "i = of_nat (Min (free_inums ?L))" "inodes ?L (log_dev ?L, i) = None"
    using fr fL qL by simp_all
  have ty: "(T_FILE :: FileType) \<noteq> 0" by simp
  note fi = fresh_run[OF iL(1) r2 fr' ty]
  have io: "inum_ok s i" "inum_ok ?L i" "inum_ok ?L d" "i \<noteq> d" "unat i < 65536" "i \<noteq> 0"
    using fi(2-) qL fL wp sL(3) nn rL(2) by (auto simp: inum_ok_def node_ok_def)
  have nk: "inodes ?L ?k = Some (loaded (disk_dinode ?L d) ?r)" by simp
  have fbL: "2 \<le> card (free_blocks ?L)" using fb sL(2) by simp
  have capL: "16 * free_slot ?L ?k + 16 \<le> MAX_FILE * BSIZE"
  proof -
    have "16 * dir_len ?L ?k \<le> unat (di_size (disk_dinode s d))"
      using du by (simp add: dir_len_def fsize_def the_dinode_def loaded_def)
    then show ?thesis using free_slot_cases(1)[of ?L ?k] cap by linarith
  qed
  have nl: "dir_lookup ?L ?k ?e = None" using locked_dir(2)[OF k(1), of ?r ?e] lg(2) by simp
  define V where "V = with_fresh i T_FILE major minor ?L"
  obtain y where y: "dirlink ?k (?e @ 0 # x) i V = Inr (0, y)" "fs_inv y" "same_env ?L y"
    "inodes y = (inodes ?L)((log_dev ?L, i) \<mapsto> loaded ?f 1, ?k \<mapsto> loaded (disk_dinode y d) ?r)"
    "created d ?e i ?f ?L y"
    by (rule link_into_parent[OF lg(1) k(2) io(2-6) iL(1) nk lk(1) nl rL(1) fbL capL V_def])
  have cr: "created d ?e i ?f s y"
    using created_from[OF y(5) sd inv iL(2)] wp by (simp add: node_ok_def)
  have ny: "di_nlink (disk_dinode y d) \<noteq> 0" using cr wp by (simp add: created_def rebound_def node_ok_def)
  have r: "?r \<noteq> 0" "?r = 1 \<longleftrightarrow> inodes u ?k = None" using rc_succ[OF n(3), of ?k] by simp_all
  let ?t = "if ?r = 1 then drop_inode ?k y else put_inode ?k (opened (disk_dinode y d) (rc u ?k)) y"
  have ul: "inode_unlock_put ?k y = Inr ((), ?t)"
    using inode_unlock_put_loaded[of y ?k "disk_dinode y d" ?r] y(4) r(1) ny by (simp add: opened_def)
  let ?c = "\<lambda>ip. bnd (if T_FILE = T_DIR then create_dots ip ?k else ret True) (\<lambda>dots.
                 if \<not> dots then create_clean_up ip ?k
                 else
                   bnd (dirlink ?k (?e @ 0 # x) (snd ip)) (\<lambda>r.
                   if r < 0 then create_clean_up ip ?k
                   else
                     bnd (when_do (T_FILE = T_DIR)
                       (bnd (set_dinode ?k (\<lambda>di. di\<lparr>di_nlink := di_nlink di + 1\<rparr>)) (\<lambda>_.
                        INode_update ?k))) (\<lambda>_.
                     bnd (inode_unlock_put ?k) (\<lambda>_.
                     ret (Some ip)))))"
  let ?L' = "put_inode ?k (loaded (disk_dinode s d) ?r) u"
  have ldL: "log_dev ?L = ROOTDEV" using n(5) by simp
  have b: "bnd (assert_that ''create type'' (T_FILE = T_FILE \<or> T_FILE = T_DIR)) F s = F () s"
    "bnd (inode_name_parent path) G s = G (Some ?k, ?e @ 0 # x) v"
    "bnd (INode_lock ?k) F v = F () ?L" "bnd (dirlookup ?k (?e @ 0 # x)) H ?L = H None ?L" for F G H
    using n(1,6) lk(2) du by (simp_all add: bnd_def)
  have "create path T_FILE major minor s =
     bnd (inode_alloc (log_dev ?L) T_FILE) (\<lambda>a. case a of None \<Rightarrow> bnd (inode_unlock_put ?k) (\<lambda>_. ret None)
      | Some ip \<Rightarrow> bnd (INode_lock ip) (\<lambda>_.
          bnd (set_dinode ip (\<lambda>di. di\<lparr>di_major := major, di_minor := minor, di_nlink := 1\<rparr>)) (\<lambda>_.
          bnd (INode_update ip) (\<lambda>_. ?c ip)))) ?L"
    unfolding create_def b prod.case option.case b fst_conv ldL by (rule refl)
  also have "\<dots> = Inr (Some ?q, ?t)"
    unfolding fi(1) using y(1) ul n(5) by (simp add: bnd_def V_def)
  finally have run: "create path T_FILE major minor s = Inr (Some ?q, ?t)" .
  let ?z = "drop_inode ?q ?t"
  have yq: "inodes ?t ?q = Some (loaded ?f 1)" using y(4) qL(2) io(4) by (simp add: drop_inode_def)
  have tz: "?t = put_inode ?q (loaded ?f 1) ?z"
    unfolding put_drop_inode by (rule put_inode_same[OF yq, symmetric])
  have zi: "inodes ?z = (if inodes u ?k = None then inodes u else (inodes u)(?k \<mapsto> opened (disk_dinode y d) (rc u ?k)))"
  proof (rule ext)
    fix k'
    show "inodes ?z k' = (if inodes u ?k = None then inodes u else (inodes u)(?k \<mapsto> opened (disk_dinode y d) (rc u ?k))) k'"
      using y(4) r(2) uq io(4) n(5) by (auto simp: drop_inode_def put_inode_def)
  qed
  have env: "same_env s y" using y(3) m(1) by (simp add: same_env_def)
  note ed = same_env_derived[OF env]
  have ty': "in_txn ?z" using in_txn_frame[OF t(1) env y(2)] by simp
  have fz: "fs_inv ?z" "jinv {} ?z" using ty' by (simp_all add: in_txn_def fs_inv_def)
  have sz: "same_disk y ?z" by simp
  have iy: "inum_ok y = inum_ok s" "log_dev ?z = ROOTDEV" using ed ld by (simp_all add: drop_inode_def)
  have dz: "disk_dinode ?z = disk_dinode y" by (rule ext) (simp add: disk_dinode_def)
  have crz: "created d ?e i ?f s ?z"
    by (rule created_same_disk[OF cr sz y(2) fz(2) ed io(1)]) (use wp in \<open>simp add: node_ok_def\<close>)
  have cu: "cached_exist u" by (rule warm_cached_exist[OF n(2) c(2)])
  have iu: "inum_ok u = inum_ok s" using sL(3) by (simp add: fun_eq_iff inum_ok_def)
  have iz: "inum_ok ?z = inum_ok s" using same_disk_inv(3)[OF sz y(2) fz(2)] iy(1) by simp
  have "inodes ?z = (if inodes u ?k = None then inodes u else (inodes u)(?k \<mapsto> opened (disk_dinode ?z d) (rc u ?k)))"
    unfolding dz by (rule zi)
  moreover have "disk_dinode ?z j = disk_dinode u j" if "inum_ok u j" "j \<noteq> i" "j \<noteq> d" for j
    unfolding dz using cr that iu ws(3) by (simp add: created_def rebound_def)
  ultimately have cz: "coherent ?z" "cached_exist ?z"
    using coherent_parent[OF n(3) cu n(5) iy(2) _ _ uq, of d] iz iu by simp_all
  show ?thesis
  proof (rule exI[of _ ?z], intro conjI)
    show "create path T_FILE major minor s = Inr (Some ?q, put_inode ?q (loaded ?f 1) ?z)"
      by (rule trans[OF run]) (rule arg_cong[OF tz, of "\<lambda>x. Inr (Some ?q, x)"])
    show "coherent ?z" "cached_exist ?z" by (rule cz)+
    show "inodes ?z ?q = None" by (simp add: drop_inode_def)
    show "same_env s ?z" using env by (simp add: same_env_def drop_inode_def)
  qed (rule ty' crz iy(2) io(1))+
qed

lemma upper_create [keeps_intros]: "keeps upper (create path type major minor)"
  unfolding create_def create_dots_def create_clean_up_def by (intro keeps_intros)

end
