(* ===== verification/Create_Calls.thy ===== *)
theory Create_Calls
  imports Creation
begin

text \<open>
  The system calls \<open>op_create\<close> and \<open>op_mkdir\<close> on top of \<open>create\<close>: a name that is new, a name that exists, and
  the error that \<open>op_mkdir\<close> does not handle.
\<close>

section \<open>After the creation\<close>

lemma cached_exist_put_inode:
  assumes "cached_exist s" "inum_ok s i"
  shows "cached_exist (put_inode (log_dev s, i) n s)"
proof -
  have "inum_ok (put_inode (log_dev s, i) n s) = inum_ok s" by (simp add: fun_eq_iff inum_ok_def)
  then show ?thesis using assms by (simp add: cached_exist_def)
qed

text \<open>The object \<open>op_create\<close> fills in; unlike \<open>do_open\<close> it does not look at the type of the inode.\<close>

definition created_file :: "INodeKey \<Rightarrow> u32 \<Rightarrow> OFile \<Rightarrow> OFile" where
  "created_file k omode fl = open_file k omode (fl\<lparr>f_ref := 1, f_type := FD_INODE, f_off := 0\<rparr>)"

text \<open>\<open>op_create\<close> from the return of \<open>create\<close> on.\<close>

lemma op_create_tail:
  fixes z :: "'a fs_state_scheme"
  assumes cr: "create path T_FILE 0 0 (begun s) = Inr (Some (ROOTDEV, i), put_inode (ROOTDEV, i) (loaded di r) z)"
    and b: "begin_op s = Inr ((), begun s)"
    and z: "in_txn z" "coherent z" "cached_exist z" "log_dev z = ROOTDEV" "inum_ok z i" "disk_dinode z i = di"
    and r: "r = rc z (ROOTDEV, i) + 1" "unat (rc z (ROOTDEV, i)) + 1 < 2 ^ 31"
    and om: "\<not> flag omode O_TRUNC" and sl: "free_file s = Some f"
  shows "\<exists>t. op_create path omode s = Inr ((0, Some f), t) \<and> calm t \<and> same_disk z t \<and>
    files t = (files s)[f := created_file (ROOTDEV, i) omode (files s ! f)] \<and>
    inodes t = (inodes z)((ROOTDEV, i) \<mapsto> opened di r)"
proof -
  let ?q = "(ROOTDEV, i)"
  let ?L = "put_inode ?q (loaded di r) z"
  have r': "r \<noteq> 0" "unat r < 2 ^ 31"
    using rc_succ[OF z(2), of ?q] r by (simp_all add: unat_word_ariths)
  have fl: "files ?L = files s" using upper_files[OF keepsD[OF upper_create cr]] by (simp add: begun_def)
  let ?F = "(files s)[f := created_file ?q omode (files s ! f)]"
  let ?X = "put_inode ?q (opened di r) (z\<lparr>files := ?F\<rparr>)"
  note fi = free_file_less[OF sl]
  let ?s1 = "\<lambda>fl. ?L\<lparr>files := (files s)[f := fl]\<rparr>"
  have al: "ofile_alloc ?L = Inr (Some f, ?s1 ((files s ! f)\<lparr>f_ref := 1\<rparr>))"
    using sl fi fl by (simp add: ofile_alloc_def free_file_def mod_file_def deref_file_def bnd_def)
  have md: "mod_file f g (?s1 x) = Inr ((), ?s1 (g x))" for g x
    using fi by (simp add: mod_file_def deref_file_def bnd_def)
  have dn: "dinode ?q (?s1 x) = Inr (di, ?s1 x)" for x
    using dinode_run[of "?s1 x" ?q "loaded di r"] by (simp add: loaded_def)
  have ul: "INode_unlock ?q (?s1 x) = Inr ((), put_inode ?q (opened di r) (?s1 x))" for x
    using INode_unlock_run[of "?s1 x" ?q "loaded di r"] r'(1)
    by (simp add: loaded_def opened_def word_le_nat_alt unat_gt_0 Suc_le_eq)
  have eX: "put_inode ?q (opened di r) (?s1 x) = put_inode ?q (opened di r) (z\<lparr>files := (files s)[f := x]\<rparr>)" for x
    by (simp add: put_inode_files)
  have tX: "in_txn ?X" using z(1) by simp
  obtain s' im tr bl h where e: "end_op ?X = Inr ((), s')" "idle s'" "same_disk ?X s'" "s' = settle im tr bl h ?X"
    by (rule end_calm[OF tX])
  let ?v = "settle im tr bl h z"
  have s': "s' = put_inode ?q (opened di r) (?v\<lparr>files := ?F\<rparr>)"
    unfolding e(4) by (simp add: settle_put_inode settle_above)
  have iz: "fs_inv z" using z(1) by (simp add: in_txn_def)
  have v: "idle ?v" "same_disk z ?v" using e(2,3) unfolding s' by simp_all
  have jv: "jinv {} ?v" "inodes ?v = inodes z" using v(1) by (simp_all add: idle_def fs_inv_def settle_def)
  have cv: "coherent ?v" "cached_exist ?v" using same_disk_coherent[OF v(2) iz jv z(2,3)] .
  have vi: "inum_ok ?v i" "log_dev ?v = ROOTDEV" "disk_dinode ?v i = di"
    using same_disk_inv(3,4)[OF v(2) iz jv(1)] z(4-6) by (simp_all add: settle_def)
  have "calm (put_inode ?q (opened di r) ?v)" unfolding calm_def
    using v(1) cached_exist_put_inode[OF cv(2) vi(1)] vi(2,3) r'
      coherent_put_inode[OF cv(1), of "opened di r" ?q] by (simp add: opened_def)
  then have "calm s'" unfolding s' put_inode_files(1) by simp
  moreover have "files s' = ?F" unfolding s' by (simp add: put_inode_files)
  moreover have "inodes s' = (inodes z)(?q \<mapsto> opened di r)" unfolding s' by (simp add: put_inode_def settle_def)
  moreover have "same_disk z s'" using e(3) by simp
  moreover have "op_create path omode s = Inr ((0, Some f), s')"
    using b cr al md dn ul eX e(1) om by (simp add: op_create_def bnd_def created_file_def)
  ultimately show ?thesis by blast
qed

text \<open>A creation starts in the same tree.\<close>

lemma begun_tree:
  assumes c: "calm s" and ld: "log_dev s = ROOTDEV" and w: "walkable s ROOTINO es"
  shows "fs_inv s" "jinv {} (begun s)" "fs_inv (begun s)" "log_dev (begun s) = ROOTDEV" "room (begun s) 29"
    "walkable (begun s) ROOTINO es" "walk np (begun s) ROOTINO es = walk np s ROOTINO es"
    "node_ok s i \<Longrightarrow> dir_ok (log_dev s, i) (disk_dir s i) \<Longrightarrow> child (begun s) i = child s i"
    "inum_ok s i \<Longrightarrow> disk_dinode (begun s) i = disk_dinode s i"
    "inum_ok (begun s) = inum_ok s" "free_blocks (begun s) = free_blocks s" "free_inums (begun s) = free_inums s"
    "same_env (s\<lparr>outstanding := 1\<rparr>) (begun s)"
proof -
  note b = calm_begin[OF c]
  have id: "idle s" using c by (simp add: calm_def)
  show inv: "fs_inv s" "jinv {} (begun s)" "fs_inv (begun s)" using id b(2) by (simp_all add: idle_def in_txn_def fs_inv_def)
  show "log_dev (begun s) = ROOTDEV" using ld by (simp add: begun_def)
  show "room (begun s) 29" by (rule begin_op_idle(3)[OF id])
  show "walkable (begun s) ROOTINO es" "walk np (begun s) ROOTINO es = walk np s ROOTINO es"
    using same_disk_walk[OF b(3) inv(1,2) w, of np] by simp_all
  show "child (begun s) i = child s i" if "node_ok s i" "dir_ok (log_dev s, i) (disk_dir s i)"
    using same_disk_dir(2)[OF b(3) inv(1,2) _ that(2)] that(1) by (simp add: node_ok_def)
  note sd = same_disk_inv[OF b(3) inv(1,2)]
  show "inum_ok s i \<Longrightarrow> disk_dinode (begun s) i = disk_dinode s i" "inum_ok (begun s) = inum_ok s"
    "free_blocks (begun s) = free_blocks s" using sd by simp_all
  show "free_inums (begun s) = free_inums s" by (rule same_disk_free_inums[OF b(3) inv(1,2)])
  show "same_env (s\<lparr>outstanding := 1\<rparr>) (begun s)" by (simp add: same_env_def begun_def)
qed

section \<open>The root directory of a new file system\<close>

lemma boot_new_name:
  assumes l: "length bs = LOG_SIZE"
  shows "walkable (boot_state inp tr bs) ROOTINO [cstr ''x'']" "walk True (boot_state inp tr bs) ROOTINO [cstr ''x''] = Some 1"
    "child (boot_state inp tr bs) 1 (cstr ''x'') = None"
    "walkable (boot_state inp tr bs) ROOTINO [cstr ''..'']" "walk True (boot_state inp tr bs) ROOTINO [cstr ''..''] = Some 1"
    "child (boot_state inp tr bs) 1 (cstr ''..'') = Some 1" "disk_dinode (boot_state inp tr bs) 1 = root_dinode 1024 46"
proof -
  let ?s = "boot_state inp tr bs"
  have lg: "legal_name (cstr ''x'')" "legal_name (cstr ''..'')" by (simp_all add: legal_name_def cstr_def)
  show d: "disk_dinode ?s 1 = root_dinode 1024 46" using boot_inodes(1)[of inp tr bs 1] by (simp add: inum_ok_def)
  then have r: "is_dir ?s 1" by (simp add: is_dir_def root_dinode_def)
  show "walkable ?s ROOTINO [cstr ''x'']" "walkable ?s ROOTINO [cstr ''..'']"
    using boot_walk[OF l, of "[cstr ''x'']" inp tr] boot_walk[OF l, of "[cstr ''..'']" inp tr] lg
    by (simp_all del: walk.simps walkable.simps)
  show "walk True ?s ROOTINO [cstr ''x''] = Some 1" "walk True ?s ROOTINO [cstr ''..''] = Some 1" using r by simp_all
  show "child ?s 1 (cstr ''x'') = None" "child ?s 1 (cstr ''..'') = Some 1"
    using boot_child[OF l lg(1)] boot_child[OF l lg(2)] by (simp_all add: cstr_def)
qed

lemma boot_free_inums: "free_inums (boot_state inp tr bs) = {2..<200}"
proof -
  let ?s = "boot_state inp tr bs"
  have "di_type (disk_dinode ?s (of_nat x)) = 0 \<longleftrightarrow> 2 \<le> x" if x: "1 \<le> x" "x < 200" for x
  proof -
    have i: "inum_ok ?s (of_nat x)" "unat (of_nat x :: u32) = x" using x inum_ok_of_nat[of x ?s] by simp_all
    show ?thesis
    proof (cases "x = 1")
      case True
      then show ?thesis using boot_inodes(1)[OF i(1)] by (simp add: root_dinode_def)
    next
      case False
      then have "(of_nat x :: u32) \<noteq> 1" using i(2) by (metis unsigned_1)
      then show ?thesis using boot_inodes(2)[OF i(1)] x False by simp
    qed
  qed
  then show ?thesis by (auto simp: free_inums_def)
qed

section \<open>A new name\<close>

lemma op_create_new:
  fixes s :: "'a fs_state_scheme"
  assumes c: "calm s" and ld: "log_dev s = ROOTDEV" and p: "path \<noteq> []" "hd path = slash"
    and w: "walkable s ROOTINO (elements path)" "walk True s ROOTINO (elements path) = Some d"
    and none: "child s d (last (elements path)) = None"
    and fr: "free_inums s \<noteq> {}" "i = of_nat (Min (free_inums s))" "inodes s (ROOTDEV, i) = None"
    and nn: "unat (sb_ninodes s) \<le> 65536" and fb: "2 \<le> card (free_blocks s)"
    and cap: "unat (di_size (disk_dinode s d)) + 16 \<le> MAX_FILE * BSIZE"
    and om: "\<not> flag omode O_TRUNC" and sl: "free_file s = Some f"
  shows "\<exists>t. op_create path omode s = Inr ((0, Some f), t) \<and> calm t \<and>
    created d (last (elements path)) i (fresh_dinode T_FILE 0 0) s t \<and>
    files t = (files s)[f := created_file (ROOTDEV, i) omode (files s ! f)] \<and>
    inodes t (ROOTDEV, i) = Some (opened (fresh_dinode T_FILE 0 0) 1) \<and>
    (\<forall>b. home_block t b \<longrightarrow> mmap_base t (unat b) = view t (log_dev t, b)) \<and>
    log_dev t = log_dev s \<and> inum_ok t = inum_ok s \<and> data_block t = data_block s \<and> sb_size t = sb_size s \<and>
    inum_ok s i"
proof -
  let ?q = "(ROOTDEV, i)" and ?e = "last (elements path)" and ?f = "fresh_dinode T_FILE 0 0"
  let ?B = "begun s"
  note b = calm_begin[OF c]
  note B = begun_tree[OF c ld w(1)]
  note wp = walk_parent[OF w]
  have io: "inum_ok s d" and ok: "dir_ok (log_dev s, d) (disk_dir s d)" using wp by (simp_all add: node_ok_def)
  have wB: "walk True ?B ROOTINO (elements path) = Some d" using B(7)[of True] w(2) by simp
  have room: "room ?B 9" using room_le[OF B(5)] by simp
  have chB: "child ?B d ?e = None" using B(8)[of d] wp ok none by simp
  have frB: "free_inums ?B \<noteq> {}" "i = of_nat (Min (free_inums ?B))" "inodes ?B ?q = None"
    using fr B(12) b(6) by simp_all
  have lim: "unat (sb_ninodes ?B) \<le> 65536" "2 \<le> card (free_blocks ?B)"
    "unat (di_size (disk_dinode ?B d)) + 16 \<le> MAX_FILE * BSIZE"
    using nn fb cap B(11) B(9)[OF io] by (simp_all add: begun_def)
  obtain z where z: "create path T_FILE 0 0 ?B = Inr (Some ?q, put_inode ?q (loaded ?f 1) z)" "in_txn z" "coherent z"
    "cached_exist z" "inodes z ?q = None" "log_dev z = ROOTDEV" "same_env ?B z" "created d ?e i ?f ?B z" "inum_ok ?B i"
    using create_new[OF b(2) room b(4,5) B(4) p B(6) wB chB frB lim] by blast
  have iz: "fs_inv z" using z(2) by (simp add: in_txn_def)
  have r: "1 = rc z ?q + 1" "unat (rc z ?q) + 1 < 2 ^ 31" using z(5) by (simp_all add: rc_def)
  have iok: "inum_ok z i" "inum_ok s i" using z(9) B(10) same_env_derived(2)[OF z(7)] by simp_all
  have di: "disk_dinode z i = ?f" using z(8) by (simp add: created_def)
  obtain t where t: "op_create path omode s = Inr ((0, Some f), t)" "calm t" "same_disk z t"
    "files t = (files s)[f := created_file ?q omode (files s ! f)]" "inodes t = (inodes z)(?q \<mapsto> opened ?f 1)"
    using op_create_tail[OF z(1) b(1) z(2-4,6) iok(1) di r om sl] by blast
  have cs: "created d ?e i ?f s z" by (rule created_from[OF z(8) b(3) B(1,2) io ok])
  have ed: "log_dev z = log_dev s" "inum_ok z = inum_ok s" "data_block z = data_block s" "sb_size z = sb_size s"
    using same_env_derived[OF z(7)] B(10) ld B(4)
    by (simp_all add: begun_def fun_eq_iff data_block_def data_start_def)
  have "jinv {} t" using t(2) by (simp add: calm_def idle_def fs_inv_def)
  then have "created d ?e i ?f s t" by (rule created_same_disk[OF cs t(3) iz _ ed iok(2) io])
  moreover have "idle t" using t(2) by (simp add: calm_def)
  moreover have "log_dev t = log_dev s" "inum_ok t = inum_ok s" "data_block t = data_block s" "sb_size t = sb_size s"
    using t(3) ed same_disk_inv(3)[OF t(3) iz \<open>jinv {} t\<close>]
    by (simp_all add: same_disk_def fun_eq_iff data_block_def data_start_def)
  ultimately show ?thesis using t iok(2) idle_image[of t] by (intro exI[of _ t]) simp
qed

section \<open>Properties\<close>

text \<open>
  C33: \<open>op_create\<close> of a new name. When the path resolves to a directory that does not have the last name, an
  inode and two blocks are free and a slot of the file table is free, the call takes the lowest free inode,
  initialises it as an empty file with one link, binds the name to it and returns a handle of an open file
  on it. Every other name of the directory, every other inode and every block of other files stay as they
  were, the one reference left is that of the open file, and when the call returns the image holds all of it.
\<close>

theorem op_create_spec:
  fixes s :: "'a fs_state_scheme"
  assumes c: "calm s" and ld: "log_dev s = ROOTDEV" and p: "path \<noteq> []" "hd path = slash"
    and w: "walkable s ROOTINO (elements path)" "walk True s ROOTINO (elements path) = Some d"
    and none: "child s d (last (elements path)) = None"
    and fr: "free_inums s \<noteq> {}" "i = of_nat (Min (free_inums s))" "inodes s (ROOTDEV, i) = None"
    and nn: "unat (sb_ninodes s) \<le> 65536" and fb: "2 \<le> card (free_blocks s)"
    and cap: "unat (di_size (disk_dinode s d)) + 16 \<le> MAX_FILE * BSIZE"
    and om: "\<not> flag omode O_TRUNC" and sl: "free_file s = Some f"
  shows "\<exists>t. op_create path omode s = Inr ((0, Some f), t) \<and> calm t \<and>
    created d (last (elements path)) i (fresh_dinode T_FILE 0 0) s t \<and>
    files t = (files s)[f := created_file (ROOTDEV, i) omode (files s ! f)] \<and>
    inodes t (ROOTDEV, i) = Some (opened (fresh_dinode T_FILE 0 0) 1) \<and>
    (\<forall>b. home_block t b \<longrightarrow> mmap_base t (unat b) = view t (log_dev t, b))"
  using op_create_new[OF assms] by blast

theorem op_create_spec_witness:
  "\<exists>s t :: fs_state. op_init (main_state boot_img 1024000 []) = Inr ((), s) \<and>
     op_create (cstr ''/x'') O_WRONLY s = Inr ((0, Some 0), t) \<and> child s 1 (cstr ''x'') = None \<and>
     child t 1 (cstr ''x'') = Some 2"
proof -
  obtain tr bs where l: "length bs = LOG_SIZE"
    and r: "op_init (main_state boot_img 1024000 []) = Inr ((), boot_state [] tr bs)" using boot_run by blast
  let ?s = "boot_state [] tr bs"
  have e: "elements (cstr ''/x'') = [cstr ''x'']" by (simp add: cstr_def elements_def)
  have p: "cstr ''/x'' \<noteq> []" "hd (cstr ''/x'') = slash" by (simp_all add: cstr_def)
  note w = boot_new_name[OF l, of "[]" tr]
  have m: "Min (free_inums ?s) = 2" "free_inums ?s \<noteq> {}"
    unfolding boot_free_inums by (rule Min_eqI) simp_all
  have fb: "2 \<le> card (free_blocks ?s)" unfolding boot_free by simp
  have cap: "unat (di_size (disk_dinode ?s 1)) + 16 \<le> MAX_FILE * BSIZE" unfolding w(7) by (simp add: root_dinode_def)
  have om: "\<not> flag O_WRONLY O_TRUNC" by (simp add: flag_def)
  have "\<exists>t. op_create (cstr ''/x'') O_WRONLY ?s = Inr ((0, Some 0), t) \<and> calm t \<and>
    created 1 (last (elements (cstr ''/x''))) (of_nat (Min (free_inums ?s))) (fresh_dinode T_FILE 0 0) ?s t \<and>
    files t = (files ?s)[0 := created_file (ROOTDEV, of_nat (Min (free_inums ?s))) O_WRONLY (files ?s ! 0)] \<and>
    inodes t (ROOTDEV, of_nat (Min (free_inums ?s))) = Some (opened (fresh_dinode T_FILE 0 0) 1) \<and>
    (\<forall>b. home_block t b \<longrightarrow> mmap_base t (unat b) = view t (log_dev t, b))"
    by (rule op_create_spec[OF boot_calm[OF l] _ p _ _ _ m(2) refl _ _ fb cap om boot_free_file])
      (use w in \<open>simp_all add: e del: walk.simps walkable.simps\<close>)
  then show ?thesis using r w(3) unfolding e m(1) created_def rebound_def by auto
qed



text \<open>
  C38: \<open>op_mkdir\<close> of a name that exists dereferences a null pointer: \<open>create\<close> returns null and \<open>op_mkdir\<close> passes
  its result on without looking at it, inside the transaction it has begun.
\<close>

theorem op_mkdir_exists:
  fixes s :: "'a fs_state_scheme"
  assumes c: "calm s" and ld: "log_dev s = ROOTDEV" and p: "path \<noteq> []" "hd path = slash"
    and w: "walkable s ROOTINO (elements path)" "walk True s ROOTINO (elements path) = Some d"
    and ch: "child s d (last (elements path)) = Some j"
  shows "op_mkdir path s = Inl Null_deref"
proof -
  note b = calm_begin[OF c]
  note B = begun_tree[OF c ld w(1)]
  have wB: "walk True (begun s) ROOTINO (elements path) = Some d" using B(7)[of True] w(2) by simp
  have chB: "child (begun s) d (last (elements path)) = Some j" using B(8)[of d] walk_parent[OF w] ch by simp
  have ty: "(T_DIR :: FileType) = T_DIR \<or> (T_DIR :: FileType) = T_FILE" by simp
  obtain t where "create path T_DIR 0 0 (begun s) = Inr (None, t)"
    using create_found[OF b(4) B(3,4) p B(6) wB chB ty, of 0 0] by auto
  then show ?thesis using b(1) by (simp add: op_mkdir_def bnd_def)
qed

theorem op_mkdir_exists_witness:
  "\<exists>s :: fs_state. op_init (main_state boot_img 1024000 []) = Inr ((), s) \<and> op_mkdir (cstr ''/..'') s = Inl Null_deref"
proof -
  obtain tr bs where l: "length bs = LOG_SIZE"
    and r: "op_init (main_state boot_img 1024000 []) = Inr ((), boot_state [] tr bs)" using boot_run by blast
  have e: "elements (cstr ''/..'') = [cstr ''..'']" by (simp add: cstr_def elements_def)
  have p: "cstr ''/..'' \<noteq> []" "hd (cstr ''/..'') = slash" by (simp_all add: cstr_def)
  note w = boot_new_name[OF l, of "[]" tr]
  have "op_mkdir (cstr ''/..'') (boot_state [] tr bs) = Inl Null_deref"
    using op_mkdir_exists[OF boot_calm[OF l] _ p, of "[]" tr 1 1] w unfolding e by simp
  with r show ?thesis by blast
qed

end
