(* ===== verification/Removal.thy ===== *)
theory Removal
  imports Create_Calls
begin

text \<open>
  Removing files: \<open>do_unlink\<close> of \<open>src/op_unlink.cxx\<close> for a name of a file or device. The parent directory is never
  locked, its entry is overwritten in place, and the inode loses a link; with the last link the file is deleted.
\<close>

section \<open>The parent, unlocked\<close>

lemma INode_lock_valid:
  assumes "INode_lock k s = Inr ((), t)"
  shows "\<exists>n. inodes t k = Some n \<and> i_valid n"
proof -
  obtain i where i: "inodes s k = Some i" using assms
    by (auto simp: INode_lock_def bnd_returns deref_inode_def split: option.splits)
  show ?thesis
  proof (cases "i_valid i")
    case True
    then show ?thesis using assms i
      by (auto simp: INode_lock_def inode_mutex_lock_def bnd_returns set_inode_def split: if_splits)
  next
    case False
    then show ?thesis using assms i
      by (auto simp: INode_lock_def inode_mutex_lock_def bnd_returns set_inode_def Let_def split: if_splits)
  qed
qed

lemma INode_unlock_valid:
  assumes "INode_unlock k s = Inr ((), t)" "inodes s k = Some n" "i_valid n"
  shows "\<exists>n. inodes t k = Some n \<and> i_valid n"
  using assms by (auto simp: INode_unlock_def inode_mutex_unlock_def bnd_returns set_inode_def split: if_splits)

lemma name_loop_valid:
  "inode_name_loop True ip path name s = Inr ((Some q, nm), t) \<Longrightarrow> \<exists>n. inodes t q = Some n \<and> i_valid n"
proof (induction "length path" arbitrary: ip path name s rule: less_induct)
  case less
  show ?case
  proof (cases "skipelem path name")
    case None
    then show ?thesis using less.prems by (subst (asm) inode_name_loop.simps) (auto simp: bnd_returns)
  next
    case (Some z)
    obtain path' name' where z: "z = (path', name')" by (cases z)
    have sh: "length path' < length path" using skipelem_shorter Some z by simp
    let ?rest = "\<lambda>di. if di_type di \<noteq> T_DIR then
           bnd (inode_unlock_put ip) (\<lambda>_. ret (None, name'))
         else if path' = [] then
           bnd (INode_unlock ip) (\<lambda>_. ret (Some ip, name'))
         else
           bnd (dirlookup ip name') (\<lambda>found. case found of
             None \<Rightarrow> bnd (inode_unlock_put ip) (\<lambda>_. ret (None, name'))
           | Some (nxt, _) \<Rightarrow>
               bnd (inode_unlock_put ip) (\<lambda>_.
               inode_name_loop True nxt path' name'))"
    have "inode_name_loop True ip path name s = bnd (INode_lock ip) (\<lambda>_. bnd (dinode ip) ?rest) s"
      by (subst inode_name_loop.simps) (simp only: Some z option.case prod.case simp_thms)
    then have "bnd (INode_lock ip) (\<lambda>_. bnd (dinode ip) ?rest) s = Inr ((Some q, nm), t)"
      unfolding less.prems by (rule sym)
    then obtain s1 where lk: "INode_lock ip s = Inr ((), s1)" and "bnd (dinode ip) ?rest s1 = Inr ((Some q, nm), t)"
      unfolding bnd_returns[of "INode_lock ip"] by (elim exE conjE) simp
    then obtain di s2 where "dinode ip s1 = Inr (di, s2)" "?rest di s2 = Inr ((Some q, nm), t)"
      unfolding bnd_returns[of "dinode ip"] by blast
    moreover from this have "s2 = s1" by (auto simp: dinode_def deref_inode_def bnd_def split: option.splits)
    ultimately have rest: "?rest di s1 = Inr ((Some q, nm), t)" by simp
    obtain n where n: "inodes s1 ip = Some n" "i_valid n" using INode_lock_valid[OF lk] by blast
    show ?thesis
    proof (cases "di_type di = T_DIR \<and> path' = []")
      case True
      then have "INode_unlock ip s1 = Inr ((), t)" "q = ip" using rest by (auto simp: bnd_returns)
      then show ?thesis using INode_unlock_valid[OF _ n] by simp
    next
      case False
      then obtain nxt u where "inode_name_loop True nxt path' name' u = Inr ((Some q, nm), t)"
        using rest by (auto simp: bnd_returns split: if_splits option.splits)
      then show ?thesis using less.hyps[OF sh] by blast
    qed
  qed
qed

lemma parent_unlocked:
  assumes c: "coherent s" and i: "fs_inv s" and ld: "log_dev s = ROOTDEV" and p: "path \<noteq> []" "hd path = slash"
    and w: "walkable s ROOTINO (elements path)" "walk True s ROOTINO (elements path) = Some d"
  obtains u r where "inode_name_parent path s = Inr ((Some (ROOTDEV, d), last (elements path) @ 0 # r),
      put_inode (ROOTDEV, d) (opened (disk_dinode s d) (rc u (ROOTDEV, d) + 1)) u)"
    "warm s u" "coherent u" "fs_inv u" "log_dev u = ROOTDEV"
proof -
  let ?k = "(ROOTDEV, d)"
  obtain r t u where n: "inode_name_parent path s = Inr ((Some ?k, last (elements path) @ 0 # r), t)"
    "warm s u" "holds ?k u t"
    using inode_name_run[OF c i ld p w(1)] w(2) ld by (auto simp: resolved_def)
  note ws = warm_same[OF n(2)]
  have u: "coherent u" "fs_inv u" "log_dev u = ROOTDEV" using warm_coherent[OF n(2) c] ws(1,2) i ld by simp_all
  obtain m where m: "t = put_inode ?k m u" "i_ref m = rc u ?k + 1" "\<not> i_locked m"
    "i_valid m \<longrightarrow> i_dinode m = disk_dinode u d" using n(3) by (auto simp: holds_def split: if_splits)
  have "\<exists>n. inodes t ?k = Some n \<and> i_valid n"
    using n(1) name_loop_valid[of _ _ _ _ ?k _ t] by (auto simp: inode_name_parent_def inode_name_x_def bnd_returns)
  then have "i_valid m" using m(1) by simp
  then have "m = opened (disk_dinode s d) (rc u ?k + 1)"
    using m(2-4) ws(3) by (cases m) (simp add: opened_def)
  then show ?thesis using that n(1,2) u m(1) by simp
qed

lemma dot_name_run:
  assumes "legal_name e"
  shows "dot_name (e @ 0 # x) s = Inr (e = cstr ''.'' \<or> e = cstr ''..'', s)"
  using strcmp_eq_terminated[of e "cstr ''.''" x "[]"] strcmp_eq_terminated[of e "cstr ''..''" x "[]"] assms
  by (auto simp: dot_name_def c_str_def legal_name_def cstr_def split: option.split bool.split)

section \<open>Overwriting bytes of a file in place\<close>

lemma INode_overwrite_run:
  assumes ok: "file_ok k s" and i: "inum_ok s (snd k)" and d: "dense k s" and r: "room s 2"
    and b: "buf \<noteq> []" "off + length buf \<le> fsize s k" "length buf + off mod BSIZE \<le> BSIZE"
  shows "\<exists>s'. INode_write k buf off s = Inr (of_nat (length buf), s') \<and> file_ok k s' \<and> file_frame k s s' \<and>
    dense k s' \<and> slots s' k = slots s k \<and> inodes s' = inodes s \<and> disk_dinode s' (snd k) = the_dinode s k \<and>
    (\<forall>p. fcontent s' k p = (if off \<le> p \<and> p < off + length buf then buf ! (p - off) else fcontent s k p)) \<and>
    free_blocks s' = free_blocks s \<and> (\<forall>m. room s (Suc (Suc m)) \<longrightarrow> room s' m)"
proof -
  note f = file_ok_basic[OF ok]
  let ?n = "length buf" and ?bn = "off div BSIZE"
  let ?b = "slots s k (slot_of ?bn)"
  have p: "off < fsize s k" using b(1,2) by (cases buf) simp_all
  then have bn: "?bn < MAX_FILE" "?b \<noteq> 0" using d by (auto simp: dense_def)
  have sn: "slot_of ?bn < NSLOTS" using slot_of_less(1)[OF bn(1)] .
  have db: "data_block s (unat ?b)" using file_ok_slot(1)[OF ok sn bn(2)] .
  define s1 where "s1 = logd ?b (put_bytes (view s (fst k, ?b)) (off mod BSIZE) buf) s"
  have m: "min ?n (BSIZE - off mod BSIZE) = ?n" "?n \<le> BSIZE - off mod BSIZE" using b(3) by simp_all
  have r2: "room s (Suc 1)" using r by (simp add: numeral_2_eq_2)
  note w = write_block[OF ok r2 bn(1) refl refl bn(2) m(2) s1_def]
  have loop: "INode_write_loop k buf off 0 s = Inr (?n, s1)"
    using write_block_run[OF ok r2 db, of s1 "\<lambda>dd. put_bytes dd (off mod BSIZE) buf" "INode_write_loop k buf (off + ?n) ?n"]
      b(1) bn(2) m block_map_present[OF ok bn]
    by (simp add: INode_write_loop.simps[of k buf off 0] INode_write_loop.simps[of k buf "off + ?n" ?n] bnd_run s1_def Let_def)
  define s' where "s' = iupdate k s1"
  have s'': "s' = iupdate k (if False then set_size k 0 s1 else s1)" by (simp add: s'_def)
  note fin = write_finish[OF ok w(1,2) i s'']
  have in1: "inodes s1 = inodes s" "the_dinode s1 k = the_dinode s k" "inodes s' = inodes s" "the_dinode s' k = the_dinode s k"
    by (simp_all add: s1_def s'_def the_dinode_def)
  have ok1: "file_ok k s1" and env1: "same_env s s1" using w(1) by (simp_all add: extends_def)
  note f1 = file_ok_basic[OF ok1]
  have i1: "inum_ok s1 (snd k)" using i env1 by (simp add: inum_ok_def same_env_def)
  have lr: "log_room s1" using room_log_room[of s1 0] w(2) fs_inv_geom(1)[OF f1(1)] by simp
  have up: "INode_update k s1 = Inr ((), s')" unfolding s'_def
    using INode_update_run[OF f1(1) lr _ i1] f1(2,3) by auto
  have sz: "unat (di_size (i_dinode (the (inodes s k)))) = fsize s k" by (simp add: fsize_def the_dinode_def)
  have mx: "fsize s k \<le> MAX_FILE * BSIZE" using d by (simp add: dense_def)
  have run: "INode_write k buf off s = Inr (of_nat ?n, s')"
    using loop up f(3) sz b(2) mx in1(1) dinode_run[OF f(3)] f1(3)
    by (auto simp: INode_write_def bnd_def Let_def dinode_run)
  have sl: "slots s' k = slots s k" using fin(4) w(3) by simp
  moreover have "dense k s'" using d sl in1(4) by (simp add: dense_def fsize_def)
  moreover have "fcontent s' k p = (if off \<le> p \<and> p < off + ?n then buf ! (p - off) else fcontent s k p)" for p
    using fin(5) w(5) by simp
  moreover have "free_blocks s' = free_blocks s"
  proof -
    have "used s' x = used s1 x" if "x < unat (sb_size s1)" for x unfolding s'_def using used_iupdate[OF f1(1) i1 that] .
    then have "free_blocks s' = free_blocks s1" by (auto simp: free_blocks_def s'_def)
    then show ?thesis using w(4) by simp
  qed
  moreover have "room s' m" if "room s (Suc (Suc m))" for m
  proof -
    have "room s1 (Suc m)" unfolding s1_def using that fs_inv_geom(1)[OF f(1)] by (rule room_logd)
    then show ?thesis unfolding s'_def iupdate_def using room_logd fs_inv_geom(1)[OF f1(1)] by blast
  qed
  ultimately show ?thesis using run fin(1-3) in1(3,4) by (intro exI[of _ s'] conjI allI impI) simp_all
qed

section \<open>Clearing an entry\<close>

text \<open>An entry carries at most one name.\<close>

lemma entry_is_inj:
  assumes "entry_is e de" "entry_is e' de" "legal_name e" "legal_name e'"
  shows "e' = e"
proof -
  have t: "takeWhile (\<lambda>c. c \<noteq> 0) (de_name de) = nm" if n: "entry_is nm de" "legal_name nm" for nm
  proof -
    have "de_name de = nm @ 0 # drop (Suc (length nm)) (de_name de)"
      using n(1) by (metis append.assoc append_Cons append_Nil append_take_drop_id entry_is_def)
    then show ?thesis using n(2) by (metis legal_name_def takeWhile_before_zero)
  qed
  show ?thesis using t[OF assms(1,3)] t[OF assms(2,4)] by simp
qed

lemma dir_lookup_at:
  assumes "dir_lookup s k e = Some (n, p)"
  shows "p < dir_len s k" "entry_is e (dir_entry s k p)" "n = de_inum (dir_entry s k p)"
proof -
  obtain j where "find (\<lambda>j. entry_is e (dir_entry s k j)) [0..<dir_len s k] = Some j" "p = j"
    "n = de_inum (dir_entry s k j)" using assms by (auto simp: dir_lookup_def)
  with find_Some_in[of "\<lambda>j. entry_is e (dir_entry s k j)" "[0..<dir_len s k]" j]
  show "p < dir_len s k" "entry_is e (dir_entry s k p)" "n = de_inum (dir_entry s k p)" by simp_all
qed

lemma dir_lookup_clear:
  assumes e: "\<And>i. dir_entry s' k i = (if i = p then de else dir_entry s k i)" "de_inum de = 0"
    and len: "dir_len s' k = dir_len s k" and at: "dir_lookup s k e = Some (n, p)" "legal_name e" "unique_names s k"
    and nm: "legal_name nm"
  shows "dir_lookup s' k nm = (if nm = e then None else dir_lookup s k nm)"
proof (cases "nm = e")
  case True
  note a = dir_lookup_at[OF at(1)]
  have "\<not> entry_is e (dir_entry s' k i)" if "i < dir_len s k" for i
    using that at(2,3) a(1,2) e by (auto simp: unique_names_def bound_once_def entry_is_def)
  then have "find (\<lambda>j. entry_is e (dir_entry s' k j)) [0..<dir_len s' k] = None"
    by (auto simp: find_None_iff len)
  then show ?thesis using True by (simp add: dir_lookup_def)
next
  case False
  have q: "\<not> entry_is nm (dir_entry s k p)" using entry_is_inj[OF dir_lookup_at(2)[OF at(1)] _ at(2) nm] False by blast
  have eq: "entry_is nm (dir_entry s' k i) = entry_is nm (dir_entry s k i)" for i
    using q e by (auto simp: entry_is_def)
  have "dir_entry s' k i = dir_entry s k i" if "find (\<lambda>i. entry_is nm (dir_entry s k i)) [0..<dir_len s k] = Some i" for i
    using find_Some_in[OF that] q e(1)[of i] by auto
  moreover have "dir_lookup s' k nm = map_option (\<lambda>j. (de_inum (dir_entry s' k j), j))
      (find (\<lambda>i. entry_is nm (dir_entry s k i)) [0..<dir_len s k])" by (simp only: dir_lookup_def eq len)
  ultimately show ?thesis using False
    by (cases "find (\<lambda>i. entry_is nm (dir_entry s k i)) [0..<dir_len s k]") (simp_all add: dir_lookup_def)
qed

lemma unique_names_clear:
  assumes e: "\<And>i. dir_entry s' k i = (if i = p then de else dir_entry s k i)" "de_inum de = 0"
    and len: "dir_len s' k = dir_len s k" and u: "unique_names s k"
  shows "unique_names s' k"
proof -
  have "entry_is nm (dir_entry s k i)" if "entry_is nm (dir_entry s' k i)" for nm i
    using that e by (auto simp: entry_is_def split: if_splits)
  then show ?thesis using u len unfolding unique_names_def bound_once_def by metis
qed

lemma dir_clear_run:
  assumes ok: "dir_ok k s" and i: "inum_ok s (snd k)" and r: "room s 2" and p: "p < dir_len s k" and wf: "dirent_wf de"
  shows "\<exists>s'. INode_write k (dirent_bytes de) (16 * p) s = Inr (16, s') \<and> dir_ok k s' \<and> file_frame k s s' \<and>
    slots s' k = slots s k \<and> inodes s' = inodes s \<and> disk_dinode s' (snd k) = the_dinode s k \<and>
    (\<forall>i. dir_entry s' k i = (if i = p then de else dir_entry s k i)) \<and> dir_len s' k = dir_len s k \<and>
    free_blocks s' = free_blocks s \<and> (\<forall>m. room s (Suc (Suc m)) \<longrightarrow> room s' m)"
proof -
  have fk: "file_ok k s" and dk: "dense k s" using ok by (simp_all add: dir_ok_def)
  obtain q where q: "fsize s k = 16 * q" using ok by (auto simp: dir_ok_def)
  have l: "length (dirent_bytes de) = 16" by (simp add: dirent_bytes_def)
  have b: "dirent_bytes de \<noteq> []" "16 * p + length (dirent_bytes de) \<le> fsize s k"
    using l p q by (auto simp: dir_len_def)
  have "16 * p mod 1024 = 16 * (p mod 64)" by (simp add: mult_mod_right)
  moreover have "p mod 64 < 64" by simp
  ultimately have c: "length (dirent_bytes de) + 16 * p mod BSIZE \<le> BSIZE" using l by simp
  obtain s' where w: "INode_write k (dirent_bytes de) (16 * p) s = Inr (16, s')" "file_ok k s'" "file_frame k s s'"
    "dense k s'" "slots s' k = slots s k" "inodes s' = inodes s" "disk_dinode s' (snd k) = the_dinode s k"
    "\<forall>x. fcontent s' k x = (if 16 * p \<le> x \<and> x < 16 * p + 16 then dirent_bytes de ! (x - 16 * p) else fcontent s k x)"
    "free_blocks s' = free_blocks s" "\<forall>m. room s (Suc (Suc m)) \<longrightarrow> room s' m"
    using INode_overwrite_run[OF fk i dk r b c] l by auto
  have td: "the_dinode s' k = the_dinode s k" by (simp add: the_dinode_def w(6))
  have "dir_ok k s'" using ok w(2,4) td by (simp add: dir_ok_def fsize_def)
  moreover have "dir_len s' k = dir_len s k" by (simp add: dir_len_def fsize_def td)
  ultimately show ?thesis using w dir_entry_write[OF w(8) wf] by (intro exI[of _ s']) simp
qed

section \<open>Unlocking what is not locked\<close>

text \<open>
  \<open>INode::unlock\<close> of an inode whose mutex is not held: undefined in C++; the model counts it and goes on.
\<close>

definition ticked :: "'a inode_cache_scheme \<Rightarrow> 'a inode_cache_scheme" where
  "ticked s = s\<lparr>unheld_unlocks := Suc (unheld_unlocks s)\<rparr>"

lemma ticked_fields [simp]:
  "inodes (ticked s) = inodes s" "log_dev (ticked s) = log_dev s" "sb_size (ticked s) = sb_size s"
  "sb_ninodes (ticked s) = sb_ninodes s" "room (ticked s) = room s" "unheld_unlocks (ticked s) = Suc (unheld_unlocks s)"
  "inum_ok (ticked s) = inum_ok s" "one_bitmap (ticked s) = one_bitmap s" "the_dinode (ticked s) = the_dinode s"
  by (simp_all add: ticked_def fun_eq_iff room_def inum_ok_def one_bitmap_def the_dinode_def)

lemma ticked_lower [simp]:
  "view (ticked s) = view s" "jinv H (ticked s) = jinv H s" "fs_inv (ticked s) = fs_inv s" "in_txn (ticked s) = in_txn s"
  "home_block (ticked s) = home_block s" "used (ticked s) = used s" "data_block (ticked s) = data_block s"
  "free_blocks (ticked s) = free_blocks s" "disk_dinode (ticked s) = disk_dinode s" "same_disk s (ticked s)"
proof -
  show v: "view (ticked s) = view s" by (rule ext) (simp add: view_def ticked_def split: option.split)
  show "home_block (ticked s) = home_block s"
    by (simp add: fun_eq_iff home_block_def in_image_def in_log_def ticked_def)
  show "same_disk s (ticked s)" unfolding same_disk_def v by (simp add: ticked_def)
  have "pins (ticked s) = pins s" "log_wf (ticked s) = log_wf s"
    "log_geom (ticked s) = log_geom s" "cache_inv P H (ticked s) = cache_inv P H s" for P H
    by (simp_all add: pins_def logged_def log_wf_def home_block_def in_image_def in_log_def log_geom_def cache_inv_def ticked_def)
  then show j: "jinv H (ticked s) = jinv H s" for H by (simp add: jinv_def)
  show us: "used (ticked s) = used s" and "data_block (ticked s) = data_block s"
    by (simp_all add: fun_eq_iff used_def BIT_BLOCK_def data_block_def data_start_def v) (simp_all add: ticked_def)
  have "data_start (ticked s) = data_start s" "fs_geom (ticked s) = fs_geom s"
    by (simp_all add: data_start_def fs_geom_def ticked_def)
  then show i: "fs_inv (ticked s) = fs_inv s" by (simp add: fs_inv_def meta_used_def us j)
  show "in_txn (ticked s) = in_txn s" by (simp add: in_txn_def i) (simp add: ticked_def header_clear_def)
  show "free_blocks (ticked s) = free_blocks s" by (simp add: free_blocks_def us)
  show "disk_dinode (ticked s) = disk_dinode s" by (simp add: fun_eq_iff disk_dinode_def v) (simp add: INODE_BLOCK_def ticked_def)
qed

lemma unlock_put_unheld:
  assumes "inodes u k = Some (opened di r)" "r \<noteq> 0" "di_nlink di \<noteq> 0"
  shows "inode_unlock_put k u = Inr ((), if r = 1 then drop_inode k (ticked u) else put_inode k (opened di (r - 1)) (ticked u))"
proof -
  have "INode_unlock k u = Inr ((), ticked u)"
    using assms by (simp add: INode_unlock_def inode_mutex_unlock_def bnd_def opened_def ticked_def word_le_nat_alt unat_gt_0 Suc_le_eq)
  then show ?thesis using inode_put_keep[of "ticked u" k "opened di r"] assms
    by (simp add: inode_unlock_put_def bnd_def opened_def)
qed

section \<open>A cached inode that agrees with the disk\<close>

lemma over_disk:
  assumes v: "view x = view s" "fs_inv x = fs_inv s" "used x = used s" "data_block x = data_block s" "log_dev x = log_dev s"
    and n: "inodes x (log_dev s, i) = Some n" "i_dinode n = disk_dinode s i"
  shows "dir_ok (log_dev s, i) x = dir_ok (log_dev s, i) (disk_dir s i)"
    "file_ok (log_dev s, i) x = file_ok (log_dev s, i) (disk_dir s i)"
    "owned x (log_dev s, i) = owned (disk_dir s i) (log_dev s, i)"
    "map_option (\<lambda>(j, _). ucast j) (dir_lookup x (log_dev s, i) nm) = child s i nm"
    "unique_names x (log_dev s, i) = unique_names (disk_dir s i) (log_dev s, i)"
    "the_dinode x (log_dev s, i) = disk_dinode s i"
proof -
  let ?k = "(log_dev s, i)" and ?d = "disk_dir s i"
  have td: "the_dinode x ?k = the_dinode ?d ?k" using n by (simp add: disk_dir_def the_dinode_def loaded_def)
  have vd: "view x = view ?d" using v(1) by (simp add: disk_dir_def)
  have nn: "inodes ?d ?k \<noteq> None" "inodes x ?k \<noteq> None" using n by (simp_all add: disk_dir_def)
  note dl = dir_lookup_cong[OF td vd]
  show "dir_ok ?k x = dir_ok ?k ?d" by (rule dir_ok_cong[OF td vd _ _ _ _ nn]) (simp_all add: v disk_dir_def)
  show "owned x ?k = owned ?d ?k" by (simp add: owned_def dl)
  show "map_option (\<lambda>(j, _). ucast j) (dir_lookup x ?k nm) = child s i nm" by (simp add: child_def dl)
  show "unique_names x ?k = unique_names ?d ?k"
    by (rule unique_names_cong) (simp_all add: fun_eq_iff dir_len_def dir_entry_def fsize_def td dl)
  show "the_dinode x ?k = disk_dinode s i" using n by (simp add: the_dinode_def)
  have "(\<exists>i. inodes x ?k = Some i \<and> dinode_wf (i_dinode i)) = (\<exists>i. inodes ?d ?k = Some i \<and> dinode_wf (i_dinode i))"
    using td nn by (auto simp: the_dinode_def)
  then show "file_ok ?k x = file_ok ?k ?d" unfolding file_ok_def dl by (simp add: v disk_dir_def)
qed

section \<open>Deleting the inode\<close>

lemma file_frame_trans_owned:
  assumes a: "file_frame k s t" and b: "file_frame k t u" and own: "owned t k = owned s k" "free_blocks t = free_blocks s"
  shows "file_frame k s u"
proof -
  have env: "same_env s t" "same_env t u" using a b by (simp_all add: file_frame_def)
  have db: "data_block t = data_block s" using data_block_same_env[OF env(1)] .
  have io: "inum_ok t = inum_ok s" using env by (simp add: inum_ok_def same_env_def fun_eq_iff)
  have "same_env s u" using env by (simp add: same_env_def)
  then show ?thesis using a b own unfolding file_frame_def db io by auto
qed

text \<open>
  \<open>do_unlink\<close> from the decrement of the link count on, for the only reference to the inode: with the last
  link the file is deleted, otherwise only the count on disk changes.
\<close>

definition link_dropped :: "INodeKey \<Rightarrow> DiskINode \<Rightarrow> 'a inode_cache_scheme \<Rightarrow> 'a inode_cache_scheme \<Rightarrow> bool" where
  "link_dropped k di s t \<longleftrightarrow>
     (if di_nlink di = 1 then di_type (disk_dinode t (snd k)) = 0 \<and> free_blocks t = free_blocks s \<union> unat ` owned s k
      else disk_dinode t (snd k) = di\<lparr>di_nlink := di_nlink di - 1\<rparr> \<and> free_blocks t = free_blocks s \<and>
        (\<forall>b. data_block s (unat b) \<and> used s (unat b) \<longrightarrow> used t (unat b) \<and> view t (fst k, b) = view s (fst k, b)))"

lemma drop_link_run:
  fixes s :: "'a inode_cache_scheme"
  assumes n: "inodes s k = Some (loaded di 1)" "di_nlink di \<noteq> 0" and ok: "file_ok k s" and i: "inum_ok s (snd k)"
    and r: "room s 4" and o: "one_bitmap s"
  shows "\<exists>u. (\<forall>c :: (int, 'a inode_cache_scheme) m. bnd (set_dinode k (\<lambda>di. di\<lparr>di_nlink := di_nlink di - 1\<rparr>)) (\<lambda>_.
      bnd (INode_update k) (\<lambda>_. bnd (inode_unlock_put k) (\<lambda>_. c))) s = c (drop_inode k u)) \<and>
    file_frame k s u \<and> fs_inv u \<and> link_dropped k di s u"
proof -
  let ?d = "di\<lparr>di_nlink := di_nlink di - 1\<rparr>"
  let ?p = "put_inode k (loaded ?d 1) s"
  have td: "the_dinode s k = di" using n(1) by (simp add: the_dinode_def loaded_def)
  note op = file_ok_put_inode[OF ok, of "loaded ?d 1", unfolded td]
  have okp: "file_ok k ?p" and slp: "owned ?p k = owned s k" using op by (simp_all add: loaded_def)
  note fp = file_ok_basic[OF okp]
  have sd: "set_dinode k (\<lambda>di. di\<lparr>di_nlink := di_nlink di - 1\<rparr>) s = Inr ((), ?p)"
    using n by (simp add: set_dinode_def deref_inode_def bnd_def set_inode_def loaded_def)
  have r1: "room ?p 1" "room ?p (Suc 3)" using room_le[OF r] r by (simp_all add: numeral_eq_Suc)
  have ip: "inum_ok ?p (snd k)" using i by simp
  have lr: "log_room ?p" using room_log_room[OF r1(2)] fs_inv_geom(1)[OF fp(1)] .
  define v where "v = iupdate k ?p"
  have v': "v = iupdate k (if False then set_size k 0 ?p else ?p)" by (simp add: v_def)
  note w = write_finish[OF okp extends_refl[OF okp] r1(1) ip v']
  have up: "INode_update k ?p = Inr ((), v)" unfolding v_def
    using INode_update_run[OF fp(1) lr _ ip] fp(2) by simp
  have nv: "inodes v k = Some (loaded ?d 1)" by (simp add: v_def)
  let ?o = "put_inode k (opened ?d 1) v"
  have ul: "INode_unlock k v = Inr ((), ?o)" using INode_unlock_run[OF nv] by (simp add: loaded_def opened_def)
  have tv: "the_dinode v k = ?d" using nv by (simp add: the_dinode_def loaded_def)
  note oo = file_ok_put_inode[OF w(3), of "opened ?d 1", unfolded tv]
  have oko: "file_ok k ?o" "owned ?o k = owned s k"
    using oo slp w(4) by (simp_all add: opened_def owned_def)
  have ff: "file_frame k s v" using file_frame_put_inode[OF w(1) slp] .
  have ev: "same_env s v" using ff by (simp add: file_frame_def)
  have us: "used v x = used s x" if "x < unat (sb_size s)" for x
    unfolding v_def using used_iupdate[OF fp(1) ip, of x] that by simp
  have fb: "free_blocks v = free_blocks s" using us ev by (auto simp: free_blocks_def same_env_def)
  have run: "bnd (set_dinode k (\<lambda>di. di\<lparr>di_nlink := di_nlink di - 1\<rparr>)) (\<lambda>_.
      bnd (INode_update k) (\<lambda>_. bnd (inode_unlock_put k) (\<lambda>_. c))) s = c (drop_inode k u)"
    if "inode_put k ?o = Inr ((), drop_inode k u)" for c :: "(int, 'a inode_cache_scheme) m" and u
    using sd up ul that by (simp add: bnd_def inode_unlock_put_def)
  show ?thesis
  proof (cases "di_nlink di = 1")
    case False
    then have "inode_put k ?o = Inr ((), drop_inode k ?o)"
      using inode_put_keep[of ?o k "opened ?d 1"] by (simp add: opened_def)
    then have "inode_put k ?o = Inr ((), drop_inode k v)" by (simp add: drop_inode_def put_inode_def)
    moreover have "fs_inv v" using w(3) by (simp add: file_ok_def)
    moreover have "link_dropped k di s v"
    proof -
      have "disk_dinode v (snd k) = ?d" using w(2) tv by simp
      moreover have "view v (fst k, b) = view s (fst k, b)" if "data_block s (unat b)" for b
        unfolding v_def using view_iupdate_data[of ?p k b] fp(1,2) ip that by (simp add: fs_inv_def)
      ultimately show ?thesis using False fb us by (simp add: link_dropped_def data_block_def)
    qed
    ultimately show ?thesis using run ff by blast
  next
    case True
    have io: "inum_ok ?o (snd k)" using i ev by (simp add: inum_ok_def same_env_def)
    have rv: "room v 3" unfolding v_def iupdate_def using room_logd[OF r1(2)] fs_inv_geom(1)[OF fp(1)] by simp
    have bo: "bm_room ?o 2" "one_bitmap ?o" using rv o ev by (simp_all add: bm_room_def numeral_eq_Suc one_bitmap_def same_env_def)
    obtain u where u: "inode_put k ?o = Inr ((), drop_inode k u)" "file_frame k ?o u" "fs_inv u"
      "free_blocks u = free_blocks ?o \<union> unat ` owned ?o k" "di_type (disk_dinode u (snd k)) = 0"
      using inode_put_delete[OF oko(1) io bo, of "opened ?d 1"] True by (auto simp: opened_def)
    have ou: "owned v k = owned s k" using slp w(4) by (simp add: owned_def)
    have "file_frame k v u" using file_frame_put_inode[OF u(2)] oko(2) ou by simp
    then have "file_frame k s u" using file_frame_trans_owned[OF ff _ ou fb] by blast
    moreover have "link_dropped k di s u" using u(4,5) fb oko(2) True by (simp add: link_dropped_def)
    ultimately show ?thesis using run[OF u(1)] u(3) by blast
  qed
qed

lemma drop_inode_disk [simp]: "disk_dinode (drop_inode k s) = disk_dinode s" "inum_ok (drop_inode k s) = inum_ok s"
proof -
  show "disk_dinode (drop_inode k s) = disk_dinode s" by (simp add: fun_eq_iff disk_dinode_def)
  show "inum_ok (drop_inode k s) = inum_ok s" by (simp add: fun_eq_iff inum_ok_def drop_inode_def)
qed

text \<open>The state after the parent was given back, for either case of \<open>inode_put\<close>.\<close>

lemma left_fields:
  fixes y :: "'a inode_cache_scheme"
  defines "z b k n \<equiv> if b then drop_inode k (ticked y) else put_inode k n (ticked y)"
  shows "view (z b k n) = view y" "fs_inv (z b k n) = fs_inv y" "used (z b k n) = used y"
    "data_block (z b k n) = data_block y" "log_dev (z b k n) = log_dev y" "disk_dinode (z b k n) = disk_dinode y"
    "same_disk y (z b k n)" "in_txn (z b k n) = in_txn y" "free_blocks (z b k n) = free_blocks y"
    "room (z b k n) = room y" "inum_ok (z b k n) = inum_ok y"
  unfolding z_def by (cases b; simp)+

section \<open>The entry of the name\<close>

lemma unlink_entry:
  fixes s s0 :: "'a inode_cache_scheme"
  assumes t: "in_txn s" "room s (Suc (Suc n))" and c: "coherent s" "cached_exist s" and ld: "log_dev s = ROOTDEV"
    and p: "path \<noteq> []" "hd path = slash"
    and w: "walkable s ROOTINO (elements path)" "walk True s ROOTINO (elements path) = Some d"
    and e: "e = last (elements path)" "child s d e = Some j" "e \<noteq> cstr ''.''" "e \<noteq> cstr ''..''"
    and once: "unique_names (disk_dir s d) (ROOTDEV, d)"
    and f: "di_type (disk_dinode s j) \<noteq> T_DIR" "inodes s (ROOTDEV, j) = None" "file_ok (ROOTDEV, j) (disk_dir s j)"
    and ap: "owned (disk_dir s d) (ROOTDEV, d) \<inter> owned (disk_dir s j) (ROOTDEV, j) = {}"
    and b: "begin_op s0 = Inr ((), s)" and dj: "dj = disk_dinode s j"
  shows "\<exists>z. do_unlink path s0 = bnd (set_dinode (ROOTDEV, j) (\<lambda>di. di\<lparr>di_nlink := di_nlink di - 1\<rparr>)) (\<lambda>_.
      bnd (INode_update (ROOTDEV, j)) (\<lambda>_. bnd (inode_unlock_put (ROOTDEV, j)) (\<lambda>_. bnd end_op (\<lambda>_. ret 0))))
      (put_inode (ROOTDEV, j) (loaded dj 1) z) \<and>
    in_txn z \<and> coherent z \<and> cached_exist z \<and> inodes z (ROOTDEV, j) = None \<and> room z n \<and> same_env (ticked s) z \<and>
    free_blocks z = free_blocks s \<and> rebound d e None j {} s z \<and> disk_dinode z j = dj \<and>
    file_ok (ROOTDEV, j) (put_inode (ROOTDEV, j) (loaded dj 1) z) \<and>
    owned (put_inode (ROOTDEV, j) (loaded dj 1) z) (ROOTDEV, j) = owned (disk_dir s j) (ROOTDEV, j) \<and>
    owned (disk_dir z d) (ROOTDEV, d) \<inter> owned (disk_dir s j) (ROOTDEV, j) = {}"
proof -
  let ?k = "(ROOTDEV, d)" and ?q = "(ROOTDEV, j)" and ?dd = "disk_dinode s d"
  have inv: "fs_inv s" using t(1) by (simp add: in_txn_def)
  note wp = walk_parent[OF w, folded e(1)]
  obtain u x where n: "inode_name_parent path s = Inr ((Some ?k, e @ 0 # x), put_inode ?k (opened ?dd (rc u ?k + 1)) u)"
    "warm s u" "coherent u" "fs_inv u" "log_dev u = ROOTDEV"
    by (rule parent_unlocked[OF c(1) inv ld p w, folded e(1)])
  define r where "r = rc u ?k + 1"
  let ?U = "put_inode ?k (opened ?dd r) u" and ?N = "put_inode ?q new_inode (put_inode ?k (opened ?dd r) u)"
  let ?X = "put_inode ?q (loaded dj 1) ?U"
  note ws = warm_same[OF n(2)]
  obtain m where m: "u = s\<lparr>inodes := m\<rparr>" "dom m = dom (inodes s)" using warm_inodes[OF n(2)] by blast
  have "?q \<notin> dom m" using m(2) f(2) by (simp add: domIff)
  then have uq: "inodes u ?q = None" using m(1) by (simp add: domIff)
  have ne: "j \<noteq> d" using wp f(1) by (auto simp: is_dir_def)
  have nj: "inum_ok s j" "inum_ok s d" "di_type dj \<noteq> 0" "di_nlink dj \<noteq> 0" "di_nlink ?dd \<noteq> 0"
    using wp e(2) dj by (simp_all add: node_ok_def)
  have k: "?k = (log_dev s, d)" "?q = (log_dev s, j)" using ld by simp_all
  have lU: "view ?U = view s" "fs_inv ?U = fs_inv s" "used ?U = used s" "data_block ?U = data_block s" "log_dev ?U = log_dev s"
    "view ?X = view s" "fs_inv ?X = fs_inv s" "used ?X = used s" "data_block ?X = data_block s" "log_dev ?X = log_dev s"
    by (simp_all add: m(1))
  have U: "dir_ok ?k ?U" "map_option (\<lambda>(j, _). ucast j) (dir_lookup ?U ?k e) = Some j" "unique_names ?U ?k"
    using over_disk(1,4,5)[OF lU(1-5), of d "opened ?dd r"] wp e(2) once ld by (simp_all add: opened_def)
  obtain i' y where lk: "dir_lookup ?U ?k e = Some (i', y)" "ucast i' = j" using U(2) by (auto simp: case_prod_beta')
  have run1: "dirlookup ?k (e @ 0 # x) ?U = Inr (Some (?q, 16 * y), ?N)"
    using dirlookup_run[OF U(1), of e x] wp lk uq ne by (simp add: bnd_def inode_get_run)
  have lc: "INode_lock ?q ?N = Inr ((), ?X)"
    using INode_lock_load[of ?N ?q new_inode] n(4,5) nj k lU(5) dj ws(3) by (simp add: new_inode_def loaded_def m(1) inum_ok_def)
  have okX: "dir_ok ?k ?X" "owned ?X ?k = owned (disk_dir s d) ?k" "unique_names ?X ?k" "the_dinode ?X ?k = ?dd"
    "\<And>nm. map_option (\<lambda>(j, _). ucast j) (dir_lookup ?X ?k nm) = child s d nm"
    using over_disk[OF lU(6-10), of d "opened ?dd r"] ne wp once ld by (simp_all add: opened_def)
  have okq: "file_ok ?q ?X" "owned ?X ?q = owned (disk_dir s j) ?q"
    using over_disk(2,3)[OF lU(6-10), of j "loaded dj 1"] f(3) ld dj by (simp_all add: loaded_def)
  have lX: "dir_lookup ?X ?k e = Some (i', y)"
    using dir_lookup_cong(1)[of ?X ?k ?U] lk(1) ne by (simp add: the_dinode_def)
  have iX: "inum_ok ?X d" "room ?X (Suc (Suc n))" using nj(2) t(2) by (simp_all add: m(1) inum_ok_def room_def)
  have rX: "room ?X 2" using room_le[OF iX(2)] by simp
  have fbu: "free_blocks u = free_blocks s" by (simp add: m(1) free_blocks_def)
  have wf: "dirent_wf zero_dirent" by (simp add: zero_dirent_def dirent_wf_def)
  have iX': "inum_ok ?X (snd ?k)" using iX by simp
  obtain Y where Y: "INode_write ?k (dirent_bytes zero_dirent) (16 * y) ?X = Inr (16, Y)" "dir_ok ?k Y" "file_frame ?k ?X Y"
    "slots Y ?k = slots ?X ?k" "inodes Y = inodes ?X" "disk_dinode Y d = ?dd"
    "\<And>i. dir_entry Y ?k i = (if i = y then zero_dirent else dir_entry ?X ?k i)" "dir_len Y ?k = dir_len ?X ?k"
    "free_blocks Y = free_blocks s" "room Y n"
    using dir_clear_run[OF okX(1) iX' rX dir_lookup_at(1)[OF lX] wf] okX(4) iX(2) fbu by auto
  define Z where Z: "Z = (if r = 1 then drop_inode ?k (ticked Y) else put_inode ?k (opened ?dd (r - 1)) (ticked Y))"
  let ?z = "drop_inode ?q Z"
  have nY: "inodes Y ?k = Some (opened ?dd r)" "inodes Y ?q = Some (loaded dj 1)" using Y(5) ne by simp_all
  have rr: "r \<noteq> 0" "r = 1 \<longleftrightarrow> inodes u ?k = None" using rc_succ[OF n(3), of ?k] by (simp_all add: r_def)
  have ul: "inode_unlock_put ?k Y = Inr ((), Z)" unfolding Z using unlock_put_unheld[OF nY(1) rr(1) nj(5)] .
  have fY: "fs_inv Y" using Y(2) by (simp add: dir_ok_def file_ok_def)
  have eXY: "same_env ?X Y" using Y(3) by (simp add: file_frame_def)
  note ed = same_env_derived[OF eXY]
  have eY: "log_dev Y = log_dev s" "inum_ok Y = inum_ok s" "data_block Y = data_block s" "sb_size Y = sb_size s"
    unfolding ed using lU(9,10) by (simp_all add: m(1) fun_eq_iff inum_ok_def)
  have nZ: "inodes Z ?q = Some (loaded dj 1)" using nY(2) ne by (simp add: Z drop_inode_def)
  have zq: "Z = put_inode ?q (loaded dj 1) ?z"
    unfolding put_drop_inode by (rule put_inode_same[OF nZ, symmetric])
  have lz: "view Z = view Y" "fs_inv Z = fs_inv Y" "used Z = used Y" "data_block Z = data_block Y" "log_dev Z = log_dev Y"
    "disk_dinode Z = disk_dinode Y" "same_disk Y Z" "in_txn Z = in_txn Y" "free_blocks Z = free_blocks Y"
    "room Z = room Y" "inum_ok Z = inum_ok Y"
    unfolding Z by (simp_all only: left_fields)
  have zi: "inodes ?z = (if inodes u ?k = None then inodes u else (inodes u)(?k \<mapsto> opened ?dd (rc u ?k)))"
  proof (rule ext)
    fix k'
    show "inodes ?z k' = (if inodes u ?k = None then inodes u else (inodes u)(?k \<mapsto> opened ?dd (rc u ?k))) k'"
      using Y(5) rr(2) uq ne by (auto simp: Z drop_inode_def put_inode_def r_def)
  qed
  have dX: "disk_dinode ?X = disk_dinode s" using ws(3) by simp
  have sdX: "same_disk s ?X" using same_disk_warm[OF n(2)] by simp
  have kY: "?k = (log_dev Y, d)" "?q = (log_dev Y, j)" using eY(1) ld by simp_all
  have lY: "view Y = view Y" "fs_inv Y = fs_inv Y" "used Y = used Y" "data_block Y = data_block Y" "log_dev Y = log_dev Y"
    "disk_dinode Y j = dj"
    using Y(3) nj(1) ne dj dX by (simp_all add: file_frame_def m(1) inum_ok_def)
  note oY = over_disk[OF lY(1-5), of d "opened ?dd r"] and oq = over_disk[OF lY(1-5), of j "loaded dj 1"]
  have dY: "owned Y ?k = owned (disk_dir Y d) ?k" "map_option (\<lambda>(j, _). ucast j) (dir_lookup Y ?k nm) = child Y d nm"
    "dir_ok ?k (disk_dir Y d)" for nm
    using oY nY(1) Y(2,6) kY by (simp_all add: opened_def)
  have fkX: "file_ok ?k ?X" using okX(1) by (simp add: dir_ok_def)
  have nq: "?q \<noteq> ?k" using ne by simp
  have apX: "owned ?X ?k \<inter> owned ?X ?q = {}" unfolding okX(2) okq(2) by (rule ap)
  note ffo = file_frame_other[OF Y(3) fY fkX okq(1) nq apX]
  have ffq: "file_ok ?q Y" "owned Y ?k \<inter> owned Y ?q = {}" "owned Y ?q = owned (disk_dir s j) ?q"
    using ffo okq(2) by (simp_all add: owned_def)
  have rbY: "rebound d e None j {} s Y"
    unfolding rebound_def
  proof (intro conjI allI impI)
    note clr = dir_lookup_clear[OF Y(7) _ Y(8) lX _ okX(3)]
    have lg: "legal_name e" using wp by simp
    show "child Y d e = None" using dY(2)[of e] clr[of e] lg by (simp add: zero_dirent_def)
    show "child Y d nm = child s d nm" if "legal_name nm \<and> nm \<noteq> e" for nm
      using dY(2)[of nm] okX(5)[of nm] clr[of nm] lg that by (simp add: zero_dirent_def)
    show "unique_names (disk_dir Y d) (log_dev s, d)"
      using oY(5) unique_names_clear[OF Y(7) _ Y(8) okX(3)] nY(1) Y(6) kY k by (simp add: zero_dirent_def opened_def)
    show "dir_ok (log_dev s, d) (disk_dir Y d)" using dY(3) k by simp
    show "owned (disk_dir Y d) (log_dev s, d) - owned (disk_dir s d) (log_dev s, d) \<subseteq> of_nat ` free_blocks s"
      using dY(1) okX(2) Y(4) k by (simp add: owned_def)
    show "di_nlink (disk_dinode Y d) = di_nlink ?dd" using Y(6) by simp
    show "disk_dinode Y i = disk_dinode s i" if "inum_ok s i \<and> i \<noteq> j \<and> i \<noteq> d" for i
      using Y(3) that dX by (simp add: file_frame_def m(1) inum_ok_def)
    fix b assume b: "data_block s (unat b) \<and> used s (unat b) \<and> b \<notin> owned (disk_dir s d) (log_dev s, d) \<and> b \<notin> {}"
    then have "used Y (unat b) \<and> view Y (ROOTDEV, b) = view ?X (ROOTDEV, b)"
      using Y(3) okX(2) lU(8,9) k unfolding file_frame_def by simp
    then show "used Y (unat b)" "view Y (log_dev s, b) = view s (log_dev s, b)" using lU(6) ld by simp_all
  qed
  have oz: "file_ok ?q (put_inode ?q (loaded dj 1) ?z)"
    "owned (put_inode ?q (loaded dj 1) ?z) ?q = owned (disk_dir s j) ?q" "owned (disk_dir ?z d) ?k = owned Y ?k"
  proof -
    have "inodes Z (log_dev Y, j) = Some (loaded dj 1)" using nZ kY(2) by simp
    note o1 = over_disk(2,3)[OF lz(1-5) this]
    have o2: "file_ok ?q Y = file_ok ?q (disk_dir Y j)" "owned Y ?q = owned (disk_dir Y j) ?q"
      using oq(2,3) nY(2) lY(6) kY(2) by (simp_all add: loaded_def)
    show "file_ok ?q (put_inode ?q (loaded dj 1) ?z)" "owned (put_inode ?q (loaded dj 1) ?z) ?q = owned (disk_dir s j) ?q"
      unfolding zq[symmetric] using o1 o2 lY(6) kY(2) ffq by (simp_all add: loaded_def)
    let ?D = "disk_dir ?z d"
    have lD: "view ?D = view Y" "fs_inv ?D = fs_inv Y" "used ?D = used Y" "data_block ?D = data_block Y" "log_dev ?D = log_dev Y"
      "inodes ?D (log_dev Y, d) = Some (loaded (disk_dinode Y d) 1)"
      using lz(1-6) by (simp_all add: disk_dir_def)
    show "owned ?D ?k = owned Y ?k" using over_disk(3)[OF lD] dY(1) kY(1) by (simp add: loaded_def)
  qed
  have tY: "in_txn Y" using in_txn_frame[OF _ eXY fY] warm_in_txn[OF n(2)] t(1) by simp
  have z: "in_txn ?z" "room ?z n" "free_blocks ?z = free_blocks s" "disk_dinode ?z = disk_dinode Y" "same_disk Y ?z"
    "log_dev ?z = ROOTDEV" "inum_ok ?z = inum_ok s" "inodes ?z ?q = None"
    using tY Y(9,10) lz(5-11) eY(1,2) ld by simp_all (simp add: drop_inode_def)
  have jz: "fs_inv ?z" "jinv {} ?z" using z(1) by (simp_all add: in_txn_def fs_inv_def)
  have rbz: "rebound d e None j {} s ?z"
    by (rule rebound_same_disk[OF rbY z(5) fY jz(2) eY nj(2)])
  have env: "same_env (ticked s) ?z"
  proof -
    have "same_env s Y" using eXY by (simp add: same_env_def m(1) put_inode_def)
    then have "same_env (ticked s) (ticked Y)" by (simp add: same_env_def ticked_def)
    then show ?thesis by (simp add: same_env_def Z drop_inode_def)
  qed
  have cu: "cached_exist u" by (rule warm_cached_exist[OF n(2) c(2)])
  have iz: "inum_ok ?z = inum_ok u" using z(7) by (simp add: m(1) fun_eq_iff inum_ok_def)
  have zi': "inodes ?z = (if inodes u ?k = None then inodes u else (inodes u)(?k \<mapsto> opened (disk_dinode ?z d) (rc u ?k)))"
    unfolding z(4) Y(6) by (rule zi)
  have od: "disk_dinode ?z i = disk_dinode u i" if "inum_ok u i" "i \<noteq> j" "i \<noteq> d" for i
    using rbz that ws(3) z(7) iz by (simp add: rebound_def)
  note cz = coherent_parent[OF n(3) cu n(5) z(6) iz zi' uq od]
  have dt: "dot_name (e @ 0 # x) ?U = Inr (False, ?U)" using dot_name_run[of e x ?U] wp e(3,4) by simp
  have bs: "bnd begin_op F1 s0 = F1 () s" "bnd (inode_name_parent path) G s = G (Some ?k, e @ 0 # x) ?U"
    "bnd (dot_name (e @ 0 # x)) H ?U = H False ?U" "bnd (dirlookup ?k (e @ 0 # x)) K ?U = K (Some (?q, 16 * y)) ?N"
    "bnd (INode_lock ?q) F2 ?N = F2 () ?X" "bnd (dinode ?q) D ?X = D dj ?X"
    "bnd (INode_write ?k (dirent_bytes zero_dirent) (16 * y)) W ?X = W 16 Y" "bnd (inode_unlock_put ?k) F3 Y = F3 () Z"
    "bnd (assert_that a (di_nlink dj \<ge> 1)) F4 v = F4 () v" "bnd (assert_that a' (16 = (of_nat sizeof_DirEntry :: u32))) F4 v = F4 () v"
    "bnd (when_do False c') F5 v = F5 () v" "bnd (ret True) B v = B True v" "(di_type dj = T_DIR) = False"
    for F1 :: "unit \<Rightarrow> (int, 'a inode_cache_scheme) m" and G and H :: "bool \<Rightarrow> (int, 'a inode_cache_scheme) m" and K :: "(INodeKey \<times> nat) option \<Rightarrow> (int, 'a inode_cache_scheme) m"
      and F2 :: "unit \<Rightarrow> (int, 'a inode_cache_scheme) m" and D :: "DiskINode \<Rightarrow> (int, 'a inode_cache_scheme) m" and W :: "u32 \<Rightarrow> (int, 'a inode_cache_scheme) m"
      and F3 :: "unit \<Rightarrow> (int, 'a inode_cache_scheme) m" and F4 :: "unit \<Rightarrow> (int, 'a inode_cache_scheme) m" and F5 :: "unit \<Rightarrow> (int, 'a inode_cache_scheme) m"
      and B :: "bool \<Rightarrow> (int, 'a inode_cache_scheme) m" and v a a' c'
    using b n(1) dt run1 lc Y(1) ul nj(4) f(1) dj
    by (simp_all add: bnd_def r_def dinode_run loaded_def word_le_nat_alt unat_gt_0 Suc_le_eq)
  have run: "do_unlink path s0 = bnd (set_dinode ?q (\<lambda>di. di\<lparr>di_nlink := di_nlink di - 1\<rparr>)) (\<lambda>_.
      bnd (INode_update ?q) (\<lambda>_. bnd (inode_unlock_put ?q) (\<lambda>_. bnd end_op (\<lambda>_. ret 0)))) (put_inode ?q (loaded dj 1) ?z)"
    unfolding zq[symmetric] by (simp only: do_unlink_def bs prod.case option.case if_False simp_thms)
  show ?thesis
    by (intro exI[of _ ?z] conjI) (use run z cz env rbz oz ffq lY(6) dY in simp_all)
qed

section \<open>The binding beside a change of the inode\<close>

lemma file_frame_put_other:
  assumes "file_frame q s t" "k \<noteq> q"
  shows "file_frame q (put_inode k n s) (put_inode k n t)"
proof -
  have q: "q \<noteq> k" using assms(2) by simp
  note o = file_put_other(3)[OF q]
  have dd: "disk_dinode (put_inode k n x) = disk_dinode x" for x :: "'a inode_cache_scheme" by simp
  have "same_env (put_inode k n s) (put_inode k n t)" using assms(1) by (simp add: file_frame_def same_env_def put_inode_def)
  then show ?thesis using assms(1) unfolding file_frame_def o dd by simp
qed

lemma rebound_file_frame:
  assumes rb: "rebound d e c j {} s w" and ff: "file_frame q w v" and iv: "fs_inv v" and okq: "file_ok q w"
    and env: "log_dev w = log_dev s" "inum_ok w = inum_ok s" "data_block w = data_block s"
    and q: "q = (log_dev s, j)" "j \<noteq> d" and io: "inum_ok s d"
    and ap: "owned (disk_dir w d) (log_dev s, d) \<inter> owned w q = {}"
    and bl: "\<And>b. data_block w (unat b) \<Longrightarrow> used w (unat b) \<Longrightarrow> b \<notin> B \<Longrightarrow> used v (unat b) \<and> view v (log_dev s, b) = view w (log_dev s, b)"
  shows "rebound d e c j B s v"
proof -
  let ?k = "(log_dev s, d)" and ?w = "disk_dir w d" and ?v = "disk_dir v d"
  have nk: "?k \<noteq> q" "q \<noteq> ?k" using q by auto
  have dd: "disk_dinode v i = disk_dinode w i" if "inum_ok s i" "i \<noteq> j" for i
    using ff that env(2) q by (simp add: file_frame_def)
  have lv: "log_dev v = log_dev s" using ff env(1) by (simp add: file_frame_def same_env_def)
  have fw: "?w = put_inode ?k (loaded (disk_dinode w d) 1) w" "?v = put_inode ?k (loaded (disk_dinode w d) 1) v"
    using dd[OF io] q(2) env(1) lv by (simp_all add: disk_dir_def)
  have f2: "file_frame q ?w ?v" unfolding fw by (rule file_frame_put_other[OF ff nk(1)])
  have ok2: "file_ok q ?w" "owned ?w q = owned w q" unfolding fw using okq by (simp_all add: file_put_other[OF nk(2)])
  have dk: "dir_ok ?k ?w" using rb by (simp add: rebound_def)
  have fk: "file_ok ?k ?w" using dk by (simp add: dir_ok_def)
  have iv2: "fs_inv ?v" unfolding fw using iv by simp
  have ap2: "owned ?w q \<inter> owned ?w ?k = {}" using ap ok2(2) by auto
  note fo = file_frame_other[OF f2 iv2 ok2(1) fk nk(1) ap2]
  have "dir_ok ?k ?v" using dk fo unfolding dir_ok_def dense_def fsize_def by simp
  moreover have "child v d nm = child w d nm" for nm
    using fo by (simp add: child_def env(1) lv dir_lookup_def dir_entry_def dir_len_def fsize_def)
  moreover have "unique_names ?v ?k = unique_names ?w ?k"
    by (rule unique_names_cong) (simp_all add: fun_eq_iff dir_entry_def dir_len_def fsize_def fo)
  moreover have "owned ?v ?k = owned ?w ?k" by (simp add: owned_def fo)
  ultimately show ?thesis using rb dd[OF io] dd q(2) bl env(3) unfolding rebound_def by simp
qed

lemma coherent_others:
  assumes c: "coherent z" "cached_exist z" and n: "inodes y = inodes z" "inodes z (log_dev z, j) = None"
    and l: "log_dev y = log_dev z" "inum_ok y = inum_ok z"
    and d: "\<And>i. inum_ok z i \<Longrightarrow> i \<noteq> j \<Longrightarrow> disk_dinode y i = disk_dinode z i"
  shows "coherent y" "cached_exist y"
proof -
  have dd: "disk_dinode y (snd k) = disk_dinode z (snd k)" if k: "inodes z k = Some m" for k m
  proof -
    have f: "fst k = log_dev z" "inum_ok z (snd k)" using c(2) k unfolding cached_exist_def by blast+
    then have "snd k \<noteq> j" using k n(2) by (cases k) auto
    then show ?thesis using d f(2) by simp
  qed
  show "coherent y" using c(1) dd unfolding coherent_def n(1) by metis
  show "cached_exist y" using c(2) by (simp add: cached_exist_def n(1) l)
qed

lemma op_unlink_file:
  fixes s :: "'a inode_cache_scheme"
  assumes c: "calm s" and ld: "log_dev s = ROOTDEV" and o: "one_bitmap s" and p: "path \<noteq> []" "hd path = slash"
    and w: "walkable s ROOTINO (elements path)" "walk True s ROOTINO (elements path) = Some d"
    and e: "e = last (elements path)" "child s d e = Some j" "e \<noteq> cstr ''.''" "e \<noteq> cstr ''..''"
    and once: "unique_names (disk_dir s d) (ROOTDEV, d)"
    and f: "di_type (disk_dinode s j) \<noteq> T_DIR" "inodes s (ROOTDEV, j) = None" "file_ok (ROOTDEV, j) (disk_dir s j)"
    and ap: "owned (disk_dir s d) (ROOTDEV, d) \<inter> owned (disk_dir s j) (ROOTDEV, j) = {}"
    and dj: "dj = disk_dinode s j" and bs: "bs = owned (disk_dir s j) (ROOTDEV, j)"
  shows "\<exists>t. op_unlink path s = Inr (0, t) \<and> calm t \<and> unheld_unlocks t = Suc (unheld_unlocks s) \<and>
    rebound d e None j (if di_nlink dj = 1 then bs else {}) s t \<and>
    (if di_nlink dj = 1 then di_type (disk_dinode t j) = 0 \<and> free_blocks t = free_blocks s \<union> unat ` bs
     else disk_dinode t j = dj\<lparr>di_nlink := di_nlink dj - 1\<rparr> \<and> free_blocks t = free_blocks s) \<and>
    log_dev t = log_dev s \<and> inum_ok t = inum_ok s \<and> data_block t = data_block s \<and> sb_size t = sb_size s"
proof -
  let ?k = "(ROOTDEV, d)" and ?q = "(ROOTDEV, j)"
  let ?B = "begun s"
  note b = calm_begin[OF c]
  note B = begun_tree[OF c ld w(1)]
  note wp = walk_parent[OF w, folded e(1)]
  have lB: "view (disk_dir ?B i) = view s" "fs_inv (disk_dir ?B i) = fs_inv s" "used (disk_dir ?B i) = used s"
    "data_block (disk_dir ?B i) = data_block s" "log_dev (disk_dir ?B i) = log_dev s" for i
    using B(1,3) by (simp_all add: disk_dir_def begun_def outstanding_update fun_eq_iff used_def BIT_BLOCK_def data_block_def data_start_def)
  have io: "inum_ok s d" "inum_ok s j" "di_nlink dj \<noteq> 0" using wp e(2) dj by (simp_all add: node_ok_def)
  have tB: "disk_dinode ?B d = disk_dinode s d" "disk_dinode ?B j = disk_dinode s j" using B(9) io by simp_all
  have nB: "inodes (disk_dir ?B i) (log_dev s, i) = Some (loaded (disk_dinode ?B i) 1)" for i
    by (simp add: disk_dir_def begun_def)
  have oB: "unique_names (disk_dir ?B d) ?k" "owned (disk_dir ?B d) ?k = owned (disk_dir s d) ?k"
    using over_disk(3,5)[OF lB nB, of d] tB once ld by (simp_all add: loaded_def)
  have qB: "file_ok ?q (disk_dir ?B j)" "owned (disk_dir ?B j) ?q = bs"
    using over_disk(2,3)[OF lB nB, of j] tB f(3) ld bs by (simp_all add: loaded_def)
  have wB: "walk True ?B ROOTINO (elements path) = Some d" using B(7)[of True] w(2) by simp
  have chB: "child ?B d e = Some j" using B(8)[of d] wp e(2) by simp
  have rB: "room ?B (Suc (Suc 4))" using room_le[OF B(5)] by simp
  have fB: "di_type (disk_dinode ?B j) \<noteq> T_DIR" "inodes ?B ?q = None" using tB f(1,2) b(6) by simp_all
  have apB: "owned (disk_dir ?B d) ?k \<inter> owned (disk_dir ?B j) ?q = {}" using oB(2) qB(2) ap bs by simp
  have djB: "dj = disk_dinode ?B j" using tB dj by simp
  obtain z where z: "do_unlink path s = bnd (set_dinode ?q (\<lambda>di. di\<lparr>di_nlink := di_nlink di - 1\<rparr>)) (\<lambda>_.
      bnd (INode_update ?q) (\<lambda>_. bnd (inode_unlock_put ?q) (\<lambda>_. bnd end_op (\<lambda>_. ret 0)))) (put_inode ?q (loaded dj 1) z)"
    "in_txn z" "coherent z" "cached_exist z" "inodes z ?q = None" "room z 4" "same_env (ticked ?B) z"
    "free_blocks z = free_blocks ?B" "rebound d e None j {} ?B z" "disk_dinode z j = dj"
    "file_ok ?q (put_inode ?q (loaded dj 1) z)" "owned (put_inode ?q (loaded dj 1) z) ?q = bs"
    "owned (disk_dir z d) ?k \<inter> bs = {}"
    using unlink_entry[OF b(2) rB b(4,5) B(4) p B(6) wB e(1) chB e(3,4) oB(1) fB qB(1) apB b(1) djB] unfolding qB(2) by blast
  let ?W = "put_inode ?q (loaded dj 1) z"
  note ez = same_env_derived[OF z(7)]
  have eW: "log_dev ?W = log_dev ?B" "inum_ok ?W = inum_ok ?B" "data_block ?W = data_block ?B" "sb_size ?W = sb_size ?B"
    using ez by (simp_all add: fun_eq_iff inum_ok_def)
  have oW: "one_bitmap ?W" "room ?W 4" "inum_ok ?W (snd ?q)" "inodes ?W ?q = Some (loaded dj 1)"
    using o z(6) eW B(10) io(2) by (simp_all add: one_bitmap_def begun_def)
  obtain u where u: "\<And>c :: (int, 'a inode_cache_scheme) m. bnd (set_dinode ?q (\<lambda>di. di\<lparr>di_nlink := di_nlink di - 1\<rparr>)) (\<lambda>_.
      bnd (INode_update ?q) (\<lambda>_. bnd (inode_unlock_put ?q) (\<lambda>_. c))) ?W = c (drop_inode ?q u)"
    "file_frame ?q ?W u" "fs_inv u" "link_dropped ?q dj ?W u"
    using drop_link_run[OF oW(4) io(3) z(11) oW(3,2,1)] by blast
  let ?y = "drop_inode ?q u"
  have run: "do_unlink path s = bnd end_op (\<lambda>_. ret 0) ?y" unfolding z(1) by (rule u(1))
  have ff: "file_frame ?q ?W u" by (rule u(2))
  have eu: "same_env ?W u" using ff by (simp add: file_frame_def)
  have ty: "in_txn ?y" using in_txn_frame[OF _ eu u(3)] z(2) by simp
  have jW: "fs_inv ?W" "jinv {} ?W" using z(11) by (simp_all add: file_ok_def fs_inv_def)
  let ?S = "if di_nlink dj = 1 then bs else {}"
  have q: "?q = (log_dev ?B, j)" "?k = (log_dev ?B, d)" using B(4) by simp_all
  have ne: "j \<noteq> d" using wp f(1) by (auto simp: is_dir_def)
  have iB: "inum_ok ?B d" "inum_ok ?B j" using B(10) io by simp_all
  have zi: "fs_inv z" using z(2) by (simp add: in_txn_def)
  have sW: "same_disk z ?W" by simp
  have ez': "log_dev z = log_dev ?B" "inum_ok z = inum_ok ?B" "data_block z = data_block ?B" "sb_size z = sb_size ?B"
    using ez by (simp_all add: fun_eq_iff inum_ok_def)
  have rbW: "rebound d e None j {} ?B ?W" by (rule rebound_same_disk[OF z(9) sW zi jW(2) ez' iB(1)])
  have apW: "owned (disk_dir ?W d) (log_dev ?B, d) \<inter> owned ?W ?q = {}"
  proof -
    have "disk_dir ?W d = put_inode ?q (loaded dj 1) (disk_dir z d)"
      using ne by (simp add: disk_dir_def put_inode_commute)
    then have "owned (disk_dir ?W d) ?k = owned (disk_dir z d) ?k"
      using file_put_other(3)[of ?k ?q "loaded dj 1" "disk_dir z d"] ne by simp
    then show ?thesis using z(12,13) q(2) by simp
  qed
  have bl: "used u (unat b) \<and> view u (log_dev ?B, b) = view ?W (log_dev ?B, b)"
    if "data_block ?W (unat b)" "used ?W (unat b)" "b \<notin> ?S" for b
  proof (cases "di_nlink dj = 1")
    case True
    then have "b \<notin> owned ?W ?q" using that(3) z(12) by simp
    then show ?thesis using ff that(1,2) B(4) unfolding file_frame_def fst_conv by simp
  next
    case False
    then show ?thesis using u(4) that(1,2) B(4) unfolding link_dropped_def fst_conv by simp
  qed
  have rbu: "rebound d e None j ?S ?B u"
    by (rule rebound_file_frame[OF rbW ff u(3) z(11) eW(1-3) q(1) ne iB(1) apW bl])
  obtain t im tr bl h where t: "end_op ?y = Inr ((), t)" "idle t" "same_disk ?y t" "inodes t = inodes ?y"
    "t = settle im tr bl h ?y"
    by (rule end_calm[OF ty])
  have iy: "fs_inv ?y" using ty by (simp add: in_txn_def)
  have jt: "jinv {} t" using t(2) by (simp add: idle_def fs_inv_def)
  have su: "same_disk u t" using t(3) by (rule same_disk_trans[rotated]) simp
  note eu' = same_env_derived[OF eu]
  have uB: "log_dev u = log_dev ?B" "inum_ok u = inum_ok ?B" "data_block u = data_block ?B" "sb_size u = sb_size ?B"
    unfolding eu' by (rule eW)+
  have rbt: "rebound d e None j ?S ?B t" by (rule rebound_same_disk[OF rbu su u(3) jt uB iB(1)])
  have rb: "rebound d e None j ?S s t"
    by (rule rebound_from[OF rbt b(3) B(1,2) io(1)]) (use wp in simp)
  note sdt = same_disk_inv[OF su u(3) jt]
  have dt: "disk_dinode t j = disk_dinode u j" "free_blocks t = free_blocks u" using sdt iB(2) uB(2) by simp_all
  have iny: "inodes ?y = inodes z"
  proof (rule ext)
    fix k'
    have "inodes u k' = inodes ?W k'" if "k' \<noteq> ?q" using ff that unfolding file_frame_def by blast
    then show "inodes ?y k' = inodes z k'" using z(5) by (cases "k' = ?q") (simp_all add: drop_inode_def)
  qed
  have qz: "inodes z (log_dev z, j) = None" using z(5) ez'(1) q(1) by simp
  have dy: "disk_dinode ?y i = disk_dinode z i" if "inum_ok z i" "i \<noteq> j" for i
    using ff that ez'(2) eW(2) by (simp add: file_frame_def)
  have ly: "log_dev ?y = log_dev z" "inum_ok ?y = inum_ok z" using uB(1,2) ez'(1,2) by simp_all
  note cy = coherent_others[OF z(3,4) iny qz ly dy]
  have "calm t" using same_disk_coherent[OF t(3) iy jt t(4) cy] t(2) by (simp add: calm_def)
  moreover have "unheld_unlocks t = Suc (unheld_unlocks s)"
    using eu z(7) by (simp add: t(5) settle_def drop_inode_def same_env_def begun_def)
  moreover have "op_unlink path s = Inr (0, t)" using run t(1) by (simp add: op_unlink_def bnd_def)
  moreover have "if di_nlink dj = 1 then di_type (disk_dinode t j) = 0 \<and> free_blocks t = free_blocks s \<union> unat ` bs
     else disk_dinode t j = dj\<lparr>di_nlink := di_nlink dj - 1\<rparr> \<and> free_blocks t = free_blocks s"
    using u(4) z(8,12) B(11) dt unfolding link_dropped_def snd_conv by simp
  moreover have "log_dev t = log_dev s" "inum_ok t = inum_ok s" "data_block t = data_block s" "sb_size t = sb_size s"
    using su uB sdt(3) B(10) by (simp_all add: same_disk_def fun_eq_iff data_block_def data_start_def begun_def)
  ultimately show ?thesis using rb by (intro exI[of _ t] conjI)
qed

end
