(* ===== verification/Removal_Calls.thy ===== *)
theory Removal_Calls
  imports Removal
begin

text \<open>
  The system calls around the removal of a name: \<open>op_release\<close> of the last handle, \<open>op_unlink\<close> of a file and of a name
  that cannot be removed, and the life of a file from its creation to its removal.
\<close>

section \<open>Closing the only handle\<close>

lemma calm_drop:
  assumes "calm s"
  shows "calm (drop_inode k s)"
proof -
  have n: "inodes (drop_inode k s) k' = Some m \<Longrightarrow> inodes s k' = Some m" for k' m
    by (auto simp: drop_inode_def split: if_splits)
  have "coherent (drop_inode k s)" "cached_exist (drop_inode k s)"
    using assms n unfolding calm_def coherent_def cached_exist_def by (simp_all del: split_paired_All) blast+
  then show ?thesis using assms by (simp add: calm_def)
qed

lemma op_release_last:
  fixes s :: "'a fs_state_scheme"
  assumes c: "calm s" and n: "inodes s (log_dev s, i) = Some (opened (disk_dinode s i) 1)" "node_ok s i"
    and f: "f < length (files s)" "f_ref (files s ! f) = 1" "f_type (files s ! f) \<in> {FD_INODE, FD_DEVICE}"
      "f_ip (files s ! f) = (log_dev s, i)"
  shows "\<exists>t. op_release (Some f) s = Inr (0, t) \<and> calm t \<and> same_disk s t \<and>
    files t = (files s)[f := (files s ! f)\<lparr>f_ref := 0, f_type := FD_NONE\<rparr>] \<and>
    inodes t = (inodes s)((log_dev s, i) := None) \<and> unheld_unlocks t = unheld_unlocks s"
proof -
  let ?k = "(log_dev s, i)"
  let ?u = "drop_inode ?k s"
  have cu: "calm ?u" by (rule calm_drop[OF c])
  have u: "inodes ?u ?k = None" "rc ?u ?k = 0" "?k = (log_dev ?u, i)" "files ?u = files s"
    "unheld_unlocks ?u = unheld_unlocks s" "?u\<lparr>files := files s\<rparr> = ?u"
    by (simp_all add: drop_inode_def rc_def)
  have nu: "node_ok ?u i" using n(2) by (simp add: node_ok_def)
  have "put_inode ?k (opened (disk_dinode ?u i) (rc ?u ?k + 1)) (?u\<lparr>files := files s\<rparr>) = s"
    using put_inode_same[OF n(1)] by (simp add: u(2,6))
  then obtain t where t: "ofile_close f s = Inr ((), t)" "calm t" "same_disk ?u t"
    "files t = (files s)[f := (files s ! f)\<lparr>f_ref := 0, f_type := FD_NONE\<rparr>]" "inodes t = inodes ?u"
    "unheld_unlocks t = unheld_unlocks ?u"
    using ofile_close_last[OF cu nu u(3) f] u(1) by auto
  have "same_disk s ?u" by simp
  then have "same_disk s t" using t(3) same_disk_trans by blast
  then show ?thesis using t u(5) by (intro exI[of _ t]) (simp add: op_release_def bnd_def drop_inode_def)
qed

section \<open>An empty file\<close>

text \<open>An inode without blocks is a file without blocks.\<close>

lemma empty_file_ok:
  assumes i: "fs_inv s" and z: "di_addrs (disk_dinode s j) = replicate 13 0"
  shows "file_ok (log_dev s, j) (disk_dir s j)" "owned (disk_dir s j) (log_dev s, j) = {}"
proof -
  let ?k = "(log_dev s, j)"
  have td: "the_dinode (disk_dir s j) ?k = disk_dinode s j" by (simp add: disk_dir_def the_dinode_def loaded_def)
  have sl: "slots (disk_dir s j) ?k x = 0" if "x < NSLOTS" for x
    using that by (simp add: slots_def td z Let_def)
  show "owned (disk_dir s j) ?k = {}" using sl by (auto simp: owned_def)
  have "dinode_wf (disk_dinode s j)" using z by (simp add: dinode_wf_def)
  then show "file_ok ?k (disk_dir s j)" unfolding file_ok_def using sl i by (simp add: disk_dir_def loaded_def)
qed

text \<open>A directory below no other one: the walk to a name in the root.\<close>

lemma root_name:
  assumes "log_dev s = ROOTDEV" "node_ok s ROOTINO" "dir_ok (ROOTDEV, ROOTINO) (disk_dir s ROOTINO)" "legal_name e"
    and "\<And>j. child s ROOTINO e = Some j \<Longrightarrow> node_ok s j"
  shows "walkable s ROOTINO [e]" "walk True s ROOTINO [e] = Some ROOTINO" "is_dir s ROOTINO"
proof -
  have "the_dinode (disk_dir s ROOTINO) (ROOTDEV, ROOTINO) = disk_dinode s ROOTINO"
    using assms(1) by (simp add: disk_dir_def the_dinode_def loaded_def)
  then show d: "is_dir s ROOTINO" using assms(3) by (simp add: dir_ok_def is_dir_def)
  show "walkable s ROOTINO [e]" "walk True s ROOTINO [e] = Some ROOTINO" using assms d by simp_all
qed

lemma free_inums_cong:
  assumes i: "inum_ok t = inum_ok s"
    and t: "\<And>j. inum_ok s j \<Longrightarrow> di_type (disk_dinode t j) = 0 \<longleftrightarrow> di_type (disk_dinode s j) = 0"
  shows "free_inums t = free_inums s"
proof -
  have lt: "unat j < unat (sb_ninodes t) \<longleftrightarrow> unat j < unat (sb_ninodes s)" for j :: u32
    using fun_cong[OF i, of j] by (simp add: inum_ok_def)
  have "sb_ninodes t = sb_ninodes s"
    using lt[of "sb_ninodes s"] lt[of "sb_ninodes t"] by (metis less_irrefl linorder_neqE_nat unsigned_word_eqI)
  moreover have "di_type (disk_dinode t (of_nat x)) = 0 \<longleftrightarrow> di_type (disk_dinode s (of_nat x)) = 0"
    if "1 \<le> x" "x < unat (sb_ninodes s)" for x
    using t inum_ok_of_nat[of x s] that by simp
  ultimately show ?thesis by (auto simp: free_inums_def)
qed

text \<open>A file is created in the root directory and its only handle closed.\<close>

lemma create_close:
  fixes s :: "'a fs_state_scheme"
  assumes c: "calm s" and ld: "log_dev s = ROOTDEV" and o: "one_bitmap s" and p: "path \<noteq> []" "hd path = slash"
    and e: "elements path = [e]" and w: "walkable s ROOTINO [e]" "is_dir s ROOTINO"
    and none: "child s ROOTINO e = None" and once: "unique_names (disk_dir s ROOTINO) (ROOTDEV, ROOTINO)"
    and fr: "free_inums s \<noteq> {}" "i = of_nat (Min (free_inums s))" "inodes s (ROOTDEV, i) = None"
    and nn: "unat (sb_ninodes s) \<le> 65536" and fb: "2 \<le> card (free_blocks s)"
    and cap: "unat (di_size (disk_dinode s ROOTINO)) + 16 \<le> MAX_FILE * BSIZE"
    and om: "\<not> flag omode O_TRUNC" and sl: "free_file s = Some f"
  shows "\<exists>t u. op_create path omode s = Inr ((0, Some f), t) \<and> op_release (Some f) t = Inr (0, u) \<and> calm u \<and>
    child t ROOTINO e = Some i \<and> rebound ROOTINO e (Some i) i {} s u \<and> disk_dinode u i = fresh_dinode T_FILE 0 0 \<and>
    inodes u (ROOTDEV, i) = None \<and> free_blocks u \<subseteq> free_blocks s \<and> log_dev u = ROOTDEV \<and> inum_ok u = inum_ok s \<and>
    data_block u = data_block s \<and> sb_size u = sb_size s \<and> inum_ok s i \<and>
    walkable u ROOTINO [e] \<and> walk True u ROOTINO [e] = Some ROOTINO \<and>
    unique_names (disk_dir u ROOTINO) (ROOTDEV, ROOTINO) \<and> file_ok (ROOTDEV, i) (disk_dir u i) \<and>
    owned (disk_dir u i) (ROOTDEV, i) = {}"
proof -
  let ?k = "(ROOTDEV, ROOTINO)" and ?q = "(ROOTDEV, i)" and ?f = "fresh_dinode T_FILE 0 0"
  have wt: "walkable s ROOTINO (elements path)" "walk True s ROOTINO (elements path) = Some ROOTINO"
    "child s ROOTINO (last (elements path)) = None" using w none by (simp_all add: e(1))
  note wp = walk_parent[OF wt(1,2)]
  have n1: "node_ok s ROOTINO" "legal_name e" "inum_ok s ROOTINO" using w(1) by (simp_all add: node_ok_def)
  obtain t where t: "op_create path omode s = Inr ((0, Some f), t)" "calm t"
    "created ROOTINO e i ?f s t"
    "files t = (files s)[f := created_file ?q omode (files s ! f)]" "inodes t ?q = Some (opened ?f 1)"
    "log_dev t = log_dev s" "inum_ok t = inum_ok s" "data_block t = data_block s" "sb_size t = sb_size s" "inum_ok s i"
    using op_create_new[OF c ld p wt fr nn fb cap om sl] e(1) by auto
  have di: "disk_dinode t i = ?f" using t(3) by (simp add: created_def)
  have nt: "node_ok t i" using di t(7,10) by (simp add: node_ok_def fresh_dinode_def)
  note ff = free_file_less[OF sl]
  have lt: "log_dev t = ROOTDEV" using t(6) ld by simp
  have ot: "inodes t (log_dev t, i) = Some (opened (disk_dinode t i) 1)" using t(5) di lt by simp
  obtain u where u: "op_release (Some f) t = Inr (0, u)" "calm u" "same_disk t u" "inodes u = (inodes t)(?q := None)"
    using op_release_last[OF t(2) ot nt, of f] t(4) ff lt
    by (auto simp: created_file_def open_file_def)
  have it: "fs_inv t" and ju: "jinv {} u" "fs_inv u" using t(2) u(2) by (simp_all add: calm_def idle_def fs_inv_def)
  have rt: "rebound ROOTINO e (Some i) i {} s t" and ft: "free_blocks t \<subseteq> free_blocks s" using t(3) by (simp_all add: created_def)
  have ch: "child t ROOTINO e = Some i" using rt by (simp add: rebound_def)
  have ru: "rebound ROOTINO e (Some i) i {} s u" by (rule rebound_same_disk[OF rt u(3) it ju(1) t(6-9) n1(3)])
  note du = same_disk_inv[OF u(3) it ju(1)]
  have eu: "log_dev u = ROOTDEV" "inum_ok u = inum_ok s" "data_block u = data_block s" "sb_size u = sb_size s"
    "free_blocks u = free_blocks t" "disk_dinode u i = ?f"
    using u(3) lt t(7-10) du di by (simp_all add: same_disk_def fun_eq_iff data_block_def data_start_def)
  have ru': "child u ROOTINO e = Some i" "dir_ok ?k (disk_dir u ROOTINO)" "unique_names (disk_dir u ROOTINO) ?k"
    "di_nlink (disk_dinode u ROOTINO) = di_nlink (disk_dinode s ROOTINO)"
    "owned (disk_dir u ROOTINO) ?k - owned (disk_dir s ROOTINO) ?k \<subseteq> of_nat ` free_blocks s"
    using ru once ld by (simp_all add: rebound_def)
  have nu: "node_ok u i" using eu(2,6) t(10) by (simp add: node_ok_def fresh_dinode_def)
  have "the_dinode (disk_dir u ROOTINO) ?k = disk_dinode u ROOTINO"
    using eu(1) by (simp add: disk_dir_def the_dinode_def loaded_def)
  then have nr: "node_ok u ROOTINO" using ru'(2,4) n1(1,3) eu(2) by (simp add: node_ok_def dir_ok_def)
  have wu: "walkable u ROOTINO [e]" "walk True u ROOTINO [e] = Some ROOTINO"
    by (rule root_name[OF eu(1) nr ru'(2) n1(2)]; use ru'(1) nu in simp)+
  have z: "di_addrs (disk_dinode u i) = replicate 13 0" using eu(6) by (simp add: fresh_dinode_def zero_dinode_def)
  note em = empty_file_ok[OF ju(2) z, unfolded eu(1)]
  have "inodes u ?q = None" using u(4) by simp
  then show ?thesis using t(1,10) u(1,2) ru eu ft ch wu ru'(3) em by - (rule exI[of _ t], rule exI[of _ u], simp)
qed

lemma create_close_unlink:
  fixes s :: "'a fs_state_scheme"
  assumes c: "calm s" and ld: "log_dev s = ROOTDEV" and o: "one_bitmap s" and p: "path \<noteq> []" "hd path = slash"
    and e: "elements path = [e]" "e \<noteq> cstr ''.''" "e \<noteq> cstr ''..''" and w: "walkable s ROOTINO [e]" "is_dir s ROOTINO"
    and none: "child s ROOTINO e = None" and once: "unique_names (disk_dir s ROOTINO) (ROOTDEV, ROOTINO)"
    and fr: "free_inums s \<noteq> {}" "i = of_nat (Min (free_inums s))" "inodes s (ROOTDEV, i) = None"
    and nn: "unat (sb_ninodes s) \<le> 65536" and fb: "2 \<le> card (free_blocks s)"
    and cap: "unat (di_size (disk_dinode s ROOTINO)) + 16 \<le> MAX_FILE * BSIZE"
    and om: "\<not> flag omode O_TRUNC" and sl: "free_file s = Some f"
  shows "\<exists>t u v. op_create path omode s = Inr ((0, Some f), t) \<and> op_release (Some f) t = Inr (0, u) \<and>
    op_unlink path u = Inr (0, v) \<and> calm v \<and> child t ROOTINO e = Some i \<and>
    (\<forall>nm. legal_name nm \<longrightarrow> child v ROOTINO nm = child s ROOTINO nm) \<and> free_inums v = free_inums s \<and>
    free_blocks v \<subseteq> free_blocks s \<and>
    (\<forall>j. inum_ok s j \<and> j \<noteq> ROOTINO \<and> j \<noteq> i \<longrightarrow> disk_dinode v j = disk_dinode s j) \<and>
    (\<forall>b. data_block s (unat b) \<and> used s (unat b) \<and> b \<notin> owned (disk_dir s ROOTINO) (ROOTDEV, ROOTINO) \<longrightarrow>
      used v (unat b) \<and> view v (ROOTDEV, b) = view s (ROOTDEV, b))"
proof -
  let ?k = "(ROOTDEV, ROOTINO)" and ?q = "(ROOTDEV, i)" and ?f = "fresh_dinode T_FILE 0 0"
  obtain t u where tu: "op_create path omode s = Inr ((0, Some f), t)" "op_release (Some f) t = Inr (0, u)" "calm u"
    and ch: "child t ROOTINO e = Some i" and ru: "rebound ROOTINO e (Some i) i {} s u"
    and eu: "log_dev u = ROOTDEV" "inum_ok u = inum_ok s" "data_block u = data_block s" "sb_size u = sb_size s"
      "free_blocks u \<subseteq> free_blocks s" "disk_dinode u i = ?f" "inodes u ?q = None"
    and wu: "walkable u ROOTINO [e]" "walk True u ROOTINO [e] = Some ROOTINO" "unique_names (disk_dir u ROOTINO) ?k"
    and em: "file_ok ?q (disk_dir u i)" "owned (disk_dir u i) ?q = {}"
    using create_close[OF c ld o p e(1) w none once fr nn fb cap om sl] by (elim exE conjE)
  have ru': "child u ROOTINO e = Some i" "owned (disk_dir u ROOTINO) ?k - owned (disk_dir s ROOTINO) ?k \<subseteq> of_nat ` free_blocks s"
    using ru ld by (simp_all add: rebound_def)
  have ou: "one_bitmap u" using o eu(4) by (simp add: one_bitmap_def)
  have l1: "e = last (elements path)" by (simp add: e(1))
  have fu: "di_type (disk_dinode u i) \<noteq> T_DIR" "inodes u ?q = None" using eu(6,7) by (simp_all add: fresh_dinode_def)
  have ap: "owned (disk_dir u ROOTINO) ?k \<inter> owned (disk_dir u i) ?q = {}" using em(2) by simp
  have nl: "di_nlink ?f = 1" by (simp add: fresh_dinode_def)
  obtain v where v: "op_unlink path u = Inr (0, v)" "calm v" "rebound ROOTINO e None i {} u v"
    "di_type (disk_dinode v i) = 0" "free_blocks v = free_blocks u" "log_dev v = log_dev u" "inum_ok v = inum_ok u"
    using op_unlink_file[OF tu(3) eu(1) ou p wu(1,2)[folded e(1)] l1 ru'(1) e(2,3) wu(3) fu em(1) ap eu(6)[symmetric] refl] em(2) nl
    by (auto simp: e(1))
  have rv: "child v ROOTINO e = None" "\<And>nm. legal_name nm \<Longrightarrow> nm \<noteq> e \<Longrightarrow> child v ROOTINO nm = child u ROOTINO nm"
    "\<And>j. inum_ok u j \<Longrightarrow> j \<noteq> i \<Longrightarrow> j \<noteq> ROOTINO \<Longrightarrow> disk_dinode v j = disk_dinode u j" "dir_ok ?k (disk_dir v ROOTINO)"
    "\<And>b. data_block u (unat b) \<Longrightarrow> used u (unat b) \<Longrightarrow> b \<notin> owned (disk_dir u ROOTINO) ?k \<Longrightarrow>
      used v (unat b) \<and> view v (ROOTDEV, b) = view u (ROOTDEV, b)"
    using v(3) eu(1) by (simp_all add: rebound_def)
  have rs: "\<And>nm. legal_name nm \<Longrightarrow> nm \<noteq> e \<Longrightarrow> child u ROOTINO nm = child s ROOTINO nm"
    "\<And>j. inum_ok s j \<Longrightarrow> j \<noteq> i \<Longrightarrow> j \<noteq> ROOTINO \<Longrightarrow> disk_dinode u j = disk_dinode s j"
    "\<And>b. data_block s (unat b) \<Longrightarrow> used s (unat b) \<Longrightarrow> b \<notin> owned (disk_dir s ROOTINO) ?k \<Longrightarrow>
      used u (unat b) \<and> view u (ROOTDEV, b) = view s (ROOTDEV, b)"
    using ru ld by (simp_all add: rebound_def)
  have nm: "child v ROOTINO nm = child s ROOTINO nm" if "legal_name nm" for nm
    using rv(1) rv(2)[of nm] rs(1)[of nm] none that by (cases "nm = e") simp_all
  have dj: "disk_dinode v j = disk_dinode s j" if "inum_ok s j" "j \<noteq> ROOTINO" "j \<noteq> i" for j
    using rv(3)[of j] rs(2)[of j] that eu(2) by simp
  have bl: "used v (unat b) \<and> view v (ROOTDEV, b) = view s (ROOTDEV, b)"
    if b: "data_block s (unat b)" "used s (unat b)" "b \<notin> owned (disk_dir s ROOTINO) ?k" for b
  proof -
    have "b \<notin> of_nat ` free_blocks s"
    proof
      assume "b \<in> of_nat ` free_blocks s"
      then obtain x where x: "x \<in> free_blocks s" "b = of_nat x" by blast
      have g: "fs_geom s" using c by (simp add: calm_def idle_def fs_inv_def)
      show False using free_block_number[OF g x(1)] free_not_used[OF x(1)] x(2) b(2) by simp
    qed
    then have "b \<notin> owned (disk_dir u ROOTINO) ?k" using ru'(2) b(3) by blast
    then show ?thesis using rv(5)[of b] rs(3)[of b] b eu(3) by simp
  qed
  have io: "inum_ok v = inum_ok s" using v(7) eu(2) by simp
  have ty: "di_type (disk_dinode v j) = 0 \<longleftrightarrow> di_type (disk_dinode s j) = 0" if "inum_ok s j" for j
  proof -
    have "di_type (disk_dinode s i) = 0"
    proof -
      have "Min (free_inums s) \<in> free_inums s" using Min_in[OF _ fr(1)] by (simp add: free_inums_def)
      then show ?thesis using fr(2) by (simp add: free_inums_def)
    qed
    moreover have "the_dinode (disk_dir v ROOTINO) ?k = disk_dinode v ROOTINO"
      using eu(1) v(6) by (simp add: disk_dir_def the_dinode_def loaded_def)
    then have "di_type (disk_dinode v ROOTINO) = T_DIR" using rv(4) by (simp add: dir_ok_def)
    ultimately show ?thesis using dj[OF that] v(4) w(2) by (cases "j = i"; cases "j = ROOTINO") (simp_all add: is_dir_def)
  qed
  have fi: "free_inums v = free_inums s" by (rule free_inums_cong[OF io ty])
  have "free_blocks v \<subseteq> free_blocks s" using v(5) eu(5) by simp
  then show ?thesis using tu(1,2) v(1,2) nm fi dj bl ch by blast
qed

section \<open>A name that cannot be removed\<close>

lemma ticked_coherent [simp]: "coherent (ticked s) = coherent s" "cached_exist (ticked s) = cached_exist s"
  by (simp_all add: coherent_def cached_exist_def)

lemma ticked_put: "drop_inode k (ticked s) = ticked (drop_inode k s)" "put_inode k n (ticked s) = ticked (put_inode k n s)"
  by (simp_all add: ticked_def drop_inode_def put_inode_def)

lemma op_unlink_nothing:
  fixes s :: "'a inode_cache_scheme"
  assumes c: "calm s" and ld: "log_dev s = ROOTDEV" and p: "path \<noteq> []" "hd path = slash"
    and w: "walkable s ROOTINO (elements path)" "walk True s ROOTINO (elements path) = Some d"
    and e: "last (elements path) \<in> {cstr ''.'', cstr ''..''} \<or> child s d (last (elements path)) = None"
  shows "\<exists>t. op_unlink path s = Inr (-1, t) \<and> calm t \<and> same_disk s t \<and> dom (inodes t) = dom (inodes s) \<and>
    unheld_unlocks t = Suc (unheld_unlocks s)"
proof -
  let ?k = "(ROOTDEV, d)" and ?e = "last (elements path)" and ?dd = "disk_dinode (begun s) d" and ?B = "begun s"
  note b = calm_begin[OF c]
  note B = begun_tree[OF c ld w(1)]
  note wp = walk_parent[OF w]
  have wB: "walk True ?B ROOTINO (elements path) = Some d" using B(7)[of True] w(2) by simp
  note wpB = walk_parent[OF B(6) wB]
  obtain u x where n: "inode_name_parent path ?B = Inr ((Some ?k, ?e @ 0 # x), put_inode ?k (opened ?dd (rc u ?k + 1)) u)"
    "warm ?B u" "coherent u" "fs_inv u" "log_dev u = ROOTDEV"
    by (rule parent_unlocked[OF b(4) B(3,4) p B(6) wB])
  note ws = warm_same[OF n(2)]
  let ?r = "rc u ?k + 1"
  let ?U = "put_inode ?k (opened ?dd ?r) u"
  have nu: "node_ok u d" using wpB ws(8) by simp
  have k: "?k = (log_dev u, d)" using n(5) by simp
  obtain t' where t': "warm u t'" "inodes u ?k = None \<longrightarrow> t' = u"
    "inodes u ?k \<noteq> None \<longrightarrow> t' = put_inode ?k (opened ?dd (?r - 1)) u"
    using unlock_put_warm[OF n(3) nu, of ?r] n(5) ws(3) by (auto simp: opened_def)
  have r: "?r \<noteq> 0" "?r = 1 \<longleftrightarrow> inodes u ?k = None" using rc_succ[OF n(3), of ?k] by simp_all
  have nl: "di_nlink ?dd \<noteq> 0" using wpB by (simp add: node_ok_def)
  have ul: "inode_unlock_put ?k ?U = Inr ((), ticked t')"
  proof -
    have "inode_unlock_put ?k ?U = Inr ((), if ?r = 1 then drop_inode ?k (ticked ?U) else put_inode ?k (opened ?dd (?r - 1)) (ticked ?U))"
      by (rule unlock_put_unheld[OF _ r(1) nl]) simp
    then show ?thesis using r(2) t'(2,3) by (cases "inodes u ?k") (simp_all add: ticked_put drop_put_inode)
  qed
  have wB': "warm ?B t'" using warm_trans[OF t'(1) n(2)] .
  have tT: "in_txn (ticked t')" using warm_in_txn[OF wB'] b(2) by simp
  obtain t im tr bl h where e1: "end_op (ticked t') = Inr ((), t)" "idle t" "same_disk (ticked t') t"
    "inodes t = inodes (ticked t')" "t = settle im tr bl h (ticked t')"
    by (rule end_calm[OF tT])
  have i: "fs_inv (ticked t')" "jinv {} t" using tT e1(2) by (simp_all add: in_txn_def idle_def fs_inv_def)
  have "calm t" unfolding calm_def
    using e1(2) same_disk_coherent[OF e1(3) i e1(4)] warm_coherent[OF wB' b(4)] warm_cached_exist[OF wB' b(5)] by simp
  moreover have "same_disk t' (ticked t')" by simp
  then have "same_disk s t"
    using same_disk_trans[OF b(3) same_disk_trans[OF same_disk_warm[OF wB'] same_disk_trans[OF _ e1(3)]]] by blast
  moreover obtain m where m: "t' = ?B\<lparr>inodes := m\<rparr>" "dom m = dom (inodes ?B)" using warm_inodes[OF wB'] by blast
  moreover have "dom (inodes t) = dom (inodes s)" using m e1(4) b(6) by simp
  moreover have "unheld_unlocks t = Suc (unheld_unlocks s)" using m(1) by (simp add: e1(5) settle_def begun_def)
  moreover have "op_unlink path s = Inr (-1, t)"
  proof (cases "?e \<in> {cstr ''.'', cstr ''..''}")
    case True
    then have "dot_name (?e @ 0 # x) ?U = Inr (True, ?U)" using dot_name_run[of ?e x ?U] wp by auto
    then show ?thesis using b(1) n(1) ul e1(1) by (simp add: op_unlink_def do_unlink_def bnd_def)
  next
    case False
    then have dn: "dot_name (?e @ 0 # x) ?U = Inr (False, ?U)" using dot_name_run[of ?e x ?U] wp by auto
    have ch: "child ?B d ?e = None" using False e B(8)[of d] wp by simp
    have lU: "view ?U = view ?B" "fs_inv ?U = fs_inv ?B" "used ?U = used ?B" "data_block ?U = data_block ?B" "log_dev ?U = log_dev ?B"
    proof -
      obtain m where "u = ?B\<lparr>inodes := m\<rparr>" using warm_inodes[OF n(2)] by blast
      then show "view ?U = view ?B" "fs_inv ?U = fs_inv ?B" "used ?U = used ?B" "data_block ?U = data_block ?B"
        "log_dev ?U = log_dev ?B" by simp_all
    qed
    have U: "dir_ok ?k ?U" "map_option (\<lambda>(j, _). ucast j) (dir_lookup ?U ?k ?e) = (None :: u32 option)"
      using over_disk(1,4)[OF lU, of d "opened ?dd ?r"] wpB ch B(4) by (simp_all add: opened_def)
    then have "dirlookup ?k (?e @ 0 # x) ?U = Inr (None, ?U)"
      using dirlookup_run[OF U(1), of ?e x] wp by simp
    then show ?thesis using b(1) n(1) ul e1(1) dn by (simp add: op_unlink_def do_unlink_def bnd_def)
  qed
  ultimately show ?thesis by blast
qed

section \<open>Properties\<close>

text \<open>
  C34: \<open>op_unlink\<close> of the name of a file or device that no one has open and that no name but this one of the directory
  carries. The name is gone and every other name is as before. With the last link the inode is free again and its
  blocks and indirect block are returned; otherwise only its link count on disk is one lower. No block is
  allocated, every other inode and every block of other files stay as they were, the log is empty and the image
  holds the result. The call unlocks the parent directory, which it never locked.
\<close>

theorem op_unlink_spec:
  fixes s :: "'a inode_cache_scheme"
  assumes "calm s" "log_dev s = ROOTDEV" "one_bitmap s" "path \<noteq> []" "hd path = slash"
    and "walkable s ROOTINO (elements path)" "walk True s ROOTINO (elements path) = Some d"
    and "e = last (elements path)" "child s d e = Some j" "e \<noteq> cstr ''.''" "e \<noteq> cstr ''..''"
    and "unique_names (disk_dir s d) (ROOTDEV, d)"
    and "di_type (disk_dinode s j) \<noteq> T_DIR" "inodes s (ROOTDEV, j) = None" "file_ok (ROOTDEV, j) (disk_dir s j)"
    and "owned (disk_dir s d) (ROOTDEV, d) \<inter> owned (disk_dir s j) (ROOTDEV, j) = {}"
    and "di = disk_dinode s j" "bs = owned (disk_dir s j) (ROOTDEV, j)"
  shows "\<exists>t. op_unlink path s = Inr (0, t) \<and> calm t \<and> unheld_unlocks t = Suc (unheld_unlocks s) \<and>
    rebound d e None j (if di_nlink di = 1 then bs else {}) s t \<and>
    (if di_nlink di = 1 then di_type (disk_dinode t j) = 0 \<and> free_blocks t = free_blocks s \<union> unat ` bs
     else disk_dinode t j = di\<lparr>di_nlink := di_nlink di - 1\<rparr> \<and> free_blocks t = free_blocks s) \<and>
    (\<forall>b. home_block t b \<longrightarrow> mmap_base t (unat b) = view t (log_dev t, b))"
proof -
  obtain t where "op_unlink path s = Inr (0, t) \<and> calm t \<and> unheld_unlocks t = Suc (unheld_unlocks s) \<and>
    rebound d e None j (if di_nlink di = 1 then bs else {}) s t \<and>
    (if di_nlink di = 1 then di_type (disk_dinode t j) = 0 \<and> free_blocks t = free_blocks s \<union> unat ` bs
     else disk_dinode t j = di\<lparr>di_nlink := di_nlink di - 1\<rparr> \<and> free_blocks t = free_blocks s)"
    using op_unlink_file[OF assms] by blast
  moreover from this have "\<forall>b. home_block t b \<longrightarrow> mmap_base t (unat b) = view t (log_dev t, b)"
    using idle_image[of t] by (simp add: calm_def)
  ultimately show ?thesis by blast
qed

text \<open>The file \<open>/x\<close>, created on the image of \<open>mkfs\<close> and closed.\<close>

lemma boot_x_closed:
  obtains s t u :: fs_state where "op_init (main_state boot_img 1024000 []) = Inr ((), s)"
    "op_create (cstr ''/x'') O_WRONLY s = Inr ((0, Some 0), t)" "op_release (Some 0) t = Inr (0, u)" "calm u"
    "one_bitmap u" "log_dev u = ROOTDEV" "child u 1 (cstr ''x'') = Some 2" "walkable u 1 [cstr ''x'']"
    "walk True u 1 [cstr ''x''] = Some 1" "unique_names (disk_dir u 1) (1, 1)" "disk_dinode u 2 = fresh_dinode T_FILE 0 0"
    "inodes u (1, 2) = None" "file_ok (1, 2) (disk_dir u 2)" "owned (disk_dir u 2) (1, 2) = {}"
proof -
  obtain tr bs where l: "length bs = LOG_SIZE"
    and r: "op_init (main_state boot_img 1024000 []) = Inr ((), boot_state [] tr bs)" using boot_run by blast
  let ?s = "boot_state [] tr bs"
  have e: "elements (cstr ''/x'') = [cstr ''x'']" by (simp add: cstr_def elements_def)
  have p: "cstr ''/x'' \<noteq> []" "hd (cstr ''/x'') = slash" by (simp_all add: cstr_def)
  note w = boot_new_name[OF l, of "[]" tr]
  have d: "is_dir ?s 1" using w(7) by (simp add: is_dir_def root_dinode_def)
  have m: "2 = (of_nat (Min (free_inums ?s)) :: u32)" "free_inums ?s \<noteq> {}"
  proof -
    have "Min {2..<200 :: nat} = 2" by (rule Min_eqI) simp_all
    then show "2 = (of_nat (Min (free_inums ?s)) :: u32)" unfolding boot_free_inums by simp
    show "free_inums ?s \<noteq> {}" unfolding boot_free_inums by simp
  qed
  have fb: "2 \<le> card (free_blocks ?s)" unfolding boot_free by simp
  have cap: "unat (di_size (disk_dinode ?s 1)) + 16 \<le> MAX_FILE * BSIZE" unfolding w(7) by (simp add: root_dinode_def)
  have om: "\<not> flag O_WRONLY O_TRUNC" by (simp add: flag_def)
  have ob: "one_bitmap ?s" by (simp add: one_bitmap_def)
  obtain t u where tu: "op_create (cstr ''/x'') O_WRONLY ?s = Inr ((0, Some 0), t)" "op_release (Some 0) t = Inr (0, u)"
    "calm u" "rebound 1 (cstr ''x'') (Some 2) 2 {} ?s u" "disk_dinode u 2 = fresh_dinode T_FILE 0 0"
    "inodes u (1, 2) = None" "log_dev u = 1" "sb_size u = sb_size ?s" "walkable u 1 [cstr ''x'']"
    "walk True u 1 [cstr ''x''] = Some 1" "unique_names (disk_dir u 1) (1, 1)" "file_ok (1, 2) (disk_dir u 2)"
    "owned (disk_dir u 2) (1, 2) = {}"
    using create_close[OF boot_calm[OF l] _ ob p e w(1) d w(3) boot_unique[OF l] m(2,1) _ _ fb cap om boot_free_file]
    by auto
  moreover have "one_bitmap u" using ob tu(8) by (simp add: one_bitmap_def)
  moreover have "child u 1 (cstr ''x'') = Some 2" using tu(4) by (simp add: rebound_def)
  ultimately show ?thesis using that[OF r] by blast
qed

theorem op_unlink_spec_witness:
  "\<exists>s t u v :: fs_state. op_init (main_state boot_img 1024000 []) = Inr ((), s) \<and>
     op_create (cstr ''/x'') O_WRONLY s = Inr ((0, Some 0), t) \<and> op_release (Some 0) t = Inr (0, u) \<and>
     child u 1 (cstr ''x'') = Some 2 \<and> op_unlink (cstr ''/x'') u = Inr (0, v) \<and> child v 1 (cstr ''x'') = None \<and>
     di_type (disk_dinode v 2) = 0"
proof -
  obtain s t u :: fs_state where r: "op_init (main_state boot_img 1024000 []) = Inr ((), s)"
    "op_create (cstr ''/x'') O_WRONLY s = Inr ((0, Some 0), t)" "op_release (Some 0) t = Inr (0, u)"
    and u: "calm u" "one_bitmap u" "log_dev u = ROOTDEV" "child u 1 (cstr ''x'') = Some 2" "walkable u 1 [cstr ''x'']"
    "walk True u 1 [cstr ''x''] = Some 1" "unique_names (disk_dir u 1) (1, 1)" "disk_dinode u 2 = fresh_dinode T_FILE 0 0"
    "inodes u (1, 2) = None" "file_ok (1, 2) (disk_dir u 2)" "owned (disk_dir u 2) (1, 2) = {}"
    by (rule boot_x_closed)
  have e: "elements (cstr ''/x'') = [cstr ''x'']" by (simp add: cstr_def elements_def)
  have p: "cstr ''/x'' \<noteq> []" "hd (cstr ''/x'') = slash" "cstr ''x'' \<noteq> cstr ''.''" "cstr ''x'' \<noteq> cstr ''..''"
    by (simp_all add: cstr_def)
  have l: "cstr ''x'' = last (elements (cstr ''/x''))" by (simp add: e)
  have f: "di_type (disk_dinode u 2) \<noteq> T_DIR" "di_nlink (fresh_dinode T_FILE 0 0) = 1" by (simp_all add: u(8) fresh_dinode_def)
  have a: "owned (disk_dir u 1) (1, 1) \<inter> owned (disk_dir u 2) (1, 2) = {}" by (simp add: u(11))
  have "\<exists>v. op_unlink (cstr ''/x'') u = Inr (0, v) \<and> child v 1 (cstr ''x'') = None \<and> di_type (disk_dinode v 2) = 0"
    using op_unlink_spec[OF u(1,3,2) p(1,2) u(5,6)[folded e] l u(4) p(3,4) u(7) f(1) u(9,10) a refl refl] f(2)
    unfolding u(8) rebound_def by auto
  then show ?thesis using r u(4) by blast
qed

text \<open>
  C37: \<open>op_unlink\<close> of \<open>.\<close>, of \<open>..\<close> or of a name that the directory does not have returns \<open>-1\<close> and removes nothing:
  the file system is the same block for block, the log is empty, and the same inodes are cached. It unlocks
  the parent directory all the same.
\<close>

theorem op_unlink_refused:
  fixes s :: "'a inode_cache_scheme"
  assumes "calm s" "log_dev s = ROOTDEV" "path \<noteq> []" "hd path = slash"
    and "walkable s ROOTINO (elements path)" "walk True s ROOTINO (elements path) = Some d"
    and "last (elements path) \<in> {cstr ''.'', cstr ''..''} \<or> child s d (last (elements path)) = None"
  shows "\<exists>t. op_unlink path s = Inr (-1, t) \<and> calm t \<and> same_disk s t \<and> dom (inodes t) = dom (inodes s) \<and>
    unheld_unlocks t = Suc (unheld_unlocks s)"
  by (rule op_unlink_nothing[OF assms])

theorem op_unlink_refused_witness:
  "\<exists>s t :: fs_state. op_init (main_state boot_img 1024000 []) = Inr ((), s) \<and>
     op_unlink (cstr ''/..'') s = Inr (-1, t) \<and> same_disk s t \<and> unheld_unlocks t = Suc (unheld_unlocks s)"
proof -
  obtain tr bs where l: "length bs = LOG_SIZE"
    and r: "op_init (main_state boot_img 1024000 []) = Inr ((), boot_state [] tr bs)" using boot_run by blast
  let ?s = "boot_state [] tr bs"
  have e: "elements (cstr ''/..'') = [cstr ''..'']" by (simp add: cstr_def elements_def)
  have p: "cstr ''/..'' \<noteq> []" "hd (cstr ''/..'') = slash" by (simp_all add: cstr_def)
  note w = boot_new_name[OF l, of "[]" tr]
  have "\<exists>t. op_unlink (cstr ''/..'') ?s = Inr (-1, t) \<and> calm t \<and> same_disk ?s t \<and> dom (inodes t) = dom (inodes ?s) \<and>
    unheld_unlocks t = Suc (unheld_unlocks ?s)"
    by (rule op_unlink_refused[OF boot_calm[OF l] _ p])
      (use w in \<open>simp_all add: e del: walk.simps walkable.simps\<close>)
  then show ?thesis using r by blast
qed



end
