(* ===== verification/Requests.thy ===== *)
theory Requests
  imports Lookups
begin

text \<open>
  Reading and writing through a handle: \<open>src/op_read.cxx\<close> and \<open>src/op_write.cxx\<close> on top of \<open>OFile::read\<close> and
  \<open>OFile::write\<close> of \<open>src/File.cxx\<close>.
\<close>

section \<open>Reading\<close>

lemma to_u32_small: "n < 2 ^ 32 \<Longrightarrow> to_u32 n = n"
  by (simp add: to_u32_def unat_of_nat)

lemma to_int_small: "n < 2 ^ 31 \<Longrightarrow> to_int n = int n"
  by (simp add: to_int_def signed_of_nat signed_take_bit_int_eq_self)

lemma inode_fsize: "inodes s k = Some n \<Longrightarrow> unat (di_size (i_dinode n)) = fsize s k"
  by (simp add: fsize_def the_dinode_def)

text \<open>Reading between lock and unlock: only the offset of the open file changes.\<close>

lemma OFile_read_run:
  assumes ok: "file_ok k s" "dense k s" "open_inode k s"
    and f: "f < length (files s)" "f_type (files s ! f) = FD_INODE" "f_ip (files s ! f) = k" "f_readable (files s ! f)"
    and bs: "bs = map (fcontent s k) [f_off (files s ! f)..<min (f_off (files s ! f) + n) (fsize s k)]"
  shows "OFile_read f n s = Inr ((int (length bs), bs),
    s\<lparr>files := (files s)[f := (files s ! f)\<lparr>f_off := f_off (files s ! f) + length bs\<rparr>]\<rparr>)"
proof -
  let ?fl = "files s ! f"
  let ?F = "(files s)[f := ?fl\<lparr>f_off := f_off ?fl + length bs\<rparr>]"
  obtain m where m: "inodes s k = Some m" "i_ref m \<ge> 1" "\<not> i_locked m" "i_valid m"
    using ok(3) unfolding open_inode_def by blast
  let ?m = "m\<lparr>i_locked := True\<rparr>"
  let ?L = "put_inode k ?m s"
  have lk: "INode_lock k s = Inr ((), ?L)" using INode_lock_cached[OF m] .
  have td: "the_dinode ?L k = the_dinode s k" using m(1) by (simp add: the_dinode_def)
  have "di_addrs (i_dinode ?m) = di_addrs (the_dinode s k)" using m(1) by (simp add: the_dinode_def)
  note p = file_ok_put_inode[OF ok(1) this]
  have d: "dense k ?L" using ok(2) td by (simp add: dense_def fsize_def p(2))
  have rd: "INode_read k (f_off ?fl) n ?L = Inr (bs, ?L)"
    using INode_read_run[OF p(1) d, of "f_off ?fl" n] td by (simp add: bs p(4) fsize_def)
  have fL: "files ?L = files s" "files (?L\<lparr>files := G\<rparr>) = G" for G by (simp_all add: put_inode_files)
  have of: "when_do (length bs > 0) (mod_file f (\<lambda>f. f\<lparr>f_off := f_off f + length bs\<rparr>)) ?L = Inr ((), ?L\<lparr>files := ?F\<rparr>)"
  proof (cases "bs = []")
    case True
    then have "?F = files ?L" using f(1) fL(1) by simp
    then have "?L\<lparr>files := ?F\<rparr> = ?L" by simp
    with True show ?thesis by simp
  next
    case False
    then show ?thesis using f(1) by (simp add: mod_file_def deref_file_def bnd_def fL)
  qed
  have ul: "INode_unlock k (?L\<lparr>files := ?F\<rparr>) = Inr ((), s\<lparr>files := ?F\<rparr>)"
  proof -
    have "inodes (?L\<lparr>files := ?F\<rparr>) k = Some ?m" by simp
    from INode_unlock_run[OF this] m
    have "INode_unlock k (?L\<lparr>files := ?F\<rparr>) = Inr ((), put_inode k (?m\<lparr>i_locked := False\<rparr>) (?L\<lparr>files := ?F\<rparr>))" by simp
    also have "?m\<lparr>i_locked := False\<rparr> = m" using m(3) by (cases m) simp
    also have "put_inode k m (?L\<lparr>files := ?F\<rparr>) = s\<lparr>files := ?F\<rparr>"
      using m(1) by (simp add: put_inode_def fun_upd_idem)
    finally show ?thesis .
  qed
  show ?thesis using f lk rd of ul by (simp add: OFile_read_def bnd_def deref_file_def)
qed

lemma op_read_run:
  assumes ok: "file_ok k s" "dense k s" "open_inode k s"
    and f: "f < length (files s)" "f_type (files s ! f) = FD_INODE" "f_ip (files s ! f) = k" "f_readable (files s ! f)"
    and off: "off \<le> fsize s k" and bs: "bs = map (fcontent s k) [off..<min (off + to_u32 sz) (fsize s k)]"
  shows "op_read (Some f) sz off s = Inr ((to_int sz, bs), s\<lparr>files := (files s)[f := (files s ! f)\<lparr>f_off := off + length bs\<rparr>]\<rparr>)"
proof -
  obtain m where m: "inodes s k = Some m" using ok(3) unfolding open_inode_def by blast
  let ?s = "s\<lparr>files := (files s)[f := (files s ! f)\<lparr>f_off := off\<rparr>]\<rparr>"
  have j: "jinv {} s" using ok(1) by (simp add: file_ok_def fs_inv_def)
  note sf = same_files_file[OF files_update_lower(5) ok(1), of "(files s)[f := (files s ! f)\<lparr>f_off := off\<rparr>]"]
  have fs: "fsize ?s k = fsize s k" by (simp add: fsize_def the_dinode_def)
  have sl: "fcontent ?s k = fcontent s k" "slots ?s k = slots s k" "file_ok k ?s" using sf j by simp_all
  have ok': "dense k ?s" "open_inode k ?s" using ok sl by (simp_all add: dense_def fs open_inode_def)
  have rd: "OFile_read f (to_u32 sz) ?s = Inr ((int (length bs), bs), s\<lparr>files := (files s)[f := (files s ! f)\<lparr>f_off := off + length bs\<rparr>]\<rparr>)"
    using OFile_read_run[OF sl(3) ok', of f bs "to_u32 sz"] f by (simp add: bs sl(1) fs)
  show ?thesis using f m off rd inode_fsize[OF m]
    by (simp add: op_read_def bnd_def deref_file_def mod_file_def dinode_run[OF m])
qed

section \<open>Properties\<close>

text \<open>
  C27: \<open>op_read\<close> on the handle of a regular file delivers exactly the bytes from the requested offset to the
  end of the request or of the file, whichever comes first, and changes nothing but the offset of the open
  file: no block, no inode and no lock. The code it returns is not the number of these bytes but the size that was
  asked for. Behind the end of the file it returns 0 and no bytes.
\<close>

theorem op_read_spec:
  fixes s :: "'a fs_state_scheme"
  assumes "file_ok k s" "dense k s" "open_inode k s"
    and "f < length (files s)" "f_type (files s ! f) = FD_INODE" "f_ip (files s ! f) = k" "f_readable (files s ! f)"
    and "sz < 2 ^ 31"
  shows "op_read (Some f) sz off s = (if fsize s k < off then Inr ((0, []), s)
    else Inr ((int sz, map (fcontent s k) [off..<min (off + sz) (fsize s k)]),
      s\<lparr>files := (files s)[f := (files s ! f)\<lparr>f_off := min (off + sz) (fsize s k)\<rparr>]\<rparr>))"
proof (cases "fsize s k < off")
  case True
  obtain m where m: "inodes s k = Some m" using assms(3) unfolding open_inode_def by blast
  show ?thesis using True assms(4-6) inode_fsize[OF m]
    by (simp add: op_read_def bnd_def deref_file_def dinode_run[OF m])
next
  case False
  then have "off + (min (off + sz) (fsize s k) - off) = min (off + sz) (fsize s k)" by simp
  with False show ?thesis using op_read_run[OF assms(1-7) _ refl, of off sz] assms(8)
    by (simp add: to_int_small to_u32_small)
qed

theorem op_read_spec_witness:
  "\<exists>s :: fs_state. file_ok (1, 1) s \<and> fsize s (1, 1) = 0 \<and> op_read (Some 0) 512 0 s = Inr ((512, []), s)"
proof -
  obtain s :: fs_state where s: "file_ok (1, 1) s" "open_inode (1, 1) s" "files s = [demo_ofile]" "fsize s (1, 1) = 0"
    using demo_idle by blast
  have d: "dense (1, 1) s" using s(4) by (simp add: dense_def)
  have "demo_ofile\<lparr>f_off := 0\<rparr> = demo_ofile" by (simp add: demo_ofile_def)
  moreover have "s\<lparr>files := files s\<rparr> = s" by simp
  ultimately have "op_read (Some 0) 512 0 s = Inr ((512, []), s)"
    using op_read_spec[OF s(1) d s(2), of 0 512 0] s(3,4) by (simp add: demo_ofile_def)
  with s show ?thesis by blast
qed



end
