(* ===== verification/Handles.thy ===== *)
theory Handles
  imports Creation
begin

text \<open>
  The types of the file table. Every request of FUSE leaves the table of open files alone, opens the free
  slot it returns as a handle, or closes one slot; so in a process that serves requests a slot is either
  free and unreferenced or an open inode or device with one reference, and a handle is an index of the
  table. \<open>shape\<close> is what of the table matters for this; \<open>does R c\<close> relates the shapes before and after \<open>c\<close>.
\<close>

section \<open>Frames of the system calls\<close>

lemma upper_empty_loop [keeps_intros]: "keeps upper (is_dir_empty_loop dp sz off)"
proof (induction "sz - off" arbitrary: off rule: less_induct)
  case less
  show ?case
    by (subst is_dir_empty_loop.simps) (rule keeps_cond; intro keeps_intros less.hyps; simp)
qed

lemma keeps_bool_option [keeps_intros]:
  "keeps p c \<Longrightarrow> keeps p d \<Longrightarrow> keeps p e \<Longrightarrow>
   keeps p (case r of None \<Rightarrow> c | Some True \<Rightarrow> d | Some False \<Rightarrow> e)"
  by (simp split: option.split bool.split)

lemma upper_names [keeps_intros]:
  "keeps upper (dot_name name)" "keeps upper (do_link old new)" "keeps upper (do_unlink path)"
  "keeps upper (same_parent old new)" "keeps upper (different_parent old new)"
proof -
  show d: "keeps upper (dot_name name)" for name
    by (simp add: dot_name_def keeps_def split: option.split bool.split)
  show "keeps upper (do_link old new)" unfolding do_link_def link_undo_def by (intro keeps_intros)
  show "keeps upper (do_unlink path)" unfolding do_unlink_def is_dir_empty_def by (intro keeps_intros d)
  show "keeps upper (same_parent old new)" unfolding same_parent_def by (intro keeps_intros)
  show "keeps upper (different_parent old new)"
    unfolding different_parent_def move_entry_def put_parents_def by (intro keeps_intros)
qed

lemma upper_statfs [keeps_intros]: "keeps upper (statfs_blocks sz b cnt)" "keeps upper (statfs_inodes n x cnt)"
proof -
  show "keeps upper (statfs_blocks sz b cnt)"
  proof (induction "sz - b" arbitrary: b cnt rule: less_induct)
    case less
    show ?case by (subst statfs_blocks.simps) (rule keeps_cond; intro keeps_intros less.hyps; simp)
  qed
  show "keeps upper (statfs_inodes n x cnt)"
  proof (induction "n - x" arbitrary: x cnt rule: less_induct)
    case less
    show ?case by (subst statfs_inodes.simps) (rule keeps_cond; intro keeps_intros less.hyps; simp)
  qed
qed

lemma upper_calls [keeps_intros]:
  "keeps upper (op_mkdir path)" "keeps upper (op_rename old new)" "keeps upper op_statfs" "keeps upper op_flush"
  "keeps upper (do_fillstatbuf ip)"
  unfolding op_mkdir_def op_rename_def op_statfs_def op_flush_def flush_step_def do_fillstatbuf_def
  by (intro keeps_intros)+

section \<open>The shape of the file table\<close>

definition shape :: "'a fs_state_scheme \<Rightarrow> (FdType \<times> u32) list \<times> Device list" where
  "shape s = (map (\<lambda>f. (f_type f, f_ref f)) (files s), dev_table s)"

lemma upper_shape: "keeps upper c \<Longrightarrow> keeps shape c"
proof -
  assume k: "keeps upper c"
  have f: "files t = files s \<and> dev_table t = dev_table s" if "upper t = upper s" for s t :: "'a fs_state_scheme"
    using that by (cases s, cases t) simp
  have "shape t = shape s" if "upper t = upper s" for s t :: "'a fs_state_scheme"
    unfolding shape_def using f[OF that] by simp
  then show "keeps shape c" using k unfolding keeps_def by blast
qed

lemma shape_mod_file:
  assumes "\<And>f. f_type (g f) = f_type f" "\<And>f. f_ref (g f) = f_ref f"
  shows "keeps shape (mod_file i g)"
proof -
  have "map (\<lambda>f. (f_type f, f_ref f)) (fs[i := g (fs ! i)]) = map (\<lambda>f. (f_type f, f_ref f)) fs" for fs
  proof (intro nth_equalityI)
    fix j assume "j < length (map (\<lambda>f. (f_type f, f_ref f)) (fs[i := g (fs ! i)]))"
    then show "map (\<lambda>f. (f_type f, f_ref f)) (fs[i := g (fs ! i)]) ! j = map (\<lambda>f. (f_type f, f_ref f)) fs ! j"
      using assms by (cases "i = j") simp_all
  qed simp
  then show ?thesis by (auto simp: keeps_def mod_file_def deref_file_def bnd_def shape_def)
qed

lemma shape_cells [keeps_intros]:
  "keeps shape (deref_file f)" "keeps shape (on_pipe h c)" "keeps shape (Console_read n)" "keeps shape (Console_write bs)"
  "keeps shape (mod_file i (\<lambda>f. f\<lparr>f_off := o' f\<rparr>))" "keeps shape (mod_file i (open_file ip omode))"
proof -
  show "keeps shape (deref_file f)" by (simp add: keeps_def deref_file_def)
  show "keeps shape (on_pipe h c)" by (auto simp: keeps_def on_pipe_def shape_def split: option.splits sum.splits)
  show "keeps shape (Console_read n)" "keeps shape (Console_write bs)"
    by (auto simp: keeps_def Console_read_def Console_write_def bnd_def shape_def)
  show "keeps shape (mod_file i (\<lambda>f. f\<lparr>f_off := o' f\<rparr>))" "keeps shape (mod_file i (open_file ip omode))"
    by (rule shape_mod_file; simp add: open_file_def)+
qed

lemmas shape_upper [keeps_intros] =
  upper_data[THEN upper_shape] upper_txn[THEN upper_shape] upper_blocks[THEN upper_shape] upper_map[THEN upper_shape]
  upper_ialloc_loop(1)[THEN upper_shape] upper_inodes[THEN upper_shape] upper_unlock_put[THEN upper_shape]
  upper_paths[THEN upper_shape] upper_create[THEN upper_shape] upper_names[THEN upper_shape] upper_calls[THEN upper_shape]

lemma keeps_fdtype [keeps_intros]:
  "keeps p a \<Longrightarrow> keeps p b \<Longrightarrow> keeps p c \<Longrightarrow> keeps p d \<Longrightarrow>
   keeps p (case t of FD_NONE \<Rightarrow> a | FD_PIPE \<Rightarrow> b | FD_INODE \<Rightarrow> c | FD_DEVICE \<Rightarrow> d)"
  by (cases t) simp_all

lemma shape_io [keeps_intros]:
  "keeps shape (OFile_read f n)" "keeps shape (OFile_write_loop f ip addr i)" "keeps shape (OFile_write f addr)"
proof -
  show "keeps shape (OFile_read f n)" unfolding OFile_read_def by (intro keeps_intros)
  show l: "keeps shape (OFile_write_loop f ip addr i)" for i ip
  proof (induction "length addr - i" arbitrary: i rule: less_induct)
    case less
    show ?case
      by (subst OFile_write_loop.simps) (rule keeps_cond; intro keeps_intros less.hyps; simp)
  qed
  show "keeps shape (OFile_write f addr)" unfolding OFile_write_def by (intro keeps_intros l)
qed

section \<open>What a system call does to the table\<close>

type_synonym table_shape = "(FdType \<times> u32) list \<times> Device list"

definition slot_ok :: "FdType \<times> u32 \<Rightarrow> bool" where
  "slot_ok x \<longleftrightarrow> fst x = FD_NONE \<and> snd x = 0 \<or> fst x \<in> {FD_INODE, FD_DEVICE} \<and> snd x = 1"

definition shape_ok :: "table_shape \<Rightarrow> bool" where
  "shape_ok sh \<longleftrightarrow> length (fst sh) = NFILE \<and> length (snd sh) = NDEV \<and> (\<forall>x \<in> set (fst sh). slot_ok x)"

definition opens :: "table_shape \<Rightarrow> nat \<Rightarrow> table_shape \<Rightarrow> bool" where
  "opens sh f sh' \<longleftrightarrow> f < length (fst sh) \<and> fst (fst sh ! f) = FD_NONE \<and>
     (\<exists>ty \<in> {FD_INODE, FD_DEVICE}. sh' = ((fst sh)[f := (ty, 1)], snd sh))"

definition closes :: "table_shape \<Rightarrow> nat \<Rightarrow> table_shape \<Rightarrow> bool" where
  "closes sh f sh' \<longleftrightarrow> f < length (fst sh) \<and> fst (fst sh ! f) \<noteq> FD_NONE \<and> sh' = ((fst sh)[f := (FD_NONE, 0)], snd sh)"

definition may_open :: "table_shape \<Rightarrow> nat option \<Rightarrow> table_shape \<Rightarrow> bool" where
  "may_open sh r sh' \<longleftrightarrow> (case r of None \<Rightarrow> sh' = sh | Some f \<Rightarrow> opens sh f sh')"

lemma shape_length: "length (fst (shape s)) = length (files s)"
  by (simp add: shape_def)

lemma shape_nth: "f < length (files s) \<Longrightarrow> fst (shape s) ! f = (f_type (files s ! f), f_ref (files s ! f))"
  by (simp add: shape_def)

lemma opens_ok: "shape_ok sh \<Longrightarrow> opens sh f sh' \<Longrightarrow> shape_ok sh'"
  unfolding shape_ok_def opens_def by (auto simp: slot_ok_def dest!: subsetD[OF set_update_subset_insert])

lemma closes_ok: "shape_ok sh \<Longrightarrow> closes sh f sh' \<Longrightarrow> shape_ok sh'"
  unfolding shape_ok_def closes_def by (auto simp: slot_ok_def dest!: subsetD[OF set_update_subset_insert])

text \<open>Opening a slot and closing it again.\<close>

lemma opens_closes: "shape_ok sh \<Longrightarrow> opens sh f sh' \<Longrightarrow> closes sh' f sh'' \<Longrightarrow> sh'' = sh"
proof -
  assume ok: "shape_ok sh" and o: "opens sh f sh'" and c: "closes sh' f sh''"
  have f: "f < length (fst sh)" "fst (fst sh ! f) = FD_NONE" using o by (simp_all add: opens_def)
  then have "slot_ok (fst sh ! f)" using ok by (simp add: shape_ok_def)
  then have "fst sh ! f = (FD_NONE, 0)" using f(2) by (cases "fst sh ! f") (simp add: slot_ok_def)
  then have "(fst sh)[f := (FD_NONE, 0)] = fst sh" by (metis list_update_id)
  then show ?thesis using o c by (auto simp: opens_def closes_def prod_eq_iff)
qed

text \<open>\<open>does R c\<close>: whenever \<open>c\<close> returns, the shapes before and after and the result are related by \<open>R\<close>.\<close>

definition does :: "(table_shape \<Rightarrow> 'x \<Rightarrow> table_shape \<Rightarrow> bool) \<Rightarrow> ('x, 'a fs_state_scheme) m \<Rightarrow> bool" where
  "does R c \<longleftrightarrow> (\<forall>s x t. shape_ok (shape s) \<longrightarrow> c s = Inr (x, t) \<longrightarrow> R (shape s) x (shape t))"

lemma doesD: "does R c \<Longrightarrow> shape_ok (shape s) \<Longrightarrow> c s = Inr (x, t) \<Longrightarrow> R (shape s) x (shape t)"
  by (simp add: does_def)

lemma does_ret: "(\<And>sh. R sh x sh) \<Longrightarrow> does R (ret x)"
  by (simp add: does_def)

lemma does_fail: "does R (fail e)"
  by (simp add: does_def)

lemma does_keeps: "keeps shape c \<Longrightarrow> (\<And>x. does R (f x)) \<Longrightarrow> does R (bnd c f)"
  unfolding does_def
proof (intro allI impI)
  fix s y t
  assume k: "keeps shape c" and d: "\<And>x. \<forall>s y t. shape_ok (shape s) \<longrightarrow> f x s = Inr (y, t) \<longrightarrow> R (shape s) y (shape t)"
    and ok: "shape_ok (shape s)" and "bnd c f s = Inr (y, t)"
  then obtain x u where u: "c s = Inr (x, u)" "f x u = Inr (y, t)" by (auto simp: bnd_returns)
  have "shape u = shape s" by (rule keepsD[OF k u(1)])
  then show "R (shape s) y (shape t)" using d[of x] u(2) ok by metis
qed

lemma does_if: "does R c \<Longrightarrow> does R d \<Longrightarrow> does R (if b then c else d)"
  by simp

lemma does_option: "does R c \<Longrightarrow> (\<And>x. does R (f x)) \<Longrightarrow> does R (case r of None \<Rightarrow> c | Some x \<Rightarrow> f x)"
  by (cases r) simp_all

lemma does_prod: "(\<And>x y. does R (f x y)) \<Longrightarrow> does R (case z of (x, y) \<Rightarrow> f x y)"
  by (cases z) simp

lemma does_let: "does R (f x) \<Longrightarrow> does R (Let x f)"
  by simp

lemmas does_intros = does_ret does_fail does_if does_option does_prod does_let does_keeps keeps_intros

lemma mod_file_shape:
  "mod_file f g s = Inr (x, t) \<Longrightarrow> f < length (files s) \<and> t = s\<lparr>files := (files s)[f := g (files s ! f)]\<rparr> \<and>
     shape t = ((fst (shape s))[f := (f_type (g (files s ! f)), f_ref (g (files s ! f)))], snd (shape s))"
  by (auto simp: mod_file_def deref_file_def bnd_def shape_def map_update split: if_splits)

lemma ofile_alloc_shape:
  assumes "ofile_alloc s = Inr (r, t)"
  shows "r = None \<Longrightarrow> t = s"
    "r = Some f \<Longrightarrow> f < length (files s) \<and> f_type (files s ! f) = FD_NONE \<and>
       t = s\<lparr>files := (files s)[f := (files s ! f)\<lparr>f_ref := 1\<rparr>]\<rparr>"
proof -
  let ?r = "find (\<lambda>i. f_type (files s ! i) = FD_NONE) [0..<length (files s)]"
  have a: "(case ?r of None \<Rightarrow> Inr (None, s) | Some i \<Rightarrow> bnd (mod_file i (\<lambda>f. f\<lparr>f_ref := 1\<rparr>)) (\<lambda>_. ret (Some i)) s) = Inr (r, t)"
    using assms by (cases ?r) (simp_all add: ofile_alloc_def bnd_def)
  show "r = None \<Longrightarrow> t = s"
    using a by (cases ?r) (auto simp: bnd_returns)
  show "f < length (files s) \<and> f_type (files s ! f) = FD_NONE \<and>
       t = s\<lparr>files := (files s)[f := (files s ! f)\<lparr>f_ref := 1\<rparr>]\<rparr>" if rf: "r = Some f"
  proof -
    obtain i where i: "?r = Some i" using a rf by (cases ?r) auto
    with a rf have "i = f" "mod_file f (\<lambda>f. f\<lparr>f_ref := 1\<rparr>) s = Inr ((), t)" by (auto simp: bnd_returns)
    then show ?thesis using mod_file_shape[of f _ s "()" t] find_Some_in[OF i] by auto
  qed
qed

text \<open>A slot that was allocated and is given a type.\<close>

lemma does_alloc:
  assumes none: "does (\<lambda>sh x. may_open sh (h x)) c"
    and some: "\<And>f s x t. f < length (files s) \<Longrightarrow> f_ref (files s ! f) = 1 \<Longrightarrow> d f s = Inr (x, t) \<Longrightarrow>
      h x = Some f \<and> (\<exists>ty \<in> {FD_INODE, FD_DEVICE}. shape t = ((fst (shape s))[f := (ty, 1)], snd (shape s)))"
  shows "does (\<lambda>sh x. may_open sh (h x)) (bnd ofile_alloc (\<lambda>r. case r of None \<Rightarrow> c | Some f \<Rightarrow> d f))"
  unfolding does_def
proof (intro allI impI)
  fix s x t
  assume ok: "shape_ok (shape s)"
    and run: "bnd ofile_alloc (\<lambda>r. case r of None \<Rightarrow> c | Some f \<Rightarrow> d f) s = Inr (x, t)"
  then obtain r u where r: "ofile_alloc s = Inr (r, u)" "(case r of None \<Rightarrow> c | Some f \<Rightarrow> d f) u = Inr (x, t)"
    by (auto simp: bnd_returns)
  note al = ofile_alloc_shape[OF r(1)]
  show "may_open (shape s) (h x) (shape t)"
  proof (cases r)
    case None
    then show ?thesis using al(1) r(2) doesD[OF none ok] by simp
  next
    case (Some f)
    note a = al(2)[OF Some]
    have u: "f < length (files u)" "f_ref (files u ! f) = 1" "d f u = Inr (x, t)" using a r(2) Some by auto
    have su: "shape u = ((fst (shape s))[f := (FD_NONE, 1)], snd (shape s))"
      using a by (simp add: shape_def map_update)
    obtain ty where ty: "h x = Some f" "ty \<in> {FD_INODE, FD_DEVICE}" "shape t = ((fst (shape u))[f := (ty, 1)], snd (shape u))"
      using some[OF u] by blast
    have "fst (fst (shape s) ! f) = FD_NONE" using a by (simp add: shape_nth)
    then show ?thesis using ty a unfolding may_open_def opens_def su by (auto simp: shape_length)
  qed
qed

lemma does_inode_open: "does may_open (inode_open ip omode)"
  unfolding inode_open_def
proof (rule does_alloc[where h = "\<lambda>x. x"])
  show "does may_open (bnd (inode_unlock_put ip) (\<lambda>_. bnd end_op (\<lambda>_. ret None)))"
    by (intro does_intros) (simp add: may_open_def)
  fix f and s t :: "'a fs_state_scheme" and x
  assume f: "f < length (files s)" "f_ref (files s ! f) = 1"
    and run: "bnd (dinode ip) (\<lambda>di.
         bnd (mod_file f (\<lambda>fl. if di_type di = T_DEVICE
           then fl\<lparr>f_type := FD_DEVICE, f_major := di_major di\<rparr>
           else fl\<lparr>f_type := FD_INODE, f_off := 0\<rparr>)) (\<lambda>_.
         bnd (mod_file f (open_file ip omode)) (\<lambda>_.
         bnd (when_do (flag omode O_TRUNC \<and> di_type di = T_FILE) (INode_trunc ip)) (\<lambda>_.
         bnd (INode_unlock ip) (\<lambda>_.
         bnd end_op (\<lambda>_.
         ret (Some f))))))) s = Inr (x, t)"
  let ?g = "\<lambda>di fl. if di_type di = T_DEVICE then fl\<lparr>f_type := FD_DEVICE, f_major := di_major di\<rparr>
           else fl\<lparr>f_type := FD_INODE, f_off := 0\<rparr>"
  obtain di u where u: "dinode ip s = Inr (di, s)" "mod_file f (?g di) s = Inr ((), u)"
    "bnd (mod_file f (open_file ip omode)) (\<lambda>_.
         bnd (when_do (flag omode O_TRUNC \<and> di_type di = T_FILE) (INode_trunc ip)) (\<lambda>_.
         bnd (INode_unlock ip) (\<lambda>_. bnd end_op (\<lambda>_. ret (Some f))))) u = Inr (x, t)"
    using run by (auto simp: bnd_returns dinode_def deref_inode_def split: option.splits)
  have "keeps shape (bnd (mod_file f (open_file ip omode)) (\<lambda>_.
         bnd (when_do (flag omode O_TRUNC \<and> di_type di = T_FILE) (INode_trunc ip)) (\<lambda>_.
         bnd (INode_unlock ip) (\<lambda>_. bnd end_op (\<lambda>_. ret (Some f))))))" by (intro keeps_intros)
  from keepsD[OF this u(3)] have "shape t = shape u" .
  moreover have "x = Some f" using u(3) by (auto simp: bnd_returns)
  ultimately show "x = Some f \<and> (\<exists>ty \<in> {FD_INODE, FD_DEVICE}. shape t = ((fst (shape s))[f := (ty, 1)], snd (shape s)))"
    using mod_file_shape[OF u(2)] f(2) by (cases "di_type di = T_DEVICE") auto
qed

lemma does_do_open: "does may_open (do_open path omode)"
  unfolding do_open_def by (intro does_intros does_inode_open) (simp_all add: may_open_def)

lemma does_op_create: "does (\<lambda>sh x. may_open sh (snd x)) (op_create path omode)"
proof -
  let ?d = "\<lambda>ip fp. bnd (mod_file fp (\<lambda>f. open_file ip omode (f\<lparr>f_type := FD_INODE, f_off := 0\<rparr>))) (\<lambda>_.
             bnd (dinode ip) (\<lambda>di.
             bnd (when_do (flag omode O_TRUNC \<and> di_type di = T_FILE) (INode_trunc ip)) (\<lambda>_.
             bnd (INode_unlock ip) (\<lambda>_.
             bnd end_op (\<lambda>_.
             ret (0 :: int, Some fp))))))"
  have some: "r = (0, Some f) \<and> (\<exists>ty \<in> {FD_INODE, FD_DEVICE}. shape t = ((fst (shape s))[f := (ty, 1)], snd (shape s)))"
    if f: "f < length (files s)" "f_ref (files s ! f) = 1" and run: "?d ip f s = Inr (r, t)" for ip f r and s t :: "'a fs_state_scheme"
  proof -
    obtain u where u: "mod_file f (\<lambda>f. open_file ip omode (f\<lparr>f_type := FD_INODE, f_off := 0\<rparr>)) s = Inr ((), u)"
      "bnd (dinode ip) (\<lambda>di.
             bnd (when_do (flag omode O_TRUNC \<and> di_type di = T_FILE) (INode_trunc ip)) (\<lambda>_.
             bnd (INode_unlock ip) (\<lambda>_. bnd end_op (\<lambda>_. ret (0 :: int, Some f))))) u = Inr (r, t)"
      using run by (auto simp: bnd_returns[of "mod_file f g" for f g])
    have "keeps shape (bnd (dinode ip) (\<lambda>di.
             bnd (when_do (flag omode O_TRUNC \<and> di_type di = T_FILE) (INode_trunc ip)) (\<lambda>_.
             bnd (INode_unlock ip) (\<lambda>_. bnd end_op (\<lambda>_. ret (0 :: int, Some f))))))" by (intro keeps_intros)
    from keepsD[OF this u(2)] have "shape t = shape u" .
    moreover have "r = (0, Some f)" using u(2) by (auto simp: bnd_returns)
    moreover have "shape u = ((fst (shape s))[f := (FD_INODE, 1)], snd (shape s))"
      using mod_file_shape[OF u(1), THEN conjunct2, THEN conjunct2] f(2) by (simp add: open_file_def)
    ultimately show ?thesis by simp
  qed
  show ?thesis
    unfolding op_create_def
    by (intro does_intros does_alloc[where h = snd]) (auto simp: may_open_def dest: some)
qed

lemma ofile_close_shape:
  assumes ok: "shape_ok (shape s)" and run: "ofile_close f s = Inr (x, t)"
  shows "closes (shape s) f (shape t)"
proof -
  let ?rest = "\<lambda>ff. case f_type ff of
         FD_PIPE \<Rightarrow> pipe_close_m (f_pipe ff) (f_writable ff)
       | FD_INODE \<Rightarrow> bnd begin_op (\<lambda>_. bnd (inode_put (f_ip ff)) (\<lambda>_. end_op))
       | FD_DEVICE \<Rightarrow> bnd begin_op (\<lambda>_. bnd (inode_put (f_ip ff)) (\<lambda>_. end_op))
       | FD_NONE \<Rightarrow> fail (Assert ''ofile_close'')"
  have f: "f < length (files s)" "\<not> f_ref (files s ! f) < 1"
    using run by (auto simp: ofile_close_def bnd_returns deref_file_def split: if_splits)
  have "slot_ok (fst (shape s) ! f)" using ok f(1) by (auto simp: shape_ok_def shape_length)
  then have sl: "f_ref (files s ! f) = 1" "f_type (files s ! f) \<in> {FD_INODE, FD_DEVICE}"
    using f by (auto simp: slot_ok_def shape_nth)
  let ?u = "s\<lparr>files := (files s)[f := (files s ! f)\<lparr>f_ref := 0, f_type := FD_NONE\<rparr>]\<rparr>"
  have "ofile_close f s = ?rest ((files s ! f)\<lparr>f_ref := 0\<rparr>) ?u"
    using f sl(1) by (simp add: ofile_close_def bnd_def deref_file_def mod_file_def)
  then have r: "?rest ((files s ! f)\<lparr>f_ref := 0\<rparr>) ?u = Inr (x, t)" using run by simp
  have k: "keeps shape (bnd begin_op (\<lambda>_. bnd (inode_put ip) (\<lambda>_. end_op)))" for ip by (intro keeps_intros)
  have "shape t = shape ?u" using r sl(2) keepsD[OF k[of "f_ip (files s ! f)"]] by auto
  then show ?thesis using f(1) sl(2)
    by (auto simp: closes_def shape_length shape_nth) (simp_all add: shape_def map_update)
qed

lemma does_close: "does (\<lambda>sh _ sh'. closes sh f sh') (ofile_close f)"
  unfolding does_def using ofile_close_shape by blast

text \<open>Opening a path, doing something that leaves the table alone, and closing it.\<close>

lemma does_open_close:
  fixes c :: "('x, 'a fs_state_scheme) m"
  assumes n: "keeps shape c" and k: "\<And>f s x t. k f s = Inr (x, t) \<Longrightarrow>
      \<exists>u v :: 'a fs_state_scheme. shape u = shape s \<and> ofile_close f u = Inr ((), v) \<and> shape t = shape v"
  shows "does (\<lambda>sh _ sh'. sh' = sh) (bnd (do_open path om) (\<lambda>r. case r of None \<Rightarrow> c | Some f \<Rightarrow> k f))"
  unfolding does_def
proof (intro allI impI)
  fix s x t
  assume ok: "shape_ok (shape s)" and "bnd (do_open path om) (\<lambda>r. case r of None \<Rightarrow> c | Some f \<Rightarrow> k f) s = Inr (x, t)"
  then obtain r u where r: "do_open path om s = Inr (r, u)" "(case r of None \<Rightarrow> c | Some f \<Rightarrow> k f) u = Inr (x, t)"
    by (auto simp: bnd_returns)
  have o: "may_open (shape s) r (shape u)" by (rule doesD[OF does_do_open ok r(1)])
  show "shape t = shape s"
  proof (cases r)
    case None
    then show ?thesis using o r(2) keepsD[OF n] by (simp add: may_open_def)
  next
    case (Some f)
    then have op: "opens (shape s) f (shape u)" using o by (simp add: may_open_def)
    obtain v w :: "'a fs_state_scheme" where v: "shape v = shape u" "ofile_close f v = Inr ((), w)" "shape t = shape w"
      using k[of f u x t] r(2) Some by auto
    have "shape_ok (shape v)" using opens_ok[OF ok op] v(1) by simp
    from ofile_close_shape[OF this v(2)] have "closes (shape u) f (shape w)" using v(1) by simp
    from opens_closes[OF ok op this] show ?thesis using v(3) by simp
  qed
qed

lemma does_getattr: "does (\<lambda>sh _ sh'. sh' = sh) (op_getattr path)"
  unfolding op_getattr_def
proof (rule does_open_close)
  show "keeps shape (ret (- ENOENT, None))" by (intro keeps_intros)
  fix f and s t :: "'a fs_state_scheme" and x
  assume "bnd (deref_file f) (\<lambda>fl. bnd (do_fillstatbuf (f_ip fl)) (\<lambda>st. bnd (ofile_close f) (\<lambda>_. ret (0, Some st)))) s = Inr (x, t)"
  then obtain fl u0 st u v where r: "deref_file f s = Inr (fl, u0)" "do_fillstatbuf (f_ip fl) u0 = Inr (st, u)"
    "ofile_close f u = Inr ((), v)" "t = v"
    by (auto simp: bnd_returns[of "deref_file g" for g] bnd_returns[of "do_fillstatbuf g" for g] bnd_returns[of "ofile_close g" for g])
  have k: "keeps shape (deref_file f)" "keeps shape (do_fillstatbuf (f_ip fl))" by (intro keeps_intros)+
  have "shape u = shape s" using keepsD[OF k(1) r(1)] keepsD[OF k(2) r(2)] by simp
  then show "\<exists>u v :: 'a fs_state_scheme. shape u = shape s \<and> ofile_close f u = Inr ((), v) \<and> shape t = shape v" using r(3,4) by blast
qed

lemma does_chown: "does (\<lambda>sh _ sh'. sh' = sh) (op_chown path)"
  unfolding op_chown_def
  by (rule does_open_close) (intro keeps_intros, auto simp: bnd_returns)

lemma does_truncate: "does (\<lambda>sh _ sh'. sh' = sh) (op_truncate path len)"
  unfolding op_truncate_def
proof (rule does_open_close)
  show "keeps shape (ret (- ENOENT))" by (intro keeps_intros)
  let ?c = "\<lambda>ip. bnd begin_op (\<lambda>_. bnd (INode_lock ip) (\<lambda>_.
     bnd (set_dinode ip (\<lambda>di. di\<lparr>di_size := (of_nat ((len + BSIZE - 1) div BSIZE) :: u32) * of_nat BSIZE\<rparr>)) (\<lambda>_.
     bnd (INode_update ip) (\<lambda>_. bnd (INode_unlock ip) (\<lambda>_. end_op)))))"
  fix f and s t :: "'a fs_state_scheme" and x :: int
  assume "bnd (deref_file f) (\<lambda>fl.
         let ip = f_ip fl; n_block_new = of_nat ((len + BSIZE - 1) div BSIZE) :: u32 in
         bnd begin_op (\<lambda>_.
         bnd (INode_lock ip) (\<lambda>_.
         bnd (set_dinode ip (\<lambda>di. di\<lparr>di_size := n_block_new * of_nat BSIZE\<rparr>)) (\<lambda>_.
         bnd (INode_update ip) (\<lambda>_.
         bnd (INode_unlock ip) (\<lambda>_.
         bnd end_op (\<lambda>_.
         bnd (ofile_close f) (\<lambda>_.
         ret 0)))))))) s = Inr (x, t)"
  then have "bnd (deref_file f) (\<lambda>fl. bnd (?c (f_ip fl)) (\<lambda>_. bnd (ofile_close f) (\<lambda>_. ret 0))) s = Inr (x, t)"
    by (simp add: bnd_assoc Let_def)
  then obtain fl u0 u v where r: "deref_file f s = Inr (fl, u0)" "?c (f_ip fl) u0 = Inr ((), u)"
    "ofile_close f u = Inr ((), v)" "t = v"
    by (simp only: bnd_returns[of "deref_file g" for g]) (auto simp: bnd_returns[of "bnd a b" for a b] bnd_returns[of "ofile_close g" for g])
  have k: "keeps shape (deref_file f)" "keeps shape (?c (f_ip fl))" by (intro keeps_intros)+
  have "shape u = shape s" using keepsD[OF k(1) r(1)] keepsD[OF k(2) r(2)] by simp
  then show "\<exists>u v :: 'a fs_state_scheme. shape u = shape s \<and> ofile_close f u = Inr ((), v) \<and> shape t = shape v" using r(3,4) by blast
qed

lemma shape_readdir [keeps_intros]: "keeps shape (readdir_loop fil fp buf i)"
proof (induction "2 ^ 32 - i" arbitrary: buf i rule: less_induct)
  case less
  have lt: "i < unat (di_size di) \<Longrightarrow> 2 ^ 32 - (i + sizeof_DirEntry) < 2 ^ 32 - i" for di :: DiskINode
    using unat_u32[of "di_size di"] by simp
  note IH = less.hyps[OF lt]
  show ?case
    by (subst readdir_loop.simps) (intro keeps_bnd; (rule keeps_cond)?; intro keeps_intros; erule IH)
qed

lemma shape_calls [keeps_intros]:
  "keeps shape (op_read fh sz off)" "keeps shape (op_write fh buf off)" "keeps shape (op_fgetattr fh)"
  "keeps shape (op_readdir fil b off fh)"
  unfolding op_read_def op_write_def op_fgetattr_def op_readdir_def by (intro keeps_intros)+

section \<open>The process\<close>

lemma upper_init [keeps_intros]: "keeps upper (Log_init dev)" "keeps upper (SuperBlock_init dev)"
proof -
  have m: "keeps upper (modify (\<lambda>s. s\<lparr>log_start := a s, log_size := b s, log_dev := c s\<rparr>))"
    "keeps upper (modify (\<lambda>s. s\<lparr>sb_magic := a s, sb_size := b s, sb_nblocks := c s, sb_ninodes := d s, sb_nlog := e s,
       sb_logstart := f s, sb_inodestart := g s, sb_bmapstart := h s\<rparr>))" for a b c d e f g h
    by (simp_all add: keeps_def)
  show l: "keeps upper (Log_init dev)" for dev
    unfolding Log_init_def recover_from_log_def recover_step_def read_head_def by (intro keeps_intros m)
  show "keeps upper (SuperBlock_init dev)" unfolding SuperBlock_init_def by (intro keeps_intros m l)
qed

text \<open>A process that serves requests: mounted by \<open>op_init\<close>, then any requests one after the other.\<close>

inductive serving :: "fs_state \<Rightarrow> bool" where
  mounted: "op_init (main_state img sz inp) = Inr ((), s) \<Longrightarrow> serving s"
| request: "serving s \<Longrightarrow> fuse_dispatch fil rq s = Inr (rep, t) \<Longrightarrow> serving t"

definition slot_typed :: "OFile \<Rightarrow> bool" where
  "slot_typed f \<longleftrightarrow> f_type f = FD_NONE \<and> f_ref f = 0 \<or> f_type f \<in> {FD_INODE, FD_DEVICE} \<and> f_ref f = 1"

definition table_typed :: "'a fs_state_scheme \<Rightarrow> bool" where
  "table_typed s \<longleftrightarrow> length (files s) = NFILE \<and> length (dev_table s) = NDEV \<and> (\<forall>f \<in> set (files s). slot_typed f)"

lemma table_typed_shape: "table_typed s \<longleftrightarrow> shape_ok (shape s)"
  by (simp add: table_typed_def shape_ok_def shape_def slot_typed_def slot_ok_def)

definition touches :: "table_shape \<Rightarrow> fuse_reply \<Rightarrow> table_shape \<Rightarrow> bool" where
  "touches sh rep sh' \<longleftrightarrow> (case r_fh rep of Some f \<Rightarrow> opens sh f sh' | None \<Rightarrow> sh' = sh \<or> (\<exists>f. closes sh f sh'))"

lemma does_map: "does R c \<Longrightarrow> (\<And>sh x sh'. R sh x sh' \<Longrightarrow> Q sh (g x) sh') \<Longrightarrow> does Q (bnd c (\<lambda>x. ret (g x)))"
  unfolding does_def
proof (intro allI impI)
  fix s y t
  assume c: "\<forall>s x t. shape_ok (shape s) \<longrightarrow> c s = Inr (x, t) \<longrightarrow> R (shape s) x (shape t)"
    and m: "\<And>sh x sh'. R sh x sh' \<Longrightarrow> Q sh (g x) sh'"
    and ok: "shape_ok (shape s)" and "bnd c (\<lambda>x. ret (g x)) s = Inr (y, t)"
  then obtain x where x: "c s = Inr (x, t)" "y = g x" by (auto simp: bnd_returns)
  show "Q (shape s) y (shape t)" unfolding x(2) by (rule m) (use c ok x(1) in blast)
qed

lemma keeps_does: "keeps shape c \<Longrightarrow> does (\<lambda>sh _ sh'. sh' = sh) c"
  by (simp add: does_def keeps_def)

lemma does_code:
  "does (\<lambda>sh _ sh'. sh' = sh) c \<Longrightarrow> does touches (code_of c)" "does (\<lambda>sh _ sh'. closes sh f sh') c \<Longrightarrow> does touches (code_of c)"
  unfolding code_of_def by (erule does_map; auto simp: touches_def reply_def)+

lemma does_reply:
  "does (\<lambda>sh _ sh'. sh' = sh) c \<Longrightarrow> (\<And>x. r_fh (g x) = None) \<Longrightarrow> does touches (bnd c (\<lambda>x. ret (g x)))"
  "does (\<lambda>sh x sh'. may_open sh (snd x) sh') c' \<Longrightarrow> (\<And>x. r_fh (h x) = snd x) \<Longrightarrow> does touches (bnd c' (\<lambda>x. ret (h x)))"
  by (erule does_map; auto simp: touches_def may_open_def split: option.splits)+

lemma does_op_open: "does (\<lambda>sh x sh'. may_open sh (snd x) sh') (op_open path flags)"
proof -
  have e: "op_open path flags = bnd (do_open path flags) (\<lambda>r. ret (case r of None \<Rightarrow> (- ENOENT, None) | Some f \<Rightarrow> (0, Some f)))"
    unfolding op_open_def by (rule arg_cong[where f = "bnd (do_open path flags)"], rule ext) (simp split: option.split)
  show ?thesis unfolding e by (rule does_map[OF does_do_open]) (auto simp: may_open_def split: option.splits)
qed

lemma keeps_xattr [keeps_intros]: "keeps p (op_getxattr n)" "keeps p (op_listxattr n)"
  by (simp_all add: op_getxattr_def op_listxattr_def keeps_def split: option.split)

lemma does_dispatch: "does touches (fuse_dispatch fil rq)"
proof (cases rq)
  case (Op_release fh)
  show ?thesis
  proof (cases fh)
    case (Some f)
    have "does (\<lambda>sh _ sh'. closes sh f sh') (op_release fh)" unfolding op_release_def Some option.case
      by (rule does_map[OF does_close])
    then show ?thesis unfolding Op_release fuse_dispatch.simps by (rule does_code(2))
  qed (simp add: Op_release op_release_def does_code(1) keeps_does keeps_basic)
next
  case (Op_releasedir fh)
  show ?thesis
  proof (cases fh)
    case (Some f)
    have "does (\<lambda>sh _ sh'. closes sh f sh') (op_release fh)" unfolding op_release_def Some option.case
      by (rule does_map[OF does_close])
    then show ?thesis unfolding Op_releasedir fuse_dispatch.simps by (rule does_code(2))
  qed (simp add: Op_releasedir op_release_def does_code(1) keeps_does keeps_basic)
qed (simp_all only: fuse_dispatch.simps case_prod_beta' op_link_def op_unlink_def op_chmod_def op_access_def op_utimens_def op_setxattr_def,
  (intro does_code(1) keeps_does keeps_intros does_reply does_getattr does_chown does_truncate does_op_open does_op_create; simp add: reply_def)+)

lemma serving_typed: "serving s \<Longrightarrow> table_typed s"
proof (induction rule: serving.induct)
  case (mounted img sz inp s)
  have i: "op_init s0 = (case SuperBlock_init ROOTDEV s0 of Inl e \<Rightarrow> Inl e
      | Inr (x, u) \<Rightarrow> Log_init ROOTDEV (u\<lparr>dev_table := (dev_table u)[CONSOLE := \<lparr>d_read = True, d_write = True\<rparr>]\<rparr>))" for s0 :: fs_state
    by (simp add: op_init_def bnd_def Console_init_def del: One_nat_def)
  then obtain u where u: "SuperBlock_init ROOTDEV (main_state img sz inp) = Inr ((), u)"
    "Log_init ROOTDEV (u\<lparr>dev_table := (dev_table u)[CONSOLE := \<lparr>d_read = True, d_write = True\<rparr>]\<rparr>) = Inr ((), s)"
    using mounted unfolding i by (auto split: sum.splits)
  have "shape u = shape (main_state img sz inp)" by (rule keepsD[OF upper_shape[OF upper_init(2)] u(1)])
  moreover have "shape s = shape (u\<lparr>dev_table := (dev_table u)[CONSOLE := \<lparr>d_read = True, d_write = True\<rparr>]\<rparr>)"
    by (rule keepsD[OF upper_shape[OF upper_init(1)] u(2)])
  ultimately have "shape s = (replicate NFILE (FD_NONE, 0), (replicate NDEV \<lparr>d_read = False, d_write = False\<rparr>)
      [CONSOLE := \<lparr>d_read = True, d_write = True\<rparr>])"
    by (simp add: shape_def main_state_def zero_ofile_def)
  then show ?case by (simp add: table_typed_shape shape_ok_def slot_ok_def)
next
  case (request s fil rq rep t)
  then have ok: "shape_ok (shape s)" by (simp add: table_typed_shape)
  from doesD[OF does_dispatch ok request(2)]
  have "shape t = shape s \<or> (\<exists>f. opens (shape s) f (shape t)) \<or> (\<exists>f. closes (shape s) f (shape t))"
    by (auto simp: touches_def split: option.splits)
  then show ?case using opens_ok[OF ok] closes_ok[OF ok] ok unfolding table_typed_shape by metis
qed

section \<open>Properties\<close>

text \<open>
  C39: the handles of the file system are well typed. In a process that \<open>op_init\<close> has mounted and that has
  served any requests, the table has its \<open>NFILE\<close> slots and each is free without references or an open inode
  or device with exactly one (never a pipe). When a request returns a handle, the handle is an index of the
  table, its slot was free, it is open afterwards, and no other slot was opened or closed by the request.
\<close>

theorem handles_typed:
  assumes "serving s"
  shows "table_typed s \<and> (\<forall>fil rq rep t f. fuse_dispatch fil rq s = Inr (rep, t) \<longrightarrow> r_fh rep = Some f \<longrightarrow>
    f < NFILE \<and> f_type (files s ! f) = FD_NONE \<and> f_type (files t ! f) \<in> {FD_INODE, FD_DEVICE} \<and> f_ref (files t ! f) = 1 \<and>
    (\<forall>i < NFILE. i \<noteq> f \<longrightarrow> f_type (files t ! i) = f_type (files s ! i) \<and> f_ref (files t ! i) = f_ref (files s ! i)))"
proof (intro conjI allI impI)
  show ty: "table_typed s" by (rule serving_typed[OF assms])
  fix fil rq rep t f
  assume run: "fuse_dispatch fil rq s = Inr (rep, t)" and f: "r_fh rep = Some f"
  have ok: "shape_ok (shape s)" using ty by (simp add: table_typed_shape)
  have op: "opens (shape s) f (shape t)" using doesD[OF does_dispatch ok run] f by (simp add: touches_def)
  have l: "length (files s) = NFILE" "length (files t) = NFILE"
    using ty serving_typed[OF serving.request[OF assms run]] by (simp_all add: table_typed_def)
  obtain ty where e: "ty \<in> {FD_INODE, FD_DEVICE}" "fst (shape t) = (fst (shape s))[f := (ty, 1)]"
    and fl: "f < NFILE" "f_type (files s ! f) = FD_NONE"
    using op l unfolding opens_def by (metis fst_conv shape_length shape_nth)
  have n: "(f_type (files t ! i), f_ref (files t ! i)) = (if i = f then (ty, 1) else (f_type (files s ! i), f_ref (files s ! i)))"
    if "i < NFILE" for i
    using shape_nth[of i t] shape_nth[of i s] that l fl e(2) by (cases "i = f") (simp_all add: shape_length)
  show "f < NFILE" "f_type (files s ! f) = FD_NONE" by (rule fl)+
  show "f_type (files t ! f) \<in> {FD_INODE, FD_DEVICE}" "f_ref (files t ! f) = 1" using n[OF fl(1)] e(1) by simp_all
  show "f_type (files t ! i) = f_type (files s ! i)" "f_ref (files t ! i) = f_ref (files s ! i)" if "i < NFILE" "i \<noteq> f" for i
    using n[OF that(1)] that(2) by simp_all
qed

theorem handles_typed_witness:
  "\<exists>s rep t. op_init (main_state boot_img 1024000 []) = Inr ((), s) \<and> 
     fuse_dispatch (\<lambda>b n st i. (0, n # b)) (Op_opendir (cstr ''/..'') O_RDONLY) s = Inr (rep, t) \<and>
     r_fh rep = Some 0 \<and> f_type (files s ! 0) = FD_NONE \<and> f_ref (files t ! 0) = 1"
proof -
  obtain tr bs where l: "length bs = LOG_SIZE"
    and r: "op_init (main_state boot_img 1024000 []) = Inr ((), boot_state [] tr bs)" using boot_run by blast
  let ?s = "boot_state [] tr bs"
  have e: "elements (cstr ''/..'') = [cstr ''..'']" by (simp add: cstr_def elements_def)
  have p: "cstr ''/..'' \<noteq> []" "hd (cstr ''/..'') = slash" by (simp_all add: cstr_def)
  have lg: "legal_name (cstr ''..'')" by (simp add: legal_name_def cstr_def)
  have w: "walkable ?s ROOTINO (elements (cstr ''/..''))" "walk False ?s ROOTINO (elements (cstr ''/..'')) = Some 1"
    using boot_walk[OF l, of "[cstr ''..'']" "[]" tr] lg unfolding e by (simp_all del: walk.simps walkable.simps)
  have om: "\<not> flag O_RDONLY O_CREAT" "\<not> flag O_RDONLY O_TRUNC" by (simp_all add: flag_def)
  obtain t where "do_open (cstr ''/..'') O_RDONLY ?s = Inr (Some 0, t)"
    using do_open_found[OF boot_calm[OF l] _ p w(1) om w(2) boot_free_file] by auto
  then have d: "fuse_dispatch (\<lambda>b n st i. (0, n # b)) (Op_opendir (cstr ''/..'') O_RDONLY) ?s =
      Inr ((reply 0)\<lparr>r_fh := Some 0\<rparr>, t)" by (simp add: op_open_def bnd_def)
  have "serving ?s" by (rule serving.mounted[OF r])
  from handles_typed[OF this] d have "f_type (files ?s ! 0) = FD_NONE \<and> f_ref (files t ! 0) = 1"
    by (auto simp del: fuse_dispatch.simps)
  with r d show ?thesis by (intro exI[of _ ?s] exI[of _ t]) (simp del: fuse_dispatch.simps)
qed

end
