(* ===== verification/Process.thy ===== *)
theory Process
  imports Handles
begin

text \<open>
  \<open>main\<close> of \<open>src/main.cxx\<close>. The operating system and libfuse are parameters: \<open>realpath\<close>; \<open>host\<close>, which opens
  and maps the image and is \<open>None\<close> when \<open>fstat\<close> fails; \<open>log_ok\<close>, whether the log file can be opened; and
  \<open>fuse_main\<close>, which gets the arguments and works on the state of the process. The result of \<open>main\<close> is its
  exit code and, when it got as far as \<open>fuse_main\<close>, the state at the end, whose image is the file.
\<close>

definition xv6fs_main :: "(byte list \<Rightarrow> byte list option) \<Rightarrow> (byte list option \<Rightarrow> (image \<times> nat) option) \<Rightarrow>
    (byte list \<Rightarrow> bool) \<Rightarrow> (byte list option list \<Rightarrow> (int, fs_state) m) \<Rightarrow> byte list \<Rightarrow> byte list list \<Rightarrow>
    error + int \<times> fs_state option" where
  "xv6fs_main realpath host log_ok fuse_main stdin_bytes argv =
     (if length argv \<noteq> 4 then Inr (1, None)
      else case host (realpath (argv ! 2)) of
        None \<Rightarrow> Inl Abort
      | Some (img, sz) \<Rightarrow>
          if \<not> log_ok (argv ! 1) then Inl Abort
          else
            (let args = [Some (argv ! 0), Some (cstr ''-f''), Some (cstr ''-d''), realpath (argv ! 3)]
             in case fuse_main args (main_state img sz stdin_bytes) of
               Inl e \<Rightarrow> Inl e
             | Inr (_, s) \<Rightarrow> Inr (0, Some s)))"

text \<open>
  What libfuse does with the table of handlers when it runs in one thread: it mounts, serves requests
  and unmounts. \<open>filler\<close> is its own.
\<close>

fun serve :: "(byte list list \<Rightarrow> byte list \<Rightarrow> c_stat \<Rightarrow> nat \<Rightarrow> int \<times> byte list list) \<Rightarrow> fuse_request list \<Rightarrow>
    (int, fs_state) m" where
  "serve fil [] = bnd op_destroy (\<lambda>_. ret 0)"
| "serve fil (rq # rqs) = bnd (fuse_dispatch fil rq) (\<lambda>_. serve fil rqs)"

lemma serve_serving: "serving s \<Longrightarrow> serve fil rqs s = Inr (c, t) \<Longrightarrow> serving t"
proof (induction rqs arbitrary: s)
  case Nil
  then show ?case by (simp add: op_destroy_def)
next
  case (Cons rq rqs)
  then obtain rep u where "fuse_dispatch fil rq s = Inr (rep, u)" "serve fil rqs u = Inr (c, t)"
    by (auto simp: bnd_returns)
  then show ?case using Cons serving.request by blast
qed

text \<open>
  A run of the process that comes to its end leaves the table of open files typed, and exits with 0
  whatever libfuse returned.
\<close>

lemma main_serving:
  assumes "xv6fs_main realpath host log_ok (\<lambda>_. bnd op_init (\<lambda>_. serve fil rqs)) inp argv = Inr (code, Some s)"
  shows "code = 0 \<and> serving s \<and> table_typed s"
proof -
  obtain img sz where r: "bnd op_init (\<lambda>_. serve fil rqs) (main_state img sz inp) = Inr (0, s) \<or>
      (\<exists>c. bnd op_init (\<lambda>_. serve fil rqs) (main_state img sz inp) = Inr (c, s))" "code = 0"
    using assms by (fastforce simp: xv6fs_main_def Let_def split: if_splits option.splits sum.splits prod.splits)
  then obtain c u where "op_init (main_state img sz inp) = Inr ((), u)" "serve fil rqs u = Inr (c, s)"
    by (auto simp: bnd_returns)
  then have "serving s" using serve_serving serving.mounted by blast
  then show ?thesis using r(2) serving_typed by blast
qed

text \<open>Without an image, or with the wrong number of arguments, nothing is served.\<close>

lemma main_fails:
  "length argv \<noteq> 4 \<Longrightarrow> xv6fs_main realpath host log_ok fm inp argv = Inr (1, None)"
  "length argv = 4 \<Longrightarrow> host (realpath (argv ! 2)) = None \<Longrightarrow> xv6fs_main realpath host log_ok fm inp argv = Inl Abort"
  by (simp_all add: xv6fs_main_def)

end
